(* ===== verification/Prelude.thy ===== *)
theory Prelude
  imports Main "HOL-Library.Char_ord" "HOL-Library.List_Lexorder"
begin

text \<open>
  Shared vocabulary of the development: Rust's \<open>Result\<close> as a sum with its \<open>?\<close> operator
  (\<open>rbind\<close>), \<open>Option::ok_or\<close>, a \<open>for\<close> loop whose body may return early with an error
  (\<open>rfold\<close>), and the machine integers the sources use. An \<open>i128\<close> is an \<^typ>\<open>int\<close> and a
  \<open>u32\<close>, \<open>u64\<close> or \<open>usize\<close> a \<^typ>\<open>nat\<close>; every \<open>checked_\<close> or \<open>saturating_\<close>
  operation writes the width out, so an overflow is a branch of the model and never a
  silent wrap.
\<close>

section \<open>Collections of rewrite rules\<close>

named_theorems result_simps \<open>inversion of a \<open>?\<close> chain that returned \<open>Ok\<close>\<close>
named_theorems eval_simps \<open>rules that evaluate an operation on concrete numbers\<close>
named_theorems width_defs \<open>definitions of the machine-integer bounds\<close>

section \<open>Rust's \<open>Result\<close>\<close>

type_synonym ('e, 'a) result = "'e + 'a"

abbreviation Ok :: "'a \<Rightarrow> ('e, 'a) result" where
  "Ok \<equiv> Inr"

abbreviation Err :: "'e \<Rightarrow> ('e, 'a) result" where
  "Err \<equiv> Inl"

text \<open>\<open>let x = m?; f(x)\<close>.\<close>

definition rbind :: "('e, 'a) result \<Rightarrow> ('a \<Rightarrow> ('e, 'b) result) \<Rightarrow> ('e, 'b) result" where
  "rbind m f = (case m of Inl e \<Rightarrow> Inl e | Inr x \<Rightarrow> f x)"

text \<open>\<open>Result::map\<close>.\<close>

definition rmap :: "('a \<Rightarrow> 'b) \<Rightarrow> ('e, 'a) result \<Rightarrow> ('e, 'b) result" where
  "rmap f m = rbind m (\<lambda>x. Ok (f x))"

text \<open>\<open>Option::ok_or\<close>.\<close>

definition ok_or :: "'e \<Rightarrow> 'a option \<Rightarrow> ('e, 'a) result" where
  "ok_or e x = (case x of None \<Rightarrow> Err e | Some v \<Rightarrow> Ok v)"

text \<open>A \<open>for\<close> loop over \<open>xs\<close> whose body updates a state and may leave with \<open>?\<close>.\<close>

fun rfold :: "('a \<Rightarrow> 's \<Rightarrow> ('e, 's) result) \<Rightarrow> 'a list \<Rightarrow> 's \<Rightarrow> ('e, 's) result" where
  "rfold f [] s = Ok s"
| "rfold f (x # xs) s = rbind (f x s) (rfold f xs)"

text \<open>A \<open>for\<close> loop whose body may leave the function with an answer.\<close>

fun rfind :: "('a \<Rightarrow> ('e, 'b option) result) \<Rightarrow> 'a list \<Rightarrow> ('e, 'b option) result" where
  "rfind f [] = Ok None"
| "rfind f (x # xs) = rbind (f x) (\<lambda>r. case r of None \<Rightarrow> rfind f xs | Some y \<Rightarrow> Ok (Some y))"

section \<open>Machine integers\<close>

definition i128_min :: int where
  "i128_min = - (2 ^ 127)"

definition i128_max :: int where
  "i128_max = 2 ^ 127 - 1"

definition in_i128 :: "int \<Rightarrow> bool" where
  "in_i128 x \<longleftrightarrow> i128_min \<le> x \<and> x \<le> i128_max"

definition u32_max :: nat where
  "u32_max = 2 ^ 32 - 1"

definition u64_max :: nat where
  "u64_max = 2 ^ 64 - 1"

lemmas i128_defs [width_defs] = i128_min_def i128_max_def in_i128_def

lemmas unsigned_defs [width_defs] = u32_max_def u64_max_def

text \<open>The exact result when it fits in an \<open>i128\<close>, \<open>None\<close> otherwise.\<close>

definition checked_i128 :: "int \<Rightarrow> int option" where
  "checked_i128 x = (if in_i128 x then Some x else None)"

definition checked_add :: "int \<Rightarrow> int \<Rightarrow> int option" where
  "checked_add x y = checked_i128 (x + y)"

definition checked_sub :: "int \<Rightarrow> int \<Rightarrow> int option" where
  "checked_sub x y = checked_i128 (x - y)"

definition checked_mul :: "int \<Rightarrow> int \<Rightarrow> int option" where
  "checked_mul x y = checked_i128 (x * y)"

definition checked_neg :: "int \<Rightarrow> int option" where
  "checked_neg x = checked_i128 (- x)"

definition saturate_i128 :: "int \<Rightarrow> int" where
  "saturate_i128 x = max i128_min (min i128_max x)"

definition saturating_add :: "int \<Rightarrow> int \<Rightarrow> int" where
  "saturating_add x y = saturate_i128 (x + y)"

definition saturating_sub :: "int \<Rightarrow> int \<Rightarrow> int" where
  "saturating_sub x y = saturate_i128 (x - y)"

definition checked_add_u32 :: "nat \<Rightarrow> nat \<Rightarrow> nat option" where
  "checked_add_u32 x y = (if x + y \<le> u32_max then Some (x + y) else None)"

definition checked_sub_unsigned :: "nat \<Rightarrow> nat \<Rightarrow> nat option" where
  "checked_sub_unsigned x y = (if y \<le> x then Some (x - y) else None)"

definition saturating_add_u32 :: "nat \<Rightarrow> nat \<Rightarrow> nat" where
  "saturating_add_u32 x y = min u32_max (x + y)"

text \<open>Rust's integer division truncates toward zero.\<close>

definition tdiv :: "int \<Rightarrow> int \<Rightarrow> int" where
  "tdiv x y = sgn x * sgn y * (\<bar>x\<bar> div \<bar>y\<bar>)"

text \<open>\<open>u32::try_from\<close> on an \<open>i128\<close>.\<close>

definition u32_try_from :: "int \<Rightarrow> nat option" where
  "u32_try_from x = (if 0 \<le> x \<and> x \<le> int u32_max then Some (nat x) else None)"

section \<open>Lemmas on results\<close>

lemma rbind_Ok [simp]: "rbind (Ok x) f = f x"
  by (simp add: rbind_def)

lemma rbind_Err [simp]: "rbind (Err e) f = Err e"
  by (simp add: rbind_def)

lemma rbind_eq_Ok [simp, result_simps]:
  "rbind m f = Ok y \<longleftrightarrow> (\<exists>x. m = Ok x \<and> f x = Ok y)"
  by (cases m) auto

text \<open>The same as an elimination rule, for chains whose tail is better left alone.\<close>

lemma rbindE: "rbind m f = Ok y \<Longrightarrow> (\<And>x. m = Ok x \<Longrightarrow> f x = Ok y \<Longrightarrow> P) \<Longrightarrow> P"
  by auto

lemma rbind_pairE:
  "rbind m (\<lambda>(x, y). f x y) = Ok z \<Longrightarrow> (\<And>x y. m = Ok (x, y) \<Longrightarrow> f x y = Ok z \<Longrightarrow> P) \<Longrightarrow> P"
  by auto

lemma rbind_eq_Err:
  "rbind m f = Err e \<longleftrightarrow> m = Err e \<or> (\<exists>x. m = Ok x \<and> f x = Err e)"
  by (cases m) auto

lemma rbind_cong [fundef_cong]:
  "m = m' \<Longrightarrow> (\<And>x. m' = Ok x \<Longrightarrow> f x = g x) \<Longrightarrow> rbind m f = rbind m' g"
  by (cases m') auto

text \<open>
  For evaluation: only the first computation is looked at until it has returned, as the
  program does.
\<close>

lemma rbind_weak_cong: "m = m' \<Longrightarrow> rbind m f = rbind m' f"
  by simp

lemma rbind_assoc: "rbind (rbind m f) g = rbind m (\<lambda>x. rbind (f x) g)"
  by (cases m) auto

lemma rmap_simps [simp]:
  "rmap f (Ok x) = Ok (f x)" "rmap f (Err e) = Err e"
  by (simp_all add: rmap_def)

lemma rmap_eq_Ok [simp, result_simps]: "rmap f m = Ok y \<longleftrightarrow> (\<exists>x. m = Ok x \<and> y = f x)"
  by (cases m) auto

lemma ok_or_simps [simp]: "ok_or e None = Err e" "ok_or e (Some v) = Ok v"
  by (simp_all add: ok_or_def)

lemma ok_or_eq_Ok [simp, result_simps]: "ok_or e x = Ok v \<longleftrightarrow> x = Some v"
  by (cases x) auto

lemma ok_or_eq_Err [simp]: "ok_or e x = Err e' \<longleftrightarrow> x = None \<and> e' = e"
  by (cases x) auto

lemma rfold_append: "rfold f (xs @ ys) s = rbind (rfold f xs s) (rfold f ys)"
proof (induction xs arbitrary: s)
  case (Cons x xs)
  then have "rfold f (xs @ ys) = (\<lambda>s. rbind (rfold f xs s) (rfold f ys))" by blast
  then show ?case by (simp add: rbind_assoc)
qed simp

text \<open>A loop fails in the first turn that fails.\<close>

lemma rfold_Err:
  "rfold f xs s = Err e \<longleftrightarrow> (\<exists>ys x zs t. xs = ys @ x # zs \<and> rfold f ys s = Ok t \<and> f x t = Err e)"
proof
  show "rfold f xs s = Err e \<Longrightarrow> \<exists>ys x zs t. xs = ys @ x # zs \<and> rfold f ys s = Ok t \<and> f x t = Err e"
  proof (induction xs arbitrary: s)
    case (Cons a xs)
    show ?case
    proof (cases "f a s")
      case (Inl e')
      with Cons.prems show ?thesis by (intro exI [of _ "[]"]) simp
    next
      case (Inr t)
      with Cons.prems Cons.IH [of t] obtain ys x zs t' where "xs = ys @ x # zs" "rfold f ys t = Ok t'" "f x t' = Err e"
        by auto
      then show ?thesis using Inr by (intro exI [of _ "a # ys"] exI [of _ x] exI [of _ zs]) simp
    qed
  qed simp
next
  assume "\<exists>ys x zs t. xs = ys @ x # zs \<and> rfold f ys s = Ok t \<and> f x t = Err e"
  then show "rfold f xs s = Err e" by (auto simp: rfold_append)
qed

text \<open>The loop rule: what the body keeps, the loop keeps.\<close>

lemma rfold_invariant:
  assumes "rfold f xs s = Ok t" and "I s"
    and "\<And>x s t. x \<in> set xs \<Longrightarrow> I s \<Longrightarrow> f x s = Ok t \<Longrightarrow> I t"
  shows "I t"
  using assms
proof (induction xs arbitrary: s)
  case (Cons x xs)
  then obtain s' where "f x s = Ok s'" "rfold f xs s' = Ok t" by auto
  moreover from this Cons.prems have "I s'" by auto
  ultimately show ?case using Cons.IH Cons.prems(3) by (meson list.set_intros(2))
qed simp

text \<open>The same with an invariant that also speaks of the part of the list already walked.\<close>

lemma rfold_prefix_invariant:
  assumes "rfold f xs s = Ok t" and "I [] s"
    and "\<And>ys x zs s t. xs = ys @ x # zs \<Longrightarrow> I ys s \<Longrightarrow> f x s = Ok t \<Longrightarrow> I (ys @ [x]) t"
  shows "I xs t"
proof -
  have "I (ps @ xs') t"
    if "rfold f xs' s' = Ok t" "I ps s'" "xs = ps @ xs'" for ps xs' s'
    using that
  proof (induction xs' arbitrary: ps s')
    case (Cons x xs')
    then obtain s1 where s1: "f x s' = Ok s1" and rest: "rfold f xs' s1 = Ok t" by auto
    from Cons.prems s1 have "I (ps @ [x]) s1" using assms(3) by blast
    with Cons.IH [OF rest, of "ps @ [x]"] Cons.prems(3) show ?case by simp
  qed simp
  from this [of xs s "[]"] assms(1,2) show ?thesis by simp
qed

lemma rfind_None: "rfind f xs = Ok None \<longleftrightarrow> (\<forall>x \<in> set xs. f x = Ok None)"
  by (induction xs) (auto split: option.splits)

lemma rfind_Cons_Some:
  "rfind f (x # xs) = Ok (Some y) \<longleftrightarrow> f x = Ok (Some y) \<or> f x = Ok None \<and> rfind f xs = Ok (Some y)"
proof (cases "f x")
  case (Inr r)
  then show ?thesis by (cases r) simp_all
qed simp

lemma rfind_Some:
  "rfind f xs = Ok (Some y) \<longleftrightarrow>
    (\<exists>ys x zs. xs = ys @ x # zs \<and> (\<forall>z \<in> set ys. f z = Ok None) \<and> f x = Ok (Some y))"
proof (induction xs)
  case (Cons a xs)
  show ?case
  proof
    assume "rfind f (a # xs) = Ok (Some y)"
    then consider "f a = Ok (Some y)" | "f a = Ok None" "rfind f xs = Ok (Some y)"
      unfolding rfind_Cons_Some by blast
    then show "\<exists>ys x zs. a # xs = ys @ x # zs \<and> (\<forall>z \<in> set ys. f z = Ok None) \<and> f x = Ok (Some y)"
    proof cases
      case 1
      then show ?thesis by (intro exI [of _ "[]"]) simp
    next
      case 2
      with Cons.IH obtain ys x zs where "xs = ys @ x # zs" "\<forall>z \<in> set ys. f z = Ok None" "f x = Ok (Some y)"
        by blast
      with 2 show ?thesis by (intro exI [of _ "a # ys"] exI [of _ x] exI [of _ zs]) simp
    qed
  next
    assume "\<exists>ys x zs. a # xs = ys @ x # zs \<and> (\<forall>z \<in> set ys. f z = Ok None) \<and> f x = Ok (Some y)"
    then obtain ys x zs where *: "a # xs = ys @ x # zs" "\<forall>z \<in> set ys. f z = Ok None" "f x = Ok (Some y)" by blast
    show "rfind f (a # xs) = Ok (Some y)"
    proof (cases ys)
      case Nil
      with * show ?thesis by simp
    next
      case (Cons b bs)
      with * have "xs = bs @ x # zs" "\<forall>z \<in> set bs. f z = Ok None" "f a = Ok None" by simp_all
      moreover from this *(3) Cons.IH have "rfind f xs = Ok (Some y)" by blast
      ultimately show ?thesis by simp
    qed
  qed
qed simp

section \<open>Lemmas on machine integers\<close>

lemma in_i128_0 [simp]: "in_i128 0"
  by (simp add: i128_defs)

lemma checked_i128_eq_Some [simp, result_simps]:
  "checked_i128 x = Some y \<longleftrightarrow> in_i128 x \<and> y = x"
  by (auto simp: checked_i128_def)

lemmas checked_evals [eval_simps] = checked_i128_def checked_add_def checked_sub_def checked_mul_def
  checked_neg_def checked_add_u32_def checked_sub_unsigned_def u32_try_from_def saturate_i128_def
  saturating_add_def saturating_sub_def saturating_add_u32_def i128_min_def i128_max_def in_i128_def
  u32_max_def u64_max_def tdiv_def

lemma checked_i128_eq_None [simp]: "checked_i128 x = None \<longleftrightarrow> \<not> in_i128 x"
  by (simp add: checked_i128_def)

lemma checked_add_eq_Some [simp, result_simps]:
  "checked_add x y = Some z \<longleftrightarrow> in_i128 (x + y) \<and> z = x + y"
  by (simp add: checked_add_def)

lemma checked_sub_eq_Some [simp, result_simps]:
  "checked_sub x y = Some z \<longleftrightarrow> in_i128 (x - y) \<and> z = x - y"
  by (simp add: checked_sub_def)

lemma checked_mul_eq_Some [simp, result_simps]:
  "checked_mul x y = Some z \<longleftrightarrow> in_i128 (x * y) \<and> z = x * y"
  by (simp add: checked_mul_def)

lemma checked_neg_eq_Some [simp, result_simps]:
  "checked_neg x = Some z \<longleftrightarrow> in_i128 (- x) \<and> z = - x"
  by (simp add: checked_neg_def)

lemma checked_add_u32_eq_Some [simp, result_simps]:
  "checked_add_u32 x y = Some z \<longleftrightarrow> x + y \<le> u32_max \<and> z = x + y"
  by (auto simp: checked_add_u32_def)

lemma checked_sub_unsigned_eq_Some [simp, result_simps]:
  "checked_sub_unsigned x y = Some z \<longleftrightarrow> y \<le> x \<and> z = x - y"
  by (auto simp: checked_sub_unsigned_def)

lemma u32_try_from_eq_Some [simp, result_simps]:
  "u32_try_from x = Some n \<longleftrightarrow> 0 \<le> x \<and> x \<le> int u32_max \<and> n = nat x"
  by (auto simp: u32_try_from_def)

lemma tdiv_nonneg: "0 \<le> x \<Longrightarrow> 0 < y \<Longrightarrow> tdiv x y = x div y"
  by (cases "x = 0") (simp_all add: tdiv_def)

lemma saturate_i128_id: "in_i128 x \<Longrightarrow> saturate_i128 x = x"
  by (simp add: saturate_i128_def in_i128_def)

lemma in_i128_saturate [simp]: "in_i128 (saturate_i128 x)"
  by (simp add: saturate_i128_def i128_defs)

lemma in_i128_between: "in_i128 a \<Longrightarrow> in_i128 b \<Longrightarrow> a \<le> x \<Longrightarrow> x \<le> b \<Longrightarrow> in_i128 x"
  by (simp add: in_i128_def)

lemma in_i128_nonneg_le: "in_i128 b \<Longrightarrow> 0 \<le> x \<Longrightarrow> x \<le> b \<Longrightarrow> in_i128 x"
  by (rule in_i128_between [of 0 b]) simp_all

lemma in_i128_diff_nonneg: "in_i128 a \<Longrightarrow> in_i128 b \<Longrightarrow> 0 \<le> a \<Longrightarrow> 0 \<le> b \<Longrightarrow> in_i128 (a - b)"
  by (simp add: i128_defs)

end
