(* ===== verification/BTree.thy ===== *)
theory BTree
  imports Prelude
begin

text \<open>
  Rust's \<open>BTreeMap\<close>, the only map the modelled sources use: an association list with
  strictly increasing keys, so that iteration is in key order as the sources rely on.
  The locale \<open>ordered_map\<close> is the contract clients reason from; the list operations
  interpret it.
\<close>

section \<open>The map and its operations\<close>

type_synonym ('k, 'v) btree = "('k \<times> 'v) list"

text \<open>\<open>BTreeMap::get(..).copied()\<close>.\<close>

definition bt_get :: "('k, 'v) btree \<Rightarrow> 'k \<Rightarrow> 'v option" where
  "bt_get m k = map_of m k"

text \<open>\<open>get(..).copied().unwrap_or(0)\<close>.\<close>

definition bt_get0 :: "('k, int) btree \<Rightarrow> 'k \<Rightarrow> int" where
  "bt_get0 m k = (case bt_get m k of None \<Rightarrow> 0 | Some v \<Rightarrow> v)"

fun bt_insert :: "'k::linorder \<Rightarrow> 'v \<Rightarrow> ('k, 'v) btree \<Rightarrow> ('k, 'v) btree" where
  "bt_insert k v [] = [(k, v)]"
| "bt_insert k v ((k', v') # m) =
     (if k < k' then (k, v) # (k', v') # m
      else if k = k' then (k, v) # m
      else (k', v') # bt_insert k v m)"

definition bt_remove :: "'k \<Rightarrow> ('k, 'v) btree \<Rightarrow> ('k, 'v) btree" where
  "bt_remove k m = filter (\<lambda>(k', _). k' \<noteq> k) m"

text \<open>\<open>collect()\<close> of pairs into a map: a later entry replaces an earlier one.\<close>

definition bt_collect :: "('k::linorder \<times> 'v) list \<Rightarrow> ('k, 'v) btree" where
  "bt_collect pairs = fold (\<lambda>(k, v). bt_insert k v) pairs []"

definition bt_keys :: "('k, 'v) btree \<Rightarrow> 'k list" where
  "bt_keys m = map fst m"

definition bt_values :: "('k, 'v) btree \<Rightarrow> 'v list" where
  "bt_values m = map snd m"

definition bt_wf :: "('k::linorder, 'v) btree \<Rightarrow> bool" where
  "bt_wf m = sorted_wrt (<) (bt_keys m)"

section \<open>The contract\<close>

locale ordered_map =
  fixes empty :: "'m"
    and get :: "'m \<Rightarrow> 'k::linorder \<Rightarrow> 'v option"
    and insert :: "'k \<Rightarrow> 'v \<Rightarrow> 'm \<Rightarrow> 'm"
    and remove :: "'k \<Rightarrow> 'm \<Rightarrow> 'm"
    and entries :: "'m \<Rightarrow> ('k \<times> 'v) list"
    and invar :: "'m \<Rightarrow> bool"
  assumes get_empty: "get empty k = None"
    and get_insert: "invar m \<Longrightarrow> get (insert k v m) k' = (if k' = k then Some v else get m k')"
    and get_remove: "invar m \<Longrightarrow> get (remove k m) k' = (if k' = k then None else get m k')"
    and get_entries: "invar m \<Longrightarrow> get m k = map_of (entries m) k"
    and entries_sorted: "invar m \<Longrightarrow> sorted_wrt (<) (map fst (entries m))"
    and invar_empty: "invar empty"
    and invar_insert: "invar m \<Longrightarrow> invar (insert k v m)"
    and invar_remove: "invar m \<Longrightarrow> invar (remove k m)"
begin

lemma distinct_keys: "invar m \<Longrightarrow> distinct (map fst (entries m))"
  using entries_sorted strict_sorted_iff by blast

lemma entry_iff: "invar m \<Longrightarrow> (k, v) \<in> set (entries m) \<longleftrightarrow> get m k = Some v"
  by (simp add: get_entries map_of_eq_Some_iff distinct_keys)

lemma entries_by_keys:
  assumes "invar m"
  shows "entries m = map (\<lambda>k. (k, the (get m k))) (map fst (entries m))"
proof -
  have "(fst e, the (get m (fst e))) = e" if "e \<in> set (entries m)" for e
    using that entry_iff [OF assms, of "fst e" "snd e"] by (metis option.sel prod.collapse)
  then show ?thesis by (simp add: map_idI)
qed

lemma extensional:
  assumes "invar m" "invar m'" "\<And>k. get m k = get m' k"
  shows "entries m = entries m'"
proof -
  have "set (entries m) = set (entries m')"
    using entry_iff [OF assms(1)] entry_iff [OF assms(2)] assms(3) by auto
  then have "map fst (entries m) = map fst (entries m')"
    using entries_sorted [OF assms(1)] entries_sorted [OF assms(2)]
    by (metis list.set_map strict_sorted_equal)
  moreover have "(\<lambda>k. (k, the (get m k))) = (\<lambda>k. (k, the (get m' k)))"
    by (simp add: assms(3))
  ultimately show ?thesis
    using entries_by_keys [OF assms(1)] entries_by_keys [OF assms(2)] by simp
qed

lemma insert_commute:
  "invar m \<Longrightarrow> k \<noteq> k' \<Longrightarrow> entries (insert k v (insert k' v' m)) = entries (insert k' v' (insert k v m))"
  by (rule extensional) (auto simp: get_insert invar_insert)

lemma remove_insert:
  "invar m \<Longrightarrow> get m k = None \<Longrightarrow> entries (remove k (insert k v m)) = entries m"
  by (rule extensional) (auto simp: get_insert get_remove invar_insert invar_remove)

lemma entries_remove_Nil:
  "invar m \<Longrightarrow> entries m = [] \<longleftrightarrow> (\<forall>k. get m k = None)"
  by (metis entry_iff get_entries list.set_intros(1) map_of.simps(1) neq_Nil_conv option.discI
      prod.collapse)

end

section \<open>The list implementation meets it\<close>

lemma bt_get_simps [simp]:
  "bt_get [] k = None"
  "bt_get ((k', v) # m) k = (if k = k' then Some v else bt_get m k)"
  by (simp_all add: bt_get_def)

lemma bt_keys_simps [simp]: "bt_keys [] = []" "bt_keys ((k, v) # m) = k # bt_keys m"
  by (simp_all add: bt_keys_def)

lemma bt_values_simps [simp]: "bt_values [] = []" "bt_values ((k, v) # m) = v # bt_values m"
  by (simp_all add: bt_values_def)

lemma bt_wf_simps [simp]:
  "bt_wf []" "bt_wf ((k, v) # m) \<longleftrightarrow> (\<forall>k' \<in> set (bt_keys m). k < k') \<and> bt_wf m"
  by (simp_all add: bt_wf_def)

lemma bt_remove_simps [simp]:
  "bt_remove k [] = []"
  "bt_remove k ((k', v) # m) = (if k' = k then bt_remove k m else (k', v) # bt_remove k m)"
  by (simp_all add: bt_remove_def)

lemma bt_get_insert [simp]: "bt_get (bt_insert k v m) k' = (if k' = k then Some v else bt_get m k')"
  by (induction m) (auto simp: bt_get_def)

lemma bt_get_remove [simp]: "bt_get (bt_remove k m) k' = (if k' = k then None else bt_get m k')"
  by (induction m) auto

lemma set_bt_keys_insert [simp]: "set (bt_keys (bt_insert k v m)) = insert k (set (bt_keys m))"
  by (induction k v m rule: bt_insert.induct) auto

lemma set_bt_keys_remove [simp]: "set (bt_keys (bt_remove k m)) = set (bt_keys m) - {k}"
  by (auto simp: bt_keys_def bt_remove_def)

lemma bt_wf_insert [simp]: "bt_wf m \<Longrightarrow> bt_wf (bt_insert k v m)"
  by (induction k v m rule: bt_insert.induct) (auto dest: order.strict_trans)

lemma bt_wf_remove [simp]: "bt_wf m \<Longrightarrow> bt_wf (bt_remove k m)"
  by (induction m) auto

lemma bt_get_eq_None_iff: "bt_get m k = None \<longleftrightarrow> k \<notin> set (bt_keys m)"
  by (simp add: bt_get_def bt_keys_def map_of_eq_None_iff)

lemma bt_wf_distinct: "bt_wf m \<Longrightarrow> distinct (bt_keys m)"
  unfolding bt_wf_def using strict_sorted_iff by blast

lemma bt_get_in_set: "bt_get m k = Some v \<Longrightarrow> (k, v) \<in> set m"
  by (simp add: bt_get_def map_of_SomeD)

lemma bt_in_set_get: "bt_wf m \<Longrightarrow> (k, v) \<in> set m \<longleftrightarrow> bt_get m k = Some v"
  using bt_wf_distinct [of m] by (simp add: bt_get_def bt_keys_def map_of_eq_Some_iff)

lemma set_bt_insert: "bt_wf m \<Longrightarrow> set (bt_insert k v m) = insert (k, v) {e \<in> set m. fst e \<noteq> k}"
  by (induction k v m rule: bt_insert.induct) (auto simp: bt_keys_def)

lemma set_bt_remove: "set (bt_remove k m) = {e \<in> set m. fst e \<noteq> k}"
  by (auto simp: bt_remove_def)

interpretation bt: ordered_map "[]" bt_get bt_insert bt_remove "\<lambda>m. m" bt_wf
proof unfold_locales
  show "bt_get m k = map_of m k" for m :: "('a, 'b) btree" and k
    by (simp add: bt_get_def)
  show "sorted_wrt (<) (map fst m)" if "bt_wf m" for m :: "('a, 'b) btree"
    using that by (simp add: bt_wf_def bt_keys_def)
qed simp_all

text \<open>Two maps with equal lookups are equal, the shape clients use it in.\<close>

lemma bt_eqI: "bt_wf m \<Longrightarrow> bt_wf m' \<Longrightarrow> (\<And>k. bt_get m k = bt_get m' k) \<Longrightarrow> m = m'"
  by (rule bt.extensional)

lemma bt_get0_insert [simp]: "bt_get0 (bt_insert k v m) k' = (if k' = k then v else bt_get0 m k')"
  by (simp add: bt_get0_def)

lemma bt_get0_remove [simp]: "bt_get0 (bt_remove k m) k' = (if k' = k then 0 else bt_get0 m k')"
  by (simp add: bt_get0_def)

lemma bt_get0_Nil [simp]: "bt_get0 [] k = 0"
  by (simp add: bt_get0_def)

lemma bt_get_collect [simp]:
  fixes pairs :: "('k::linorder \<times> 'v) list"
  shows "bt_get (bt_collect pairs) k = map_of (rev pairs) k"
proof -
  have "bt_get (fold (\<lambda>(k, v). bt_insert k v) pairs m) k = (map_of m ++ map_of (rev pairs)) k" for m :: "('k, 'v) btree"
  proof (induction pairs arbitrary: m)
    case (Cons p pairs)
    then show ?case by (cases p) (simp add: map_add_def bt_get_def [symmetric] split: option.splits)
  qed (simp add: bt_get_def)
  then show ?thesis by (simp add: bt_collect_def)
qed

lemma bt_wf_collect [simp]:
  fixes pairs :: "('k::linorder \<times> 'v) list"
  shows "bt_wf (bt_collect pairs)"
proof -
  have "bt_wf m \<Longrightarrow> bt_wf (fold (\<lambda>(k, v). bt_insert k v) pairs m)" for m :: "('k, 'v) btree"
    by (induction pairs arbitrary: m) auto
  then show ?thesis by (simp add: bt_collect_def)
qed

text \<open>Collecting the entries of a map, in any order, gives the map.\<close>

lemma bt_collect_eq:
  assumes "bt_wf m" "distinct (map fst pairs)" "set pairs = set m"
  shows "bt_collect pairs = m"
proof (rule bt_eqI)
  fix k
  have "map_of (rev pairs) = map_of m"
    using assms bt_wf_distinct [of m] by (intro map_of_eqI) (auto simp: bt_keys_def rev_map [symmetric] map_of_eq_Some_iff)
  then show "bt_get (bt_collect pairs) k = bt_get m k" unfolding bt_get_collect by (simp add: bt_get_def)
qed (simp_all add: assms)

lemma bt_collect_self [simp]: "bt_wf m \<Longrightarrow> bt_collect m = m"
  by (rule bt_collect_eq) (use bt_wf_distinct [of m] in \<open>simp_all add: bt_keys_def\<close>)

end
