(* ===== verification/Fixed.thy ===== *)
theory Fixed
  imports BTree
begin

text \<open>
  \<open>src/math/fixed.rs\<close>: checked fixed-point multiplication and division with the pool
  contract's rounding. The source computes in 128 bits and widens to 256 only when the
  product overflows; the theorems show that both paths compute the mathematical floor
  and ceiling for every sign, and that the only failures are a zero divisor and a
  quotient outside \<open>i128\<close>. The locale \<open>fixed_point\<close> is the contract the reserve and
  the planners rely on.
\<close>

section \<open>Definitions\<close>

definition SCALAR_7 :: int where
  "SCALAR_7 = 10000000"

definition SCALAR_12 :: int where
  "SCALAR_12 = 1000000000000"

definition SECONDS_PER_YEAR :: int where
  "SECONDS_PER_YEAR = 31536000"

lemmas scalar_defs [width_defs] = SCALAR_7_def SCALAR_12_def SECONDS_PER_YEAR_def

datatype math_error =
    DivisionByZero
  | Overflow
  | InvalidInput string
  | MissingReserve nat
  | MissingPrice string

type_synonym 'a math_result = "(math_error, 'a) result"

datatype rounding = Floor | Ceil

text \<open>Rust's Euclidean division: the remainder is never negative.\<close>

definition div_euclid :: "int \<Rightarrow> int \<Rightarrow> int" where
  "div_euclid r z = (if 0 < z then r div z else - (r div (- z)))"

definition rem_euclid :: "int \<Rightarrow> int \<Rightarrow> int" where
  "rem_euclid r z = r mod \<bar>z\<bar>"

definition checked_div_euclid :: "int \<Rightarrow> int \<Rightarrow> int option" where
  "checked_div_euclid r z = (if z = 0 then None else checked_i128 (div_euclid r z))"

text \<open>
  The 256-bit path. Its operands are a product of two \<open>i128\<close>s and an \<open>i128\<close>, so
  256-bit arithmetic on them is exact and is written on \<^typ>\<open>int\<close>.
\<close>

definition divide_wide :: "int \<Rightarrow> int \<Rightarrow> rounding \<Rightarrow> int math_result" where
  "divide_wide r z rd =
     (let (r, z) = (if z < 0 then (- r, - z) else (r, z));
          quotient = div_euclid r z;
          quotient = (case rd of
              Floor \<Rightarrow> quotient
            | Ceil \<Rightarrow> if rem_euclid r z = 0 then quotient else quotient + 1)
      in ok_or Overflow (checked_i128 quotient))"

definition divide_narrow :: "int \<Rightarrow> int \<Rightarrow> rounding \<Rightarrow> int math_result" where
  "divide_narrow r z rd =
     (if r = i128_min \<or> z = i128_min then divide_wide r z rd
      else
        rbind (if z < 0
               then rbind (ok_or Overflow (checked_neg r)) (\<lambda>r'.
                    rbind (ok_or Overflow (checked_neg z)) (\<lambda>z'. Ok (r', z')))
               else Ok (r, z)) (\<lambda>(r, z).
        rbind (ok_or Overflow (checked_div_euclid r z)) (\<lambda>quotient.
        case rd of
          Floor \<Rightarrow> Ok quotient
        | Ceil \<Rightarrow> if rem_euclid r z = 0 then Ok quotient
                  else ok_or Overflow (checked_add quotient 1))))"

definition mul_div :: "int \<Rightarrow> int \<Rightarrow> int \<Rightarrow> rounding \<Rightarrow> int math_result" where
  "mul_div x y z rd =
     (if z = 0 then Err DivisionByZero
      else case checked_mul x y of
             Some product \<Rightarrow> divide_narrow product z rd
           | None \<Rightarrow> divide_wide (x * y) z rd)"

definition mul_floor :: "int \<Rightarrow> int \<Rightarrow> int \<Rightarrow> int math_result" where
  "mul_floor x y denominator = mul_div x y denominator Floor"

definition mul_ceil :: "int \<Rightarrow> int \<Rightarrow> int \<Rightarrow> int math_result" where
  "mul_ceil x y denominator = mul_div x y denominator Ceil"

definition div_floor :: "int \<Rightarrow> int \<Rightarrow> int \<Rightarrow> int math_result" where
  "div_floor x y denominator = mul_div x denominator y Floor"

definition div_ceil :: "int \<Rightarrow> int \<Rightarrow> int \<Rightarrow> int math_result" where
  "div_ceil x y denominator = mul_div x denominator y Ceil"

text \<open>\<open>10_i128.checked_pow(decimals)\<close>: the power, or an overflow.\<close>

definition pow10 :: "nat \<Rightarrow> int math_result" where
  "pow10 decimals = ok_or Overflow (checked_i128 (10 ^ decimals))"

section \<open>The mathematical ceiling\<close>

definition cdiv :: "int \<Rightarrow> int \<Rightarrow> int" where
  "cdiv a b = - ((- a) div b)"

lemma fdiv_bounds: "0 < d \<Longrightarrow> (a div d) * d \<le> a \<and> a < (a div d + 1) * d" for a d :: int
  using pos_mod_sign [of d a] pos_mod_bound [of d a] div_mult_mod_eq [of a d]
  unfolding distrib_right by linarith

lemma cdiv_bounds: "0 < d \<Longrightarrow> (cdiv a d - 1) * d < a \<and> a \<le> cdiv a d * d"
  using fdiv_bounds [of d "- a"] by (simp add: cdiv_def algebra_simps)

lemma fdiv_unique: "0 < d \<Longrightarrow> q * d \<le> a \<Longrightarrow> a < (q + 1) * d \<Longrightarrow> a div d = q" for a d q :: int
  by (smt (verit, best) fdiv_bounds mult_less_cancel_right_pos)

lemma cdiv_unique: "0 < d \<Longrightarrow> (q - 1) * d < a \<Longrightarrow> a \<le> q * d \<Longrightarrow> cdiv a d = q"
  by (smt (verit, best) cdiv_bounds mult_less_cancel_right_pos)

lemma cdiv_rem: "0 < z \<Longrightarrow> cdiv r z = (if r mod z = 0 then r div z else r div z + 1)"
  by (auto simp: cdiv_def zdiv_zminus1_eq_if)

lemma cdiv_neg_neg: "cdiv (- r) (- z) = cdiv r z"
  by (simp add: cdiv_def div_minus_right)

lemma cdiv_le_iff: "0 < d \<Longrightarrow> cdiv a d \<le> q \<longleftrightarrow> a \<le> q * d"
  by (smt (verit, best) cdiv_bounds mult_less_cancel_right_pos)

lemma le_fdiv_iff: "0 < d \<Longrightarrow> q \<le> a div d \<longleftrightarrow> q * d \<le> a" for a d q :: int
  by (smt (verit, best) fdiv_bounds mult_less_cancel_right_pos)

lemma cdiv_nonneg: "0 \<le> a \<Longrightarrow> 0 < d \<Longrightarrow> 0 \<le> cdiv a d"
  by (simp add: cdiv_def div_nonpos_pos_le0)

lemma fdiv_nonneg: "0 \<le> a \<Longrightarrow> 0 < d \<Longrightarrow> 0 \<le> a div d" for a d :: int
  by (simp add: pos_imp_zdiv_nonneg_iff)

section \<open>Both paths compute the rounded quotient\<close>

definition round_div :: "rounding \<Rightarrow> int \<Rightarrow> int \<Rightarrow> int" where
  "round_div rd r z = (case rd of Floor \<Rightarrow> r div z | Ceil \<Rightarrow> cdiv r z)"

lemma euclid_pos: "0 < z \<Longrightarrow> div_euclid r z = r div z" "0 < z \<Longrightarrow> rem_euclid r z = r mod z"
  by (simp_all add: div_euclid_def rem_euclid_def)

lemma divide_wide_eq:
  "z \<noteq> 0 \<Longrightarrow> divide_wide r z rd = ok_or Overflow (checked_i128 (round_div rd r z))"
  using cdiv_rem [of z r] cdiv_rem [of "- z" "- r"]
  by (auto simp: divide_wide_def round_div_def euclid_pos cdiv_neg_neg split: rounding.split)

lemma fdiv_abs_le: "0 < z \<Longrightarrow> in_i128 r \<Longrightarrow> in_i128 (r div z)"
proof -
  assume z: "0 < z" and r: "in_i128 r"
  have "r div z \<le> max r 0" using z
    by (smt (verit) div_by_1 div_nonpos_pos_le0 int_div_less_self zdiv_mono2)
  moreover have "min r (-1) \<le> r div z" using z
    by (smt (verit, best) fdiv_bounds mult_le_cancel_left1 mult_minus_left zero_le_mult_iff)
  ultimately show ?thesis using r by (auto simp: i128_defs)
qed

lemma divide_narrow_pos:
  assumes "0 < z" and "in_i128 r"
  shows "divide_narrow r z rd = ok_or Overflow (checked_i128 (round_div rd r z))"
proof (cases "r = i128_min \<or> z = i128_min")
  case True
  then show ?thesis using assms by (simp add: divide_narrow_def divide_wide_eq)
next
  case False
  then show ?thesis using assms fdiv_abs_le [OF assms] cdiv_rem [of z r]
    by (auto simp: divide_narrow_def checked_div_euclid_def euclid_pos round_div_def checked_add_def
        checked_i128_def split: rounding.split)
qed

lemma divide_narrow_eq:
  assumes "z \<noteq> 0" and "in_i128 r" and "in_i128 z"
  shows "divide_narrow r z rd = ok_or Overflow (checked_i128 (round_div rd r z))"
proof (cases "r = i128_min \<or> z = i128_min")
  case True
  then show ?thesis using assms by (simp add: divide_narrow_def divide_wide_eq)
next
  case False
  note not_min = False
  show ?thesis
  proof (cases "0 < z")
    case True
    then show ?thesis using assms(2) by (rule divide_narrow_pos)
  next
    case False
    then have neg: "z < 0" "in_i128 (- r)" "in_i128 (- z)" "- r \<noteq> i128_min" "- z \<noteq> i128_min"
      using assms not_min by (auto simp: i128_defs)
    have "divide_narrow r z rd = divide_narrow (- r) (- z) rd"
      using neg not_min assms by (simp add: divide_narrow_def checked_neg_def checked_i128_def)
    also have "\<dots> = ok_or Overflow (checked_i128 (round_div rd (- r) (- z)))"
      using neg by (intro divide_narrow_pos) auto
    also have "round_div rd (- r) (- z) = round_div rd r z"
      by (simp add: round_div_def cdiv_neg_neg split: rounding.split)
    finally show ?thesis .
  qed
qed

lemma mul_div_eq:
  "in_i128 z \<Longrightarrow> mul_div x y z rd =
     (if z = 0 then Err DivisionByZero
      else ok_or Overflow (checked_i128 (round_div rd (x * y) z)))"
  by (auto simp: mul_div_def checked_mul_def checked_i128_def divide_narrow_eq divide_wide_eq
      simp del: checked_i128_eq_None)

lemma mul_div_pos:
  "0 < z \<Longrightarrow> mul_div x y z rd = ok_or Overflow (checked_i128 (round_div rd (x * y) z))"
  by (auto simp: mul_div_def checked_mul_def checked_i128_def divide_narrow_pos divide_wide_eq
      simp del: checked_i128_eq_None)

lemma fixed_Ok_iff:
  "0 < d \<Longrightarrow> mul_floor x y d = Ok q \<longleftrightarrow> in_i128 q \<and> q = x * y div d"
  "0 < d \<Longrightarrow> mul_ceil x y d = Ok q \<longleftrightarrow> in_i128 q \<and> q = cdiv (x * y) d"
  "0 < y \<Longrightarrow> div_floor x y d = Ok q \<longleftrightarrow> in_i128 q \<and> q = x * d div y"
  "0 < y \<Longrightarrow> div_ceil x y d = Ok q \<longleftrightarrow> in_i128 q \<and> q = cdiv (x * d) y"
  by (auto simp: mul_floor_def mul_ceil_def div_floor_def div_ceil_def mul_div_pos round_div_def)

lemma fixed_evals [eval_simps]:
  "0 < d \<Longrightarrow> mul_floor x y d = ok_or Overflow (checked_i128 (x * y div d))"
  "0 < d \<Longrightarrow> mul_ceil x y d = ok_or Overflow (checked_i128 (- ((- (x * y)) div d)))"
  "0 < y \<Longrightarrow> div_floor x y d = ok_or Overflow (checked_i128 (x * d div y))"
  "0 < y \<Longrightarrow> div_ceil x y d = ok_or Overflow (checked_i128 (- ((- (x * d)) div y)))"
  by (simp_all add: mul_floor_def mul_ceil_def div_floor_def div_ceil_def mul_div_pos round_div_def
      cdiv_def)

lemmas scalar_evals [eval_simps] = scalar_defs pow10_def

lemma div_flips: "div_floor x y d = mul_floor x d y" "div_ceil x y d = mul_ceil x d y"
  by (simp_all add: mul_floor_def mul_ceil_def div_floor_def div_ceil_def)

lemma mul_floor_mono2:
  "mul_floor x y d = Ok q \<Longrightarrow> mul_floor x' y' d = Ok q' \<Longrightarrow> x * y \<le> x' * y' \<Longrightarrow> 0 < d \<Longrightarrow> q \<le> q'"
  by (simp add: fixed_Ok_iff zdiv_mono1)

lemma SCALARS_pos [simp]: "0 < SCALAR_7" "0 < SCALAR_12" "0 < SECONDS_PER_YEAR"
  by (simp_all add: scalar_defs)

lemma SCALARS_nonneg [simp]: "0 \<le> SCALAR_7" "0 \<le> SCALAR_12" "0 \<le> SECONDS_PER_YEAR"
  by (simp_all add: scalar_defs)

lemma pow10_Ok_iff: "pow10 n = Ok s \<longleftrightarrow> s = 10 ^ n \<and> in_i128 (10 ^ n)"
  by (auto simp: pow10_def)

lemma pow10_pos: "pow10 n = Ok s \<Longrightarrow> 0 < s"
  by (simp add: pow10_Ok_iff)

section \<open>The contract the callers rely on\<close>

text \<open>
  A pair of roundings of \<open>x * y / d\<close>. Every conversion of the reserve is one of the two,
  and what keeps the planners safe are the round trips below: token amounts that go to
  underlying and back never come out on the wrong side.
\<close>

locale fixed_point =
  fixes down up :: "int \<Rightarrow> int \<Rightarrow> int \<Rightarrow> ('e, int) result"
  assumes down_law: "0 < d \<Longrightarrow> down x y d = Ok q \<Longrightarrow> q * d \<le> x * y \<and> x * y < (q + 1) * d"
    and up_law: "0 < d \<Longrightarrow> up x y d = Ok q \<Longrightarrow> (q - 1) * d < x * y \<and> x * y \<le> q * d"
begin

lemma down_le_up:
  assumes "0 < d" "down x y d = Ok a" "up x y d = Ok b"
  shows "a \<le> b"
proof -
  have "a * d \<le> b * d" using down_law [OF assms(1,2)] up_law [OF assms(1,3)] by linarith
  with assms(1) show ?thesis by simp
qed

lemma down_mono:
  assumes "0 < d" "0 \<le> y" "x \<le> x'" "down x y d = Ok a" "down x' y d = Ok b"
  shows "a \<le> b"
proof -
  have "x * y \<le> x' * y" using assms(2,3) by (rule mult_right_mono [rotated])
  then have "a * d < (b + 1) * d"
    using down_law [OF assms(1,4)] down_law [OF assms(1,5)] by linarith
  with assms(1) show ?thesis by simp
qed

lemma up_mono:
  assumes "0 < d" "0 \<le> y" "x \<le> x'" "up x y d = Ok a" "up x' y d = Ok b"
  shows "a \<le> b"
proof -
  have "x * y \<le> x' * y" using assms(2,3) by (rule mult_right_mono [rotated])
  then have "(a - 1) * d < b * d"
    using up_law [OF assms(1,4)] up_law [OF assms(1,5)] by linarith
  with assms(1) show ?thesis by simp
qed

lemma down_nonneg:
  assumes "0 < d" "0 \<le> x" "0 \<le> y" "down x y d = Ok a"
  shows "0 \<le> a"
proof -
  have "0 \<le> x * y" using assms(2,3) by simp
  then have "0 * d < (a + 1) * d" using down_law [OF assms(1,4)] by linarith
  with assms(1) have "0 < a + 1" using mult_less_cancel_right_pos by blast
  then show ?thesis by simp
qed

lemma up_nonneg:
  assumes "0 < d" "0 \<le> x" "0 \<le> y" "up x y d = Ok a"
  shows "0 \<le> a"
proof -
  have "0 \<le> x * y" using assms(2,3) by simp
  then have "0 \<le> a * d" using up_law [OF assms(1,4)] by linarith
  with assms(1) show ?thesis by (simp add: zero_le_mult_iff)
qed

text \<open>Tokens to underlying rounded down, then back: never more tokens, whichever way back.\<close>

lemma down_then_up_le:
  assumes "0 < s" "0 < r" "down t r s = Ok v" "up v s r = Ok t'"
  shows "t' \<le> t"
proof -
  have "(t' - 1) * r < t * r"
    using down_law [OF assms(1,3)] up_law [OF assms(2,4)] by linarith
  with assms(2) show ?thesis by simp
qed

lemma down_then_down_le:
  assumes "0 < s" "0 < r" "down t r s = Ok v" "down v s r = Ok t'"
  shows "t' \<le> t"
proof -
  have "t' * r \<le> t * r"
    using down_law [OF assms(1,3)] down_law [OF assms(2,4)] by linarith
  with assms(2) show ?thesis by simp
qed

text \<open>Tokens to underlying rounded up, then back down: never fewer tokens.\<close>

lemma up_then_down_ge:
  assumes "0 < s" "0 < r" "up t r s = Ok v" "down v s r = Ok t'"
  shows "t \<le> t'"
proof -
  have "t * r < (t' + 1) * r"
    using up_law [OF assms(1,3)] down_law [OF assms(2,4)] by linarith
  with assms(2) show ?thesis by simp
qed

end

interpretation fp: fixed_point mul_floor mul_ceil
  by unfold_locales (simp_all add: fixed_Ok_iff fdiv_bounds cdiv_bounds)

section \<open>Properties\<close>

text \<open>
  C1. Every helper computes the exact mathematical floor or ceiling of \<open>x * y / z\<close>: for
  any operands and any \<open>i128\<close> divisor of either sign, whichever of the 128-bit and
  256-bit paths runs, the answer is \<open>DivisionByZero\<close> exactly for a zero divisor,
  \<open>Overflow\<close> exactly when the rounded quotient is outside \<open>i128\<close>, and the rounded
  quotient otherwise.
\<close>

theorem fixed_helpers_exact:
  assumes "in_i128 z"
  shows "mul_floor x y z = (if z = 0 then Err DivisionByZero
           else if in_i128 (x * y div z) then Ok (x * y div z) else Err Overflow)
    \<and> mul_ceil x y z = (if z = 0 then Err DivisionByZero
           else if in_i128 (cdiv (x * y) z) then Ok (cdiv (x * y) z) else Err Overflow)
    \<and> div_floor x z y = mul_floor x y z \<and> div_ceil x z y = mul_ceil x y z"
  using assms
  by (simp add: mul_floor_def mul_ceil_def div_floor_def div_ceil_def mul_div_eq round_div_def
      checked_i128_def)

theorem fixed_helpers_exact_witness:
  "mul_floor (2 ^ 100) (- (2 ^ 100)) (- (2 ^ 80)) = Ok (2 ^ 120)
   \<and> mul_ceil (- 7) 1 2 = Ok (- 3) \<and> div_floor 7 0 1 = Err DivisionByZero
   \<and> div_ceil (2 ^ 100) 1 (2 ^ 100) = Err Overflow"
proof -
  have "in_i128 (- (2 ^ 80))" "in_i128 2" "in_i128 0" "in_i128 1" by (simp_all add: i128_defs)
  note at = this [THEN fixed_helpers_exact]
  from at(1) [of "2 ^ 100" "- (2 ^ 100)"] at(2) [of "- 7" 1] at(3) [of 7 1]
    at(4) [of "2 ^ 100" "2 ^ 100"]
  show ?thesis by (simp add: i128_defs cdiv_def)
qed

end
