(* ===== verification/Reserve.thy ===== *)
theory Reserve
  imports Fixed
begin

text \<open>
  \<open>src/math/reserve.rs\<close>: a reserve's configuration and data, the conversions between
  b-tokens, d-tokens and underlying, and the interest accrual the contract performs on
  every load. \<open>accrue\<close> takes the reserve and returns it updated; where the source leaves
  with \<open>?\<close> its callers discard the reserve, so an error carries none.
\<close>

section \<open>Definitions\<close>

record reserve_config =
  rc_index :: nat
  rc_decimals :: nat
  rc_c_factor :: nat
  rc_l_factor :: nat
  rc_util :: nat
  rc_max_util :: nat
  rc_r_base :: nat
  rc_r_one :: nat
  rc_r_two :: nat
  rc_r_three :: nat
  rc_reactivity :: nat
  rc_supply_cap :: int
  rc_enabled :: bool

record reserve_data =
  rd_d_rate :: int
  rd_b_rate :: int
  rd_ir_mod :: int
  rd_b_supply :: int
  rd_d_supply :: int
  rd_backstop_credit :: int
  rd_last_time :: nat

record reserve =
  rs_asset :: string
  rs_config :: reserve_config
  rs_data :: reserve_data
  rs_scalar :: int

definition UTIL_95 :: int where
  "UTIL_95 = 9500000"

definition UTIL_5 :: int where
  "UTIL_5 = 500000"

definition IR_MOD_MAX :: int where
  "IR_MOD_MAX = 10 * SCALAR_7"

definition IR_MOD_MIN :: int where
  "IR_MOD_MIN = tdiv SCALAR_7 10"

text \<open>\<open>Reserve::new\<close>.\<close>

definition reserve_new :: "string \<Rightarrow> reserve_config \<Rightarrow> reserve_data \<Rightarrow> reserve math_result" where
  "reserve_new asset config data =
     rbind (pow10 (rc_decimals config)) (\<lambda>scalar.
     Ok \<lparr>rs_asset = asset, rs_config = config, rs_data = data, rs_scalar = scalar\<rparr>)"

definition to_asset_from_d_token :: "reserve \<Rightarrow> int \<Rightarrow> int math_result" where
  "to_asset_from_d_token self d_tokens = mul_ceil d_tokens (rd_d_rate (rs_data self)) SCALAR_12"

definition to_asset_from_b_token :: "reserve \<Rightarrow> int \<Rightarrow> int math_result" where
  "to_asset_from_b_token self b_tokens = mul_floor b_tokens (rd_b_rate (rs_data self)) SCALAR_12"

definition total_liabilities :: "reserve \<Rightarrow> int math_result" where
  "total_liabilities self = to_asset_from_d_token self (rd_d_supply (rs_data self))"

definition total_supply :: "reserve \<Rightarrow> int math_result" where
  "total_supply self = to_asset_from_b_token self (rd_b_supply (rs_data self))"

definition utilization :: "reserve \<Rightarrow> int math_result" where
  "utilization self =
     rbind (total_liabilities self) (\<lambda>liabilities.
     rbind (total_supply self) (\<lambda>supply.
     if liabilities = 0 then Ok 0
     else if supply \<le> liabilities then Ok SCALAR_7
     else div_ceil liabilities supply SCALAR_7))"

definition to_effective_asset_from_d_token :: "reserve \<Rightarrow> int \<Rightarrow> int math_result" where
  "to_effective_asset_from_d_token self d_tokens =
     rbind (to_asset_from_d_token self d_tokens) (\<lambda>assets.
     div_ceil assets (int (rc_l_factor (rs_config self))) SCALAR_7)"

definition to_effective_asset_from_b_token :: "reserve \<Rightarrow> int \<Rightarrow> int math_result" where
  "to_effective_asset_from_b_token self b_tokens =
     rbind (to_asset_from_b_token self b_tokens) (\<lambda>assets.
     mul_floor assets (int (rc_c_factor (rs_config self))) SCALAR_7)"

definition to_d_token_up :: "reserve \<Rightarrow> int \<Rightarrow> int math_result" where
  "to_d_token_up self amount = div_ceil amount (rd_d_rate (rs_data self)) SCALAR_12"

definition to_d_token_down :: "reserve \<Rightarrow> int \<Rightarrow> int math_result" where
  "to_d_token_down self amount = div_floor amount (rd_d_rate (rs_data self)) SCALAR_12"

definition to_b_token_up :: "reserve \<Rightarrow> int \<Rightarrow> int math_result" where
  "to_b_token_up self amount = div_ceil amount (rd_b_rate (rs_data self)) SCALAR_12"

definition to_b_token_down :: "reserve \<Rightarrow> int \<Rightarrow> int math_result" where
  "to_b_token_down self amount = div_floor amount (rd_b_rate (rs_data self)) SCALAR_12"

text \<open>The rate at the current utilisation, the first half of \<open>calc_accrual\<close>.\<close>

definition calc_cur_ir :: "reserve_config \<Rightarrow> int \<Rightarrow> int \<Rightarrow> int math_result" where
  "calc_cur_ir config cur_util ir_mod =
     (let target_util = int (rc_util config) in
      if cur_util \<le> target_util then
        rbind (div_ceil cur_util target_util SCALAR_7) (\<lambda>util_scalar.
        rbind (mul_ceil util_scalar (int (rc_r_one config)) SCALAR_7) (\<lambda>r.
        rbind (ok_or Overflow (checked_add r (int (rc_r_base config)))) (\<lambda>base_rate.
        mul_ceil base_rate ir_mod SCALAR_7)))
      else if cur_util \<le> UTIL_95 then
        rbind (ok_or Overflow (checked_sub cur_util target_util)) (\<lambda>util_dif.
        rbind (ok_or Overflow (checked_sub UTIL_95 target_util)) (\<lambda>util_range.
        rbind (div_ceil util_dif util_range SCALAR_7) (\<lambda>util_scalar.
        rbind (mul_ceil util_scalar (int (rc_r_two config)) SCALAR_7) (\<lambda>r.
        rbind (ok_or Overflow (Option.bind (checked_add r (int (rc_r_one config)))
                (\<lambda>sum. checked_add sum (int (rc_r_base config))))) (\<lambda>base_rate.
        mul_ceil base_rate ir_mod SCALAR_7)))))
      else
        rbind (ok_or Overflow (checked_sub cur_util UTIL_95)) (\<lambda>util_dif.
        rbind (div_ceil util_dif UTIL_5 SCALAR_7) (\<lambda>util_scalar.
        rbind (mul_ceil util_scalar (int (rc_r_three config)) SCALAR_7) (\<lambda>extra_rate.
        rbind (ok_or Overflow (Option.bind (checked_add (int (rc_r_two config)) (int (rc_r_one config)))
                (\<lambda>sum. checked_add sum (int (rc_r_base config))))) (\<lambda>rate_sum.
        rbind (mul_ceil ir_mod rate_sum SCALAR_7) (\<lambda>intersection.
        ok_or Overflow (checked_add extra_rate intersection)))))))"

text \<open>The next interest-rate modifier, from \<open>let util_dif\<close> to the clamp.\<close>

definition calc_new_ir_mod :: "reserve_config \<Rightarrow> int \<Rightarrow> int \<Rightarrow> int \<Rightarrow> int math_result" where
  "calc_new_ir_mod config cur_util ir_mod delta_time =
     rbind (ok_or Overflow (checked_sub cur_util (int (rc_util config)))) (\<lambda>util_dif.
     rbind (ok_or Overflow (checked_mul delta_time util_dif)) (\<lambda>util_error.
     if 0 \<le> util_dif then
       rbind (mul_floor util_error (int (rc_reactivity config)) SCALAR_7) (\<lambda>rate_dif.
       rbind (ok_or Overflow (checked_add ir_mod rate_dif)) (\<lambda>m. Ok (min m IR_MOD_MAX)))
     else
       rbind (mul_ceil util_error (int (rc_reactivity config)) SCALAR_7) (\<lambda>rate_dif.
       rbind (ok_or Overflow (checked_add ir_mod rate_dif)) (\<lambda>m. Ok (max m IR_MOD_MIN)))))"

definition calc_accrual ::
  "reserve_config \<Rightarrow> int \<Rightarrow> int \<Rightarrow> nat \<Rightarrow> nat \<Rightarrow> (int \<times> int) math_result" where
  "calc_accrual config cur_util ir_mod last_time now =
     rbind (calc_cur_ir config cur_util ir_mod) (\<lambda>cur_ir.
     rbind (ok_or (InvalidInput ''now is before last_time'') (checked_sub_unsigned now last_time)) (\<lambda>dt.
     let delta_time = int dt in
     if delta_time < 1 then Err (InvalidInput ''no time elapsed'')
     else
       rbind (calc_new_ir_mod config cur_util ir_mod delta_time) (\<lambda>new_ir_mod.
       rbind (ok_or Overflow (checked_mul delta_time SCALAR_12)) (\<lambda>weighted.
       let time_weight = tdiv weighted SECONDS_PER_YEAR in
       rbind (mul_ceil time_weight cur_ir SCALAR_7) (\<lambda>a.
       rbind (ok_or Overflow (checked_add SCALAR_12 a)) (\<lambda>accrual.
       Ok (accrual, new_ir_mod)))))))"

text \<open>The backstop's take and the new \<open>b_rate\<close>: the \<open>if accrued > 0\<close> block of \<open>accrue\<close>.\<close>

definition accrue_supply :: "reserve_data \<Rightarrow> nat \<Rightarrow> int \<Rightarrow> int \<Rightarrow> reserve_data math_result" where
  "accrue_supply data bstop_rate pre_update_supply accrued =
     (if 0 < accrued then
        rbind (if 0 < bstop_rate then
                 rbind (mul_floor accrued (int bstop_rate) SCALAR_7) (\<lambda>new_backstop_credit.
                 rbind (ok_or Overflow (checked_add (rd_backstop_credit data) new_backstop_credit)) (\<lambda>c.
                 Ok (new_backstop_credit, data\<lparr>rd_backstop_credit := c\<rparr>)))
               else Ok (0, data)) (\<lambda>(new_backstop_credit, data).
        rbind (ok_or Overflow (Option.bind (checked_add pre_update_supply accrued)
                (\<lambda>s. checked_sub s new_backstop_credit))) (\<lambda>supply_after.
        rbind (div_floor supply_after (rd_b_supply data) SCALAR_12) (\<lambda>b.
        Ok (data\<lparr>rd_b_rate := b\<rparr>))))
      else Ok data)"

definition set_data :: "reserve \<Rightarrow> reserve_data \<Rightarrow> reserve" where
  "set_data r d = r\<lparr>rs_data := d\<rparr>"

definition accrue :: "reserve \<Rightarrow> nat \<Rightarrow> nat \<Rightarrow> reserve math_result" where
  "accrue self bstop_rate now =
     (let data = rs_data self in
      if now = rd_last_time data then Ok self
      else if now < rd_last_time data then Err (InvalidInput ''now is before last_time'')
      else if rd_b_supply data = 0 then Ok (set_data self (data\<lparr>rd_last_time := now\<rparr>))
      else
        rbind (utilization self) (\<lambda>cur_util.
        if cur_util = 0 then Ok (set_data self (data\<lparr>rd_last_time := now\<rparr>))
        else
          rbind (calc_accrual (rs_config self) cur_util (rd_ir_mod data) (rd_last_time data) now)
            (\<lambda>(loan_accrual, new_ir_mod).
          let data = data\<lparr>rd_ir_mod := new_ir_mod\<rparr> in
          rbind (total_supply (set_data self data)) (\<lambda>pre_update_supply.
          rbind (total_liabilities (set_data self data)) (\<lambda>pre_update_liabilities.
          rbind (mul_ceil loan_accrual (rd_d_rate data) SCALAR_12) (\<lambda>d.
          let data = data\<lparr>rd_d_rate := d\<rparr> in
          rbind (total_liabilities (set_data self data)) (\<lambda>liabilities.
          rbind (ok_or Overflow (checked_sub liabilities pre_update_liabilities)) (\<lambda>accrued.
          rbind (accrue_supply data bstop_rate pre_update_supply accrued) (\<lambda>data.
          Ok (set_data self (data\<lparr>rd_last_time := now\<rparr>)))))))))))"

lemmas reserve_evals [eval_simps] = reserve_new_def to_asset_from_d_token_def
  to_asset_from_b_token_def total_liabilities_def total_supply_def utilization_def
  to_effective_asset_from_d_token_def to_effective_asset_from_b_token_def to_d_token_up_def
  to_d_token_down_def to_b_token_up_def to_b_token_down_def set_data_def
  UTIL_95_def UTIL_5_def IR_MOD_MAX_def IR_MOD_MIN_def

lemmas accrual_evals = accrue_def accrue_supply_def calc_accrual_def calc_cur_ir_def
  calc_new_ir_mod_def Let_def

section \<open>The reserve invariant\<close>

definition ir_mod_ok :: "int \<Rightarrow> bool" where
  "ir_mod_ok m \<longleftrightarrow> IR_MOD_MIN \<le> m \<and> m \<le> IR_MOD_MAX"

text \<open>What the contract keeps of a reserve entry; a haircut may take \<open>b_rate\<close> to zero.\<close>

definition reserve_ok :: "reserve \<Rightarrow> bool" where
  "reserve_ok r \<longleftrightarrow>
     0 < rd_d_rate (rs_data r) \<and> 0 \<le> rd_b_rate (rs_data r)
     \<and> 0 \<le> rd_b_supply (rs_data r) \<and> 0 \<le> rd_d_supply (rs_data r)
     \<and> 0 \<le> rd_backstop_credit (rs_data r) \<and> ir_mod_ok (rd_ir_mod (rs_data r))
     \<and> rs_scalar r = 10 ^ rc_decimals (rs_config r)"

lemmas ir_defs = IR_MOD_MAX_def IR_MOD_MIN_def UTIL_95_def UTIL_5_def

lemma IR_MOD_MIN_eq: "IR_MOD_MIN = 1000000"
  by (simp add: IR_MOD_MIN_def SCALAR_7_def tdiv_def)

lemma set_data_simps [simp]:
  "rs_data (set_data r d) = d" "rs_config (set_data r d) = rs_config r"
  "rs_asset (set_data r d) = rs_asset r" "rs_scalar (set_data r d) = rs_scalar r"
  by (simp_all add: set_data_def)

lemma reserve_ok_scalar_pos: "reserve_ok r \<Longrightarrow> 0 < rs_scalar r"
  by (simp add: reserve_ok_def)

section \<open>Conversions\<close>

lemmas conversion_defs = to_asset_from_d_token_def to_asset_from_b_token_def
  to_d_token_up_def to_d_token_down_def to_b_token_up_def to_b_token_down_def

lemma to_asset_nonneg:
  "to_asset_from_b_token r t = Ok v \<Longrightarrow> 0 \<le> t \<Longrightarrow> 0 \<le> rd_b_rate (rs_data r) \<Longrightarrow> 0 \<le> v"
  "to_asset_from_d_token r t = Ok v \<Longrightarrow> 0 \<le> t \<Longrightarrow> 0 \<le> rd_d_rate (rs_data r) \<Longrightarrow> 0 \<le> v"
  by (auto simp: conversion_defs intro: fp.down_nonneg fp.up_nonneg SCALARS_pos)

lemma to_asset_b_mono:
  "to_asset_from_b_token r t = Ok v \<Longrightarrow> to_asset_from_b_token r t' = Ok v' \<Longrightarrow> t \<le> t'
   \<Longrightarrow> 0 \<le> rd_b_rate (rs_data r) \<Longrightarrow> v \<le> v'"
  unfolding conversion_defs by (rule fp.down_mono) simp_all

lemma to_asset_d_mono:
  "to_asset_from_d_token r t = Ok v \<Longrightarrow> to_asset_from_d_token r t' = Ok v' \<Longrightarrow> t \<le> t'
   \<Longrightarrow> 0 \<le> rd_d_rate (rs_data r) \<Longrightarrow> v \<le> v'"
  unfolding conversion_defs by (rule fp.up_mono) simp_all

lemma b_token_roundtrip:
  assumes "0 < rd_b_rate (rs_data r)"
  shows "to_asset_from_b_token r b = Ok a \<Longrightarrow> to_b_token_up r a = Ok b' \<Longrightarrow> b' \<le> b"
    and "to_b_token_up r a = Ok b \<Longrightarrow> to_asset_from_b_token r b = Ok a' \<Longrightarrow> a \<le> a'"
    and "to_b_token_down r a = Ok b \<Longrightarrow> to_asset_from_b_token r b = Ok a' \<Longrightarrow> a' \<le> a"
  unfolding conversion_defs div_flips
  using assms SCALARS_pos(2)
  by (blast intro: fp.down_then_up_le fp.up_then_down_ge fp.down_then_down_le)+

lemma d_token_roundtrip:
  assumes "0 < rd_d_rate (rs_data r)"
  shows "to_asset_from_d_token r d = Ok a \<Longrightarrow> to_d_token_down r a = Ok d' \<Longrightarrow> d \<le> d'"
  unfolding conversion_defs div_flips
  using assms SCALARS_pos(2) by (blast intro: fp.up_then_down_ge)

section \<open>Accrual\<close>

lemma mul_ceil_nonneg: "mul_ceil x y d = Ok q \<Longrightarrow> 0 \<le> x \<Longrightarrow> 0 \<le> y \<Longrightarrow> 0 < d \<Longrightarrow> 0 \<le> q"
  by (rule fp.up_nonneg)

lemma mul_floor_nonneg: "mul_floor x y d = Ok q \<Longrightarrow> 0 \<le> x \<Longrightarrow> 0 \<le> y \<Longrightarrow> 0 < d \<Longrightarrow> 0 \<le> q"
  by (rule fp.down_nonneg)

lemma utilization_range:
  assumes "utilization r = Ok u" and "reserve_ok r"
  shows "0 \<le> u \<and> u \<le> SCALAR_7"
proof -
  from assms(1) obtain l s where ls: "total_liabilities r = Ok l" "total_supply r = Ok s"
    and u: "(if l = 0 then Ok 0 else if s \<le> l then Ok SCALAR_7 else div_ceil l s SCALAR_7) = Ok u"
    by (auto simp: utilization_def)
  have l: "0 \<le> l"
    using ls(1) assms(2) by (auto simp: total_liabilities_def reserve_ok_def intro: to_asset_nonneg(2))
  consider "l = 0" | "s \<le> l" | "0 < l" "l < s" using l by linarith
  then show ?thesis
  proof cases
    case 3
    with u have "in_i128 u" and q: "u = cdiv (l * SCALAR_7) s" by (auto simp: fixed_Ok_iff)
    have "l * SCALAR_7 \<le> SCALAR_7 * s" using 3 by simp
    with 3 have "u \<le> SCALAR_7" by (simp add: q cdiv_le_iff)
    moreover have "0 \<le> cdiv (l * SCALAR_7) s" using 3 by (intro cdiv_nonneg) simp_all
    ultimately show ?thesis by (simp add: q)
  qed (use u in \<open>auto simp: scalar_defs split: if_splits\<close>)
qed

lemma calc_cur_ir_nonneg:
  assumes "calc_cur_ir c u m = Ok ir" and "0 < u" and "0 \<le> m"
  shows "0 \<le> ir"
proof -
  consider (low) "u \<le> int (rc_util c)" | (mid) "int (rc_util c) < u" "u \<le> UTIL_95"
    | (high) "int (rc_util c) < u" "UTIL_95 < u" by linarith
  then show ?thesis
  proof cases
    case low
    with assms(1) obtain us r where 1: "mul_ceil u SCALAR_7 (int (rc_util c)) = Ok us"
      and 2: "mul_ceil us (int (rc_r_one c)) SCALAR_7 = Ok r"
      and 3: "mul_ceil (r + int (rc_r_base c)) m SCALAR_7 = Ok ir"
      by (auto simp: calc_cur_ir_def Let_def div_flips)
    from 1 low assms(2) have "0 \<le> us" by (auto intro: mul_ceil_nonneg)
    with 2 have "0 \<le> r" by (auto intro: mul_ceil_nonneg)
    with 3 assms(3) show ?thesis by (auto intro: mul_ceil_nonneg)
  next
    case mid
    with assms(1) obtain us r where
        1: "mul_ceil (u - int (rc_util c)) SCALAR_7 (UTIL_95 - int (rc_util c)) = Ok us"
      and 2: "mul_ceil us (int (rc_r_two c)) SCALAR_7 = Ok r"
      and 3: "mul_ceil (r + int (rc_r_one c) + int (rc_r_base c)) m SCALAR_7 = Ok ir"
      by (auto simp: calc_cur_ir_def Let_def div_flips bind_eq_Some_conv)
    from 1 mid have "0 \<le> us" by (auto intro: mul_ceil_nonneg)
    with 2 have "0 \<le> r" by (auto intro: mul_ceil_nonneg)
    with 3 assms(3) show ?thesis by (auto intro: mul_ceil_nonneg)
  next
    case high
    with assms(1) obtain us x i where
        1: "mul_ceil (u - UTIL_95) SCALAR_7 UTIL_5 = Ok us"
      and 2: "mul_ceil us (int (rc_r_three c)) SCALAR_7 = Ok x"
      and 3: "mul_ceil m (int (rc_r_two c) + int (rc_r_one c) + int (rc_r_base c)) SCALAR_7 = Ok i"
      and ir: "ir = x + i"
      by (auto simp: calc_cur_ir_def Let_def div_flips bind_eq_Some_conv)
    from 1 high have "0 \<le> us" by (auto simp: UTIL_5_def intro: mul_ceil_nonneg)
    with 2 have "0 \<le> x" by (auto intro: mul_ceil_nonneg)
    moreover from 3 assms(3) have "0 \<le> i" by (auto intro: mul_ceil_nonneg)
    ultimately show ?thesis by (simp add: ir)
  qed
qed

lemma calc_new_ir_mod_ok:
  assumes "calc_new_ir_mod c u m dt = Ok m'" and "ir_mod_ok m" and "0 < dt"
  shows "ir_mod_ok m'"
proof (cases "0 \<le> u - int (rc_util c)")
  case True
  then obtain q where "mul_floor (dt * (u - int (rc_util c))) (int (rc_reactivity c)) SCALAR_7 = Ok q"
    and m': "m' = min (m + q) IR_MOD_MAX"
    using assms(1) by (auto simp: calc_new_ir_mod_def split: if_splits)
  moreover from this True assms(3) have "0 \<le> q" by (auto intro: mul_floor_nonneg)
  ultimately show ?thesis using assms(2)
    by (simp add: ir_mod_ok_def IR_MOD_MIN_eq IR_MOD_MAX_def SCALAR_7_def)
next
  case False
  then obtain q where q: "mul_ceil (dt * (u - int (rc_util c))) (int (rc_reactivity c)) SCALAR_7 = Ok q"
    and m': "m' = max (m + q) IR_MOD_MIN"
    using assms(1) by (auto simp: calc_new_ir_mod_def split: if_splits)
  have "dt * (u - int (rc_util c)) * int (rc_reactivity c) \<le> 0"
    using False assms(3) by (simp add: mult_nonneg_nonpos mult_nonpos_nonneg)
  with q have "q \<le> 0" by (simp add: fixed_Ok_iff cdiv_le_iff)
  with m' show ?thesis using assms(2)
    by (simp add: ir_mod_ok_def IR_MOD_MIN_eq IR_MOD_MAX_def SCALAR_7_def)
qed

lemma calc_accrual_ok:
  assumes "calc_accrual c u m last_time now = Ok (a, m')" and "0 < u" and "ir_mod_ok m"
  shows "SCALAR_12 \<le> a \<and> ir_mod_ok m'"
proof -
  have m: "0 \<le> m" using assms(3) by (simp add: ir_mod_ok_def IR_MOD_MIN_eq)
  define dt where "dt = int now - int last_time"
  from assms(1) obtain ir q where ir: "calc_cur_ir c u m = Ok ir"
    and dt: "1 \<le> dt" and m': "calc_new_ir_mod c u m dt = Ok m'"
    and q: "mul_ceil (tdiv (dt * SCALAR_12) SECONDS_PER_YEAR) ir SCALAR_7 = Ok q"
    and a: "a = SCALAR_12 + q"
    by (auto simp: calc_accrual_def Let_def dt_def of_nat_diff split: if_splits)
  have "0 \<le> dt * SCALAR_12" using dt by simp
  then have "0 \<le> tdiv (dt * SCALAR_12) SECONDS_PER_YEAR" by (simp add: tdiv_nonneg fdiv_nonneg)
  with q have "0 \<le> q" using calc_cur_ir_nonneg [OF ir assms(2) m] by (auto intro: mul_ceil_nonneg)
  then show ?thesis using a calc_new_ir_mod_ok [OF m' assms(3)] dt by simp
qed

text \<open>A share of the accrued interest under one whole leaves the suppliers at least one unit.\<close>

lemma accrue_supply_ok:
  assumes "accrue_supply data bstop pre acc = Ok data'"
    and "0 \<le> acc" and "int bstop < SCALAR_7" and "0 < rd_b_supply data"
    and "mul_floor (rd_b_supply data) (rd_b_rate data) SCALAR_12 = Ok pre"
  shows "rd_b_rate data \<le> rd_b_rate data'"
    and "rd_backstop_credit data \<le> rd_backstop_credit data'"
    and "data' = data\<lparr>rd_b_rate := rd_b_rate data', rd_backstop_credit := rd_backstop_credit data'\<rparr>"
proof -
  have *: "rd_b_rate data \<le> rd_b_rate data' \<and> rd_backstop_credit data \<le> rd_backstop_credit data'
    \<and> data' = data\<lparr>rd_b_rate := rd_b_rate data', rd_backstop_credit := rd_backstop_credit data'\<rparr>"
  proof (cases "0 < acc")
    case False
    then show ?thesis using assms(1) by (simp add: accrue_supply_def)
  next
    case True
    obtain credit b where
        d': "data' = data\<lparr>rd_backstop_credit := rd_backstop_credit data + credit, rd_b_rate := b\<rparr>"
      and b: "div_floor (pre + acc - credit) (rd_b_supply data) SCALAR_12 = Ok b"
      and credit: "credit = 0 \<or> mul_floor acc (int bstop) SCALAR_7 = Ok credit"
    proof (cases "0 < bstop")
      case True
      with assms(1) \<open>0 < acc\<close> obtain credit b where
        "data' = data\<lparr>rd_backstop_credit := rd_backstop_credit data + credit, rd_b_rate := b\<rparr>"
        "div_floor (pre + acc - credit) (rd_b_supply data) SCALAR_12 = Ok b"
        "mul_floor acc (int bstop) SCALAR_7 = Ok credit"
        by (auto simp: accrue_supply_def bind_eq_Some_conv)
      then show ?thesis using that by blast
    next
      case False
      with assms(1) \<open>0 < acc\<close> obtain b where "data' = data\<lparr>rd_b_rate := b\<rparr>"
        "div_floor (pre + acc) (rd_b_supply data) SCALAR_12 = Ok b"
        by (auto simp: accrue_supply_def bind_eq_Some_conv)
      then show ?thesis using that [of b 0] by simp
    qed
    have nn: "0 \<le> credit" using credit True by (auto intro: mul_floor_nonneg)
    have "acc * int bstop < acc * SCALAR_7" using True assms(3) by simp
    then have "credit < acc"
      using credit True le_fdiv_iff [of SCALAR_7 acc "acc * int bstop"] by (auto simp: fixed_Ok_iff)
    then have "rd_b_supply data * rd_b_rate data < (pre + acc - credit) * SCALAR_12"
      using fp.down_law [OF _ assms(5)] by (smt (verit) SCALARS_pos(2) mult_less_cancel_right_pos)
    then have "rd_b_rate data \<le> b"
      using b assms(4) by (simp add: fixed_Ok_iff le_fdiv_iff mult.commute)
    with d' nn show ?thesis by simp
  qed
  from * show "rd_b_rate data \<le> rd_b_rate data'" by blast
  from * show "rd_backstop_credit data \<le> rd_backstop_credit data'" by blast
  from * show "data' = data\<lparr>rd_b_rate := rd_b_rate data', rd_backstop_credit := rd_backstop_credit data'\<rparr>"
    by blast
qed

text \<open>
  \<open>accrue\<close> either only moves the time stamp (nothing elapsed, nothing supplied or nothing
  borrowed) or runs the whole update; \<open>accrue_cases\<close> is that case distinction.
\<close>

lemma accrue_cases:
  assumes "accrue r bstop now = Ok r'"
  obtains (stamp) "r' = set_data r ((rs_data r)\<lparr>rd_last_time := now\<rparr>)"
      "rd_last_time (rs_data r) \<le> now"
  | (update) u a m pre_s pre_l d l data where
      "utilization r = Ok u" "u \<noteq> 0" "rd_b_supply (rs_data r) \<noteq> 0"
      "rd_last_time (rs_data r) < now"
      "calc_accrual (rs_config r) u (rd_ir_mod (rs_data r)) (rd_last_time (rs_data r)) now = Ok (a, m)"
      "mul_floor (rd_b_supply (rs_data r)) (rd_b_rate (rs_data r)) SCALAR_12 = Ok pre_s"
      "mul_ceil (rd_d_supply (rs_data r)) (rd_d_rate (rs_data r)) SCALAR_12 = Ok pre_l"
      "mul_ceil a (rd_d_rate (rs_data r)) SCALAR_12 = Ok d"
      "mul_ceil (rd_d_supply (rs_data r)) d SCALAR_12 = Ok l"
      "accrue_supply ((rs_data r)\<lparr>rd_ir_mod := m, rd_d_rate := d\<rparr>) bstop pre_s (l - pre_l) = Ok data"
      "r' = set_data r (data\<lparr>rd_last_time := now\<rparr>)"
proof (cases "now = rd_last_time (rs_data r)")
  case True
  then show ?thesis using assms stamp by (simp add: accrue_def Let_def set_data_def)
next
  case False
  then have lt: "rd_last_time (rs_data r) < now"
    using assms by (auto simp: accrue_def Let_def split: if_splits)
  show ?thesis
  proof (cases "rd_b_supply (rs_data r) = 0 \<or> utilization r = Ok 0")
    case True
    then show ?thesis using assms stamp lt by (auto simp: accrue_def Let_def split: if_splits)
  next
    case False
    with assms lt update show ?thesis
      by (auto simp: accrue_def Let_def total_supply_def total_liabilities_def
          to_asset_from_b_token_def to_asset_from_d_token_def split: if_splits)
  qed
qed

lemma accrue_update_data:
  assumes "reserve_ok r" and "int bstop < SCALAR_7" and "u \<noteq> 0" and "utilization r = Ok u"
    and "rd_b_supply (rs_data r) \<noteq> 0"
    and "calc_accrual (rs_config r) u (rd_ir_mod (rs_data r)) lt now = Ok (a, m)"
    and "mul_floor (rd_b_supply (rs_data r)) (rd_b_rate (rs_data r)) SCALAR_12 = Ok pre_s"
    and "mul_ceil (rd_d_supply (rs_data r)) (rd_d_rate (rs_data r)) SCALAR_12 = Ok pre_l"
    and "mul_ceil a (rd_d_rate (rs_data r)) SCALAR_12 = Ok d"
    and "mul_ceil (rd_d_supply (rs_data r)) d SCALAR_12 = Ok l"
    and "accrue_supply ((rs_data r)\<lparr>rd_ir_mod := m, rd_d_rate := d\<rparr>) bstop pre_s (l - pre_l) = Ok data"
  shows "rd_d_rate (rs_data r) \<le> d \<and> ir_mod_ok m \<and> rd_b_rate (rs_data r) \<le> rd_b_rate data
    \<and> rd_backstop_credit (rs_data r) \<le> rd_backstop_credit data
    \<and> data = (rs_data r)\<lparr>rd_ir_mod := m, rd_d_rate := d, rd_b_rate := rd_b_rate data,
               rd_backstop_credit := rd_backstop_credit data\<rparr>"
proof -
  let ?d = "rs_data r"
  have ok: "0 < rd_d_rate ?d" "0 < rd_b_supply ?d" "0 \<le> rd_d_supply ?d" "ir_mod_ok (rd_ir_mod ?d)"
    using assms(1,5) by (auto simp: reserve_ok_def)
  have "0 < u" using utilization_range [OF assms(4,1)] assms(3) by linarith
  from calc_accrual_ok [OF assms(6) this ok(4)] have a: "SCALAR_12 \<le> a" and m: "ir_mod_ok m"
    by auto
  have "rd_d_rate ?d * SCALAR_12 \<le> a * rd_d_rate ?d" using a ok(1) by (simp add: mult.commute)
  then have d: "rd_d_rate ?d \<le> d"
    using fp.up_law [OF SCALARS_pos(2) assms(9)]
    by (smt (verit) SCALARS_pos(2) mult_le_cancel_right_pos)
  have "pre_l \<le> l"
    using fp.up_mono [OF SCALARS_pos(2) ok(3) d, of pre_l l] assms(8,10)
    by (simp add: mul_ceil_def mul_div_pos mult.commute)
  then have acc: "0 \<le> l - pre_l" by simp
  have pre: "mul_floor (rd_b_supply (?d\<lparr>rd_ir_mod := m, rd_d_rate := d\<rparr>))
      (rd_b_rate (?d\<lparr>rd_ir_mod := m, rd_d_rate := d\<rparr>)) SCALAR_12 = Ok pre_s"
    using assms(7) by simp
  have pos: "0 < rd_b_supply (?d\<lparr>rd_ir_mod := m, rd_d_rate := d\<rparr>)" using ok by simp
  note s = accrue_supply_ok [OF assms(11) acc assms(2) pos pre]
  from d m s show ?thesis by simp
qed

section \<open>Properties\<close>

text \<open>
  C2. Accrual keeps the reserve invariant, stamps the reserve with the requested time and
  only ever moves money one way: the debt rate, the supply rate and the backstop credit
  never fall, the interest-rate modifier stays inside its clamp, and neither the supplies
  nor the configuration change. The backstop's take rate has to be under 100 percent.
\<close>

theorem accrue_sound:
  assumes "reserve_ok r" and "int bstop < SCALAR_7" and "accrue r bstop now = Ok r'"
  shows "reserve_ok r' \<and> rd_last_time (rs_data r') = now \<and> rd_last_time (rs_data r) \<le> now
    \<and> rd_d_rate (rs_data r) \<le> rd_d_rate (rs_data r') \<and> rd_b_rate (rs_data r) \<le> rd_b_rate (rs_data r')
    \<and> rd_backstop_credit (rs_data r) \<le> rd_backstop_credit (rs_data r')
    \<and> rd_b_supply (rs_data r') = rd_b_supply (rs_data r)
    \<and> rd_d_supply (rs_data r') = rd_d_supply (rs_data r)
    \<and> rs_config r' = rs_config r \<and> rs_asset r' = rs_asset r \<and> rs_scalar r' = rs_scalar r"
  using assms(3)
proof (cases rule: accrue_cases)
  case stamp
  then show ?thesis using assms(1) by (simp add: reserve_ok_def)
next
  case (update u a m pre_s pre_l d l data)
  note * = accrue_update_data [OF assms(1,2) update(2,1,3,5-10)]
  have "data = (rs_data r)\<lparr>rd_ir_mod := m, rd_d_rate := d, rd_b_rate := rd_b_rate data,
               rd_backstop_credit := rd_backstop_credit data\<rparr>" using * by blast
  then have data: "rd_d_rate data = d" "rd_ir_mod data = m"
      "rd_b_supply data = rd_b_supply (rs_data r)" "rd_d_supply data = rd_d_supply (rs_data r)"
    by (metis reserve_data.simps reserve_data.surjective reserve_data.update_convs)+
  show ?thesis using assms(1) * update(4,11) data by (simp add: reserve_ok_def)
qed

definition sample_config :: reserve_config where
  "sample_config = \<lparr>rc_index = 0, rc_decimals = 7, rc_c_factor = 9000000, rc_l_factor = 9000000,
     rc_util = 5000000, rc_max_util = 9500000, rc_r_base = 100000, rc_r_one = 500000,
     rc_r_two = 5000000, rc_r_three = 15000000, rc_reactivity = 1000,
     rc_supply_cap = 10 ^ 30, rc_enabled = True\<rparr>"

definition sample_reserve :: reserve where
  "sample_reserve = \<lparr>rs_asset = ''XLM'', rs_config = sample_config,
     rs_data = \<lparr>rd_d_rate = 1200000000000, rd_b_rate = 1100000000000, rd_ir_mod = 10000000,
       rd_b_supply = 10 ^ 12, rd_d_supply = 6 * 10 ^ 11, rd_backstop_credit = 0,
       rd_last_time = 1000\<rparr>, rs_scalar = 10 ^ 7\<rparr>"

lemmas sample_reserve_defs = sample_reserve_def sample_config_def

lemma sample_reserve_ok: "reserve_ok sample_reserve"
  by (simp add: sample_reserve_defs reserve_ok_def ir_mod_ok_def IR_MOD_MIN_eq IR_MOD_MAX_def SCALAR_7_def)

theorem accrue_sound_witness:
  "(case accrue sample_reserve 2000000 5000 of
      Ok r \<Rightarrow> reserve_ok r \<and> rd_last_time (rs_data r) = 5000
        \<and> 1100000000000 \<le> rd_b_rate (rs_data r) \<and> 1200000000000 < rd_d_rate (rs_data r)
    | Err e \<Rightarrow> False)"
proof -
  have "(case accrue sample_reserve 2000000 5000 of
      Ok r \<Rightarrow> 1200000000000 < rd_d_rate (rs_data r) | Err e \<Rightarrow> False)"
    by (simp add: sample_reserve_defs accrual_evals eval_simps)
  then obtain r where r: "accrue sample_reserve 2000000 5000 = Ok r"
    and d: "1200000000000 < rd_d_rate (rs_data r)" by (auto split: sum.splits)
  have "int 2000000 < SCALAR_7" by (simp add: SCALAR_7_def)
  from accrue_sound [OF sample_reserve_ok this r] d show ?thesis
    by (simp add: r) (simp add: sample_reserve_defs)
qed

text \<open>
  The conversions between tokens and underlying never favour the account holder:
  withdrawing what a b-token balance is worth burns no more than the balance, b-tokens
  taken rounded up are worth at least what was asked for, a supply is never worth more
  than what was paid in, and repaying what a debt is worth always clears it.
\<close>

lemma conversions_roundtrip:
  assumes "0 < rd_b_rate (rs_data r)" and "0 < rd_d_rate (rs_data r)"
  shows "(\<forall>b a b'. to_asset_from_b_token r b = Ok a \<longrightarrow> to_b_token_up r a = Ok b' \<longrightarrow> b' \<le> b)
    \<and> (\<forall>a b a'. to_b_token_up r a = Ok b \<longrightarrow> to_asset_from_b_token r b = Ok a' \<longrightarrow> a \<le> a')
    \<and> (\<forall>a b a'. to_b_token_down r a = Ok b \<longrightarrow> to_asset_from_b_token r b = Ok a' \<longrightarrow> a' \<le> a)
    \<and> (\<forall>d a d'. to_asset_from_d_token r d = Ok a \<longrightarrow> to_d_token_down r a = Ok d' \<longrightarrow> d \<le> d')"
  using b_token_roundtrip [OF assms(1)] d_token_roundtrip [OF assms(2)] by blast

end
