(* ===== verification/Position.thy ===== *)
theory Position
  imports Reserve
begin

text \<open>
  \<open>src/math/position.rs\<close>: a user's positions, the oracle snapshot, and the valuation
  that the health factor, the fill planner and the unwinder all read. Collateral rounds
  down and liabilities round up at every step.
\<close>

section \<open>Definitions\<close>

record positions =
  ps_collateral :: "(nat, int) btree"
  ps_liabilities :: "(nat, int) btree"
  ps_supply :: "(nat, int) btree"

text \<open>\<open>Positions::default()\<close>.\<close>

definition positions_default :: positions where
  "positions_default = \<lparr>ps_collateral = [], ps_liabilities = [], ps_supply = []\<rparr>"

definition effective_count :: "positions \<Rightarrow> nat" where
  "effective_count self = length (ps_collateral self) + length (ps_liabilities self)"

text \<open>\<open>Positions::is_empty\<close>.\<close>

definition positions_is_empty :: "positions \<Rightarrow> bool" where
  "positions_is_empty self \<longleftrightarrow>
     ps_collateral self = [] \<and> ps_liabilities self = [] \<and> ps_supply self = []"

record oracle_prices =
  op_decimals :: nat
  op_scalar :: int
  op_prices :: "(string, int) btree"

text \<open>\<open>OraclePrices::new\<close>.\<close>

definition oracle_new :: "nat \<Rightarrow> (string, int) btree \<Rightarrow> oracle_prices math_result" where
  "oracle_new decimals prices =
     rbind (pow10 decimals) (\<lambda>scalar.
     if \<exists>price \<in> set (bt_values prices). price \<le> 0
     then Err (InvalidInput ''oracle price must be positive'')
     else Ok \<lparr>op_decimals = decimals, op_scalar = scalar, op_prices = prices\<rparr>)"

text \<open>\<open>OraclePrices::price\<close>.\<close>

definition oracle_price :: "oracle_prices \<Rightarrow> string \<Rightarrow> int math_result" where
  "oracle_price self asset = ok_or (MissingPrice asset) (bt_get (op_prices self) asset)"

record position_data =
  pd_collateral_base :: int
  pd_collateral_raw :: int
  pd_liability_base :: int
  pd_liability_raw :: int
  pd_scalar :: int

definition health_factor :: "position_data \<Rightarrow> int option math_result" where
  "health_factor self =
     (if pd_liability_base self = 0 then Ok None
      else rmap Some (div_floor (pd_collateral_base self) (pd_liability_base self) (pd_scalar self)))"

definition is_hf_over :: "position_data \<Rightarrow> int \<Rightarrow> bool math_result" where
  "is_hf_over self mx =
     rbind (health_factor self) (\<lambda>hf. case hf of
       None \<Rightarrow> Ok True
     | Some h \<Rightarrow>
         rbind (mul_ceil (pd_scalar self) mx SCALAR_7) (\<lambda>b. Ok (b < h)))"

definition is_hf_under :: "position_data \<Rightarrow> int \<Rightarrow> bool math_result" where
  "is_hf_under self mn =
     rbind (health_factor self) (\<lambda>hf. case hf of
       None \<Rightarrow> Ok False
     | Some h \<Rightarrow>
         rbind (mul_floor (pd_scalar self) mn SCALAR_7) (\<lambda>b. Ok (h < b)))"

text \<open>One turn of the collateral loop, and one of the liability loop.\<close>

definition value_collateral ::
  "(nat, reserve) btree \<Rightarrow> oracle_prices \<Rightarrow> nat \<times> int \<Rightarrow> position_data \<Rightarrow> position_data math_result" where
  "value_collateral reserves prices = (\<lambda>(index, b_tokens) data.
     if b_tokens = 0 then Ok data
     else
       rbind (ok_or (MissingReserve index) (bt_get reserves index)) (\<lambda>reserve.
       rbind (oracle_price prices (rs_asset reserve)) (\<lambda>price.
       rbind (to_effective_asset_from_b_token reserve b_tokens) (\<lambda>effective.
       rbind (to_asset_from_b_token reserve b_tokens) (\<lambda>raw.
       rbind (mul_floor price effective (rs_scalar reserve)) (\<lambda>vb.
       rbind (ok_or Overflow (checked_add (pd_collateral_base data) vb)) (\<lambda>base.
       rbind (mul_floor price raw (rs_scalar reserve)) (\<lambda>vr.
       rbind (ok_or Overflow (checked_add (pd_collateral_raw data) vr)) (\<lambda>total_raw.
       Ok (data\<lparr>pd_collateral_base := base, pd_collateral_raw := total_raw\<rparr>))))))))))"

definition value_liability ::
  "(nat, reserve) btree \<Rightarrow> oracle_prices \<Rightarrow> nat \<times> int \<Rightarrow> position_data \<Rightarrow> position_data math_result" where
  "value_liability reserves prices = (\<lambda>(index, d_tokens) data.
     if d_tokens = 0 then Ok data
     else
       rbind (ok_or (MissingReserve index) (bt_get reserves index)) (\<lambda>reserve.
       rbind (oracle_price prices (rs_asset reserve)) (\<lambda>price.
       rbind (to_effective_asset_from_d_token reserve d_tokens) (\<lambda>effective.
       rbind (to_asset_from_d_token reserve d_tokens) (\<lambda>raw.
       rbind (mul_ceil price effective (rs_scalar reserve)) (\<lambda>vb.
       rbind (ok_or Overflow (checked_add (pd_liability_base data) vb)) (\<lambda>base.
       rbind (mul_ceil price raw (rs_scalar reserve)) (\<lambda>vr.
       rbind (ok_or Overflow (checked_add (pd_liability_raw data) vr)) (\<lambda>total_raw.
       Ok (data\<lparr>pd_liability_base := base, pd_liability_raw := total_raw\<rparr>))))))))))"

definition calculate_position_data ::
  "(nat, reserve) btree \<Rightarrow> oracle_prices \<Rightarrow> positions \<Rightarrow> position_data math_result" where
  "calculate_position_data reserves prices positions =
     (let data = \<lparr>pd_collateral_base = 0, pd_collateral_raw = 0, pd_liability_base = 0,
                  pd_liability_raw = 0, pd_scalar = op_scalar prices\<rparr> in
      rbind (rfold (value_collateral reserves prices) (ps_collateral positions) data) (\<lambda>data.
      rfold (value_liability reserves prices) (ps_liabilities positions) data))"

lemmas position_evals [eval_simps] = positions_default_def effective_count_def oracle_new_def
  oracle_price_def health_factor_def is_hf_over_def is_hf_under_def value_collateral_def
  value_liability_def calculate_position_data_def

section \<open>Invariants\<close>

definition prices_ok :: "oracle_prices \<Rightarrow> bool" where
  "prices_ok p \<longleftrightarrow> op_scalar p = 10 ^ op_decimals p \<and> (\<forall>price \<in> set (bt_values (op_prices p)). 0 < price)"

text \<open>Every reserve is sound and its factors are proper fractions at 7 decimals.\<close>

definition factors_ok :: "reserve \<Rightarrow> bool" where
  "factors_ok r \<longleftrightarrow> int (rc_c_factor (rs_config r)) \<le> SCALAR_7
     \<and> 0 < rc_l_factor (rs_config r) \<and> int (rc_l_factor (rs_config r)) \<le> SCALAR_7"

definition reserves_ok :: "(nat, reserve) btree \<Rightarrow> bool" where
  "reserves_ok rs \<longleftrightarrow> bt_wf rs \<and> (\<forall>r \<in> set (bt_values rs). reserve_ok r \<and> factors_ok r)"

definition positions_ok :: "positions \<Rightarrow> bool" where
  "positions_ok p \<longleftrightarrow> bt_wf (ps_collateral p) \<and> bt_wf (ps_liabilities p) \<and> bt_wf (ps_supply p)
     \<and> (\<forall>v \<in> set (bt_values (ps_collateral p)). 0 \<le> v)
     \<and> (\<forall>v \<in> set (bt_values (ps_liabilities p)). 0 \<le> v)
     \<and> (\<forall>v \<in> set (bt_values (ps_supply p)). 0 \<le> v)"

lemma bt_get_value: "bt_get m k = Some v \<Longrightarrow> v \<in> set (bt_values m)"
  using bt_get_in_set by (force simp: bt_values_def)

lemma price_pos: "prices_ok p \<Longrightarrow> oracle_price p a = Ok x \<Longrightarrow> 0 < x"
  by (auto simp: prices_ok_def oracle_price_def dest!: bt_get_value)

lemma reserves_okD: "reserves_ok rs \<Longrightarrow> bt_get rs i = Some r \<Longrightarrow> reserve_ok r \<and> factors_ok r"
  by (auto simp: reserves_ok_def dest!: bt_get_value)

section \<open>A position's value, side by side with the loops\<close>

text \<open>
  What one entry adds: its effective and its raw value. The loops are the checked sums of
  these, which is the reference the valuation is proved against.
\<close>

definition collateral_value :: "(nat, reserve) btree \<Rightarrow> oracle_prices \<Rightarrow> nat \<times> int \<Rightarrow> (int \<times> int) math_result" where
  "collateral_value reserves prices = (\<lambda>(index, b).
     if b = 0 then Ok (0, 0)
     else
       rbind (ok_or (MissingReserve index) (bt_get reserves index)) (\<lambda>r.
       rbind (oracle_price prices (rs_asset r)) (\<lambda>price.
       rbind (to_effective_asset_from_b_token r b) (\<lambda>effective.
       rbind (to_asset_from_b_token r b) (\<lambda>raw.
       rbind (mul_floor price effective (rs_scalar r)) (\<lambda>vb.
       rbind (mul_floor price raw (rs_scalar r)) (\<lambda>vr. Ok (vb, vr))))))))"

definition liability_value :: "(nat, reserve) btree \<Rightarrow> oracle_prices \<Rightarrow> nat \<times> int \<Rightarrow> (int \<times> int) math_result" where
  "liability_value reserves prices = (\<lambda>(index, d).
     if d = 0 then Ok (0, 0)
     else
       rbind (ok_or (MissingReserve index) (bt_get reserves index)) (\<lambda>r.
       rbind (oracle_price prices (rs_asset r)) (\<lambda>price.
       rbind (to_effective_asset_from_d_token r d) (\<lambda>effective.
       rbind (to_asset_from_d_token r d) (\<lambda>raw.
       rbind (mul_ceil price effective (rs_scalar r)) (\<lambda>vb.
       rbind (mul_ceil price raw (rs_scalar r)) (\<lambda>vr. Ok (vb, vr))))))))"

text \<open>The value of an entry that can be valued at all, as a total function.\<close>

definition worth :: "('a \<Rightarrow> (int \<times> int) math_result) \<Rightarrow> 'a \<Rightarrow> int \<times> int" where
  "worth f e = (case f e of Err _ \<Rightarrow> (0, 0) | Ok v \<Rightarrow> v)"

definition valued :: "('a \<Rightarrow> (int \<times> int) math_result) \<Rightarrow> 'a list \<Rightarrow> bool" where
  "valued f es \<longleftrightarrow> (\<forall>e \<in> set es. \<exists>v. f e = Ok v)"

definition base_sum :: "('a \<Rightarrow> (int \<times> int) math_result) \<Rightarrow> 'a list \<Rightarrow> int" where
  "base_sum f es = (\<Sum>e\<leftarrow>es. fst (worth f e))"

definition raw_sum :: "('a \<Rightarrow> (int \<times> int) math_result) \<Rightarrow> 'a list \<Rightarrow> int" where
  "raw_sum f es = (\<Sum>e\<leftarrow>es. snd (worth f e))"

lemma worth_Ok [simp]: "f e = Ok v \<Longrightarrow> worth f e = v"
  by (simp add: worth_def)

lemma sums_Cons [simp]:
  "base_sum f (e # es) = fst (worth f e) + base_sum f es" "base_sum f [] = 0"
  "raw_sum f (e # es) = snd (worth f e) + raw_sum f es" "raw_sum f [] = 0"
  "valued f (e # es) \<longleftrightarrow> (\<exists>v. f e = Ok v) \<and> valued f es" "valued f []"
  by (auto simp: base_sum_def raw_sum_def valued_def)

lemma value_collateral_step:
  assumes "value_collateral rs p e d = Ok d'"
  shows "\<exists>v. collateral_value rs p e = Ok v \<and>
    d' = d\<lparr>pd_collateral_base := pd_collateral_base d + fst v,
           pd_collateral_raw := pd_collateral_raw d + snd v\<rparr>"
  using assms
  by (cases e) (fastforce simp: value_collateral_def collateral_value_def split: if_splits)

lemma value_liability_step:
  assumes "value_liability rs p e d = Ok d'"
  shows "\<exists>v. liability_value rs p e = Ok v \<and>
    d' = d\<lparr>pd_liability_base := pd_liability_base d + fst v,
           pd_liability_raw := pd_liability_raw d + snd v\<rparr>"
  using assms
  by (cases e) (fastforce simp: value_liability_def liability_value_def split: if_splits)

lemma collateral_loop:
  "rfold (value_collateral rs p) es d = Ok d' \<Longrightarrow>
   valued (collateral_value rs p) es \<and>
   d' = d\<lparr>pd_collateral_base := pd_collateral_base d + base_sum (collateral_value rs p) es,
          pd_collateral_raw := pd_collateral_raw d + raw_sum (collateral_value rs p) es\<rparr>"
proof (induction es arbitrary: d)
  case (Cons e es)
  from Cons.prems obtain d1 where d1: "value_collateral rs p e d = Ok d1"
    and rest: "rfold (value_collateral rs p) es d1 = Ok d'" by auto
  from value_collateral_step [OF d1] Cons.IH [OF rest] show ?case by (auto simp: add.assoc)
qed simp

lemma liability_loop:
  "rfold (value_liability rs p) es d = Ok d' \<Longrightarrow>
   valued (liability_value rs p) es \<and>
   d' = d\<lparr>pd_liability_base := pd_liability_base d + base_sum (liability_value rs p) es,
          pd_liability_raw := pd_liability_raw d + raw_sum (liability_value rs p) es\<rparr>"
proof (induction es arbitrary: d)
  case (Cons e es)
  from Cons.prems obtain d1 where d1: "value_liability rs p e d = Ok d1"
    and rest: "rfold (value_liability rs p) es d1 = Ok d'" by auto
  from value_liability_step [OF d1] Cons.IH [OF rest] show ?case by (auto simp: add.assoc)
qed simp

lemma calculate_position_data_sums:
  assumes "calculate_position_data rs p ps = Ok d"
  shows "valued (collateral_value rs p) (ps_collateral ps) \<and> valued (liability_value rs p) (ps_liabilities ps)
    \<and> d = \<lparr>pd_collateral_base = base_sum (collateral_value rs p) (ps_collateral ps),
           pd_collateral_raw = raw_sum (collateral_value rs p) (ps_collateral ps),
           pd_liability_base = base_sum (liability_value rs p) (ps_liabilities ps),
           pd_liability_raw = raw_sum (liability_value rs p) (ps_liabilities ps),
           pd_scalar = op_scalar p\<rparr>"
proof -
  from assms obtain d1 where
    "rfold (value_collateral rs p) (ps_collateral ps)
       \<lparr>pd_collateral_base = 0, pd_collateral_raw = 0, pd_liability_base = 0,
        pd_liability_raw = 0, pd_scalar = op_scalar p\<rparr> = Ok d1"
    "rfold (value_liability rs p) (ps_liabilities ps) d1 = Ok d"
    by (auto simp: calculate_position_data_def)
  from collateral_loop [OF this(1)] liability_loop [OF this(2)] show ?thesis by simp
qed

section \<open>Rounding directions of one entry\<close>

lemma effective_b_le_raw:
  assumes "reserve_ok r" "factors_ok r" "0 \<le> b"
    and "to_effective_asset_from_b_token r b = Ok e" "to_asset_from_b_token r b = Ok a"
  shows "0 \<le> e \<and> e \<le> a"
proof -
  let ?c = "int (rc_c_factor (rs_config r))"
  have a: "0 \<le> a" using assms(1,3,5) by (auto simp: reserve_ok_def intro: to_asset_nonneg)
  have e: "mul_floor a ?c SCALAR_7 = Ok e"
    using assms(4,5) by (simp add: to_effective_asset_from_b_token_def)
  have "a * ?c \<le> a * SCALAR_7" using a assms(2) by (simp add: factors_ok_def mult_left_mono)
  then have "e * SCALAR_7 \<le> a * SCALAR_7" using fp.down_law [OF SCALARS_pos(1) e] by linarith
  then have "e \<le> a" by (simp add: SCALAR_7_def)
  with a show ?thesis using mul_floor_nonneg [OF e] by simp
qed

lemma effective_d_ge_raw:
  assumes "reserve_ok r" "factors_ok r" "0 \<le> d"
    and "to_effective_asset_from_d_token r d = Ok e" "to_asset_from_d_token r d = Ok a"
  shows "0 \<le> a \<and> a \<le> e"
proof -
  let ?l = "int (rc_l_factor (rs_config r))"
  have a: "0 \<le> a" using assms(1,3,5) by (auto simp: reserve_ok_def intro: to_asset_nonneg)
  have l: "0 < ?l" "?l \<le> SCALAR_7" using assms(2) by (auto simp: factors_ok_def)
  have e: "mul_ceil a SCALAR_7 ?l = Ok e"
    using assms(4,5) by (simp add: to_effective_asset_from_d_token_def div_flips)
  have "a * ?l \<le> a * SCALAR_7" using a l(2) by (simp add: mult_left_mono)
  then have "a * ?l \<le> e * ?l" using fp.up_law [OF l(1) e] by linarith
  with a l show ?thesis by simp
qed

lemma collateral_value_bounds:
  assumes "reserves_ok rs" "prices_ok p" "0 \<le> b" "collateral_value rs p (i, b) = Ok (vb, vr)"
  shows "0 \<le> vb \<and> vb \<le> vr"
proof (cases "b = 0")
  case False
  with assms(4) obtain r x e a where r: "bt_get rs i = Some r" and x: "oracle_price p (rs_asset r) = Ok x"
    and ea: "to_effective_asset_from_b_token r b = Ok e" "to_asset_from_b_token r b = Ok a"
    and v: "mul_floor x e (rs_scalar r) = Ok vb" "mul_floor x a (rs_scalar r) = Ok vr"
    by (auto simp: collateral_value_def)
  have ok: "reserve_ok r" "factors_ok r" using reserves_okD [OF assms(1) r] by auto
  have e: "0 \<le> e" "e \<le> a" using effective_b_le_raw [OF ok assms(3) ea] by auto
  have x: "0 < x" by (rule price_pos [OF assms(2) x])
  note s = reserve_ok_scalar_pos [OF ok(1)]
  have swap: "mul_floor e x (rs_scalar r) = Ok vb" "mul_floor a x (rs_scalar r) = Ok vr"
    using v by (simp_all add: mul_floor_def mul_div_pos s mult.commute)
  from mul_floor_nonneg [OF swap(1) e(1)] fp.down_mono [OF s _ e(2) swap] x s show ?thesis by simp
qed (use assms in \<open>simp add: collateral_value_def\<close>)

lemma liability_value_bounds:
  assumes "reserves_ok rs" "prices_ok p" "0 \<le> d" "liability_value rs p (i, d) = Ok (vb, vr)"
  shows "0 \<le> vr \<and> vr \<le> vb"
proof (cases "d = 0")
  case False
  with assms(4) obtain r x e a where r: "bt_get rs i = Some r" and x: "oracle_price p (rs_asset r) = Ok x"
    and ea: "to_effective_asset_from_d_token r d = Ok e" "to_asset_from_d_token r d = Ok a"
    and v: "mul_ceil x e (rs_scalar r) = Ok vb" "mul_ceil x a (rs_scalar r) = Ok vr"
    by (auto simp: liability_value_def)
  have ok: "reserve_ok r" "factors_ok r" using reserves_okD [OF assms(1) r] by auto
  have a: "0 \<le> a" "a \<le> e" using effective_d_ge_raw [OF ok assms(3) ea] by auto
  have x: "0 < x" by (rule price_pos [OF assms(2) x])
  note s = reserve_ok_scalar_pos [OF ok(1)]
  have swap: "mul_ceil a x (rs_scalar r) = Ok vr" "mul_ceil e x (rs_scalar r) = Ok vb"
    using v by (simp_all add: mul_ceil_def mul_div_pos s mult.commute)
  from mul_ceil_nonneg [OF swap(1) a(1)] fp.up_mono [OF s _ a(2) swap] x s show ?thesis by simp
qed (use assms in \<open>simp add: liability_value_def\<close>)

lemma collateral_sums_bounds:
  assumes "reserves_ok rs" "prices_ok p"
  shows "\<forall>v \<in> set (bt_values es). 0 \<le> v \<Longrightarrow> valued (collateral_value rs p) es \<Longrightarrow>
    0 \<le> base_sum (collateral_value rs p) es
    \<and> base_sum (collateral_value rs p) es \<le> raw_sum (collateral_value rs p) es"
proof (induction es)
  case (Cons e es)
  obtain i b where e: "e = (i, b)" by (cases e)
  from Cons.prems e obtain vb vr where v: "collateral_value rs p (i, b) = Ok (vb, vr)" by auto
  with collateral_value_bounds [OF assms _ v] Cons e show ?case by simp
qed simp

lemma liability_sums_bounds:
  assumes "reserves_ok rs" "prices_ok p"
  shows "\<forall>v \<in> set (bt_values es). 0 \<le> v \<Longrightarrow> valued (liability_value rs p) es \<Longrightarrow>
    0 \<le> raw_sum (liability_value rs p) es
    \<and> raw_sum (liability_value rs p) es \<le> base_sum (liability_value rs p) es"
proof (induction es)
  case (Cons e es)
  obtain i d where e: "e = (i, d)" by (cases e)
  from Cons.prems e obtain vb vr where v: "liability_value rs p (i, d) = Ok (vb, vr)" by auto
  with liability_value_bounds [OF assms _ v] Cons e show ?case by simp
qed simp

section \<open>The health factor, cross-multiplied\<close>

lemma health_factor_cases:
  assumes "health_factor d = Ok h" and "0 \<le> pd_liability_base d"
  shows "(h = None \<longleftrightarrow> pd_liability_base d = 0) \<and>
    (\<forall>x. h = Some x \<longrightarrow> x = pd_collateral_base d * pd_scalar d div pd_liability_base d)"
  using assms by (auto simp: health_factor_def fixed_Ok_iff split: if_splits)

lemma is_hf_under_exact:
  assumes "is_hf_under d mn = Ok u" and "0 \<le> pd_liability_base d"
  shows "u \<longleftrightarrow> pd_liability_base d \<noteq> 0
    \<and> pd_collateral_base d * pd_scalar d < (pd_scalar d * mn div SCALAR_7) * pd_liability_base d"
proof (cases "pd_liability_base d = 0")
  case False
  then have l: "0 < pd_liability_base d" using assms(2) by simp
  let ?h = "pd_collateral_base d * pd_scalar d div pd_liability_base d"
  from assms(1) l have "u \<longleftrightarrow> ?h < pd_scalar d * mn div SCALAR_7"
    by (auto simp: is_hf_under_def health_factor_def fixed_Ok_iff)
  also have "\<dots> \<longleftrightarrow> \<not> (pd_scalar d * mn div SCALAR_7) * pd_liability_base d \<le> pd_collateral_base d * pd_scalar d"
    using le_fdiv_iff [OF l] by (simp add: not_le [symmetric])
  finally show ?thesis using l by (simp add: not_le)
qed (use assms in \<open>simp add: is_hf_under_def health_factor_def\<close>)

lemma is_hf_over_exact:
  assumes "is_hf_over d mx = Ok u" and "0 \<le> pd_liability_base d"
  shows "u \<longleftrightarrow> pd_liability_base d = 0
    \<or> (cdiv (pd_scalar d * mx) SCALAR_7 + 1) * pd_liability_base d \<le> pd_collateral_base d * pd_scalar d"
proof (cases "pd_liability_base d = 0")
  case False
  then have l: "0 < pd_liability_base d" using assms(2) by simp
  let ?h = "pd_collateral_base d * pd_scalar d div pd_liability_base d"
  from assms(1) l have "u \<longleftrightarrow> cdiv (pd_scalar d * mx) SCALAR_7 + 1 \<le> ?h"
    by (auto simp: is_hf_over_def health_factor_def fixed_Ok_iff)
  then show ?thesis using l by (simp add: le_fdiv_iff)
qed (use assms in \<open>simp add: is_hf_over_def health_factor_def\<close>)

section \<open>Properties\<close>

text \<open>
  C4. Valuing a position is the sum of its entries' values, and it errs on the safe side:
  over sound reserves with proper factors and positive prices the effective collateral is
  never more than the raw collateral, the effective liabilities never less than the raw
  ones, and no total is negative.
\<close>

theorem position_valuation_sound:
  assumes "reserves_ok rs" "prices_ok p" "positions_ok ps" "calculate_position_data rs p ps = Ok d"
  shows "d = \<lparr>pd_collateral_base = base_sum (collateral_value rs p) (ps_collateral ps),
              pd_collateral_raw = raw_sum (collateral_value rs p) (ps_collateral ps),
              pd_liability_base = base_sum (liability_value rs p) (ps_liabilities ps),
              pd_liability_raw = raw_sum (liability_value rs p) (ps_liabilities ps),
              pd_scalar = op_scalar p\<rparr>
    \<and> 0 \<le> pd_collateral_base d \<and> pd_collateral_base d \<le> pd_collateral_raw d
    \<and> 0 \<le> pd_liability_raw d \<and> pd_liability_raw d \<le> pd_liability_base d"
proof -
  note c = calculate_position_data_sums [OF assms(4)]
  with assms(3) show ?thesis
    using collateral_sums_bounds [OF assms(1,2), of "ps_collateral ps"]
      liability_sums_bounds [OF assms(1,2), of "ps_liabilities ps"]
    by (simp add: positions_ok_def)
qed

definition sample_prices :: oracle_prices where
  "sample_prices = \<lparr>op_decimals = 7, op_scalar = 10 ^ 7, op_prices = [(''USDC'', 10 ^ 7), (''XLM'', 10 ^ 6)]\<rparr>"

definition sample_reserves :: "(nat, reserve) btree" where
  "sample_reserves = [(0, sample_reserve), (1, sample_reserve\<lparr>rs_asset := ''USDC''\<rparr>)]"

definition sample_positions :: positions where
  "sample_positions = \<lparr>ps_collateral = [(0, 10 ^ 9)], ps_liabilities = [(1, 5 * 10 ^ 7)], ps_supply = []\<rparr>"

lemmas sample_pool_defs = sample_prices_def sample_reserves_def sample_positions_def sample_reserve_defs

lemma sample_prices_ok: "prices_ok sample_prices"
  by (simp add: prices_ok_def sample_prices_def)

lemma sample_reserves_ok: "reserves_ok sample_reserves"
  by (simp add: reserves_ok_def factors_ok_def reserve_ok_def ir_mod_ok_def IR_MOD_MIN_eq
      IR_MOD_MAX_def SCALAR_7_def sample_pool_defs)

lemma sample_positions_ok: "positions_ok sample_positions"
  by (simp add: positions_ok_def sample_positions_def)

theorem position_valuation_sound_witness:
  "calculate_position_data sample_reserves sample_prices sample_positions
     = Ok \<lparr>pd_collateral_base = 99000000, pd_collateral_raw = 110000000,
            pd_liability_base = 66666667, pd_liability_raw = 60000000, pd_scalar = 10 ^ 7\<rparr>
   \<and> base_sum (collateral_value sample_reserves sample_prices) (ps_collateral sample_positions) = 99000000"
proof -
  have ev: "calculate_position_data sample_reserves sample_prices sample_positions
     = Ok \<lparr>pd_collateral_base = 99000000, pd_collateral_raw = 110000000,
            pd_liability_base = 66666667, pd_liability_raw = 60000000, pd_scalar = 10 ^ 7\<rparr>"
    by (simp add: sample_pool_defs eval_simps)
  from position_valuation_sound [OF sample_reserves_ok sample_prices_ok sample_positions_ok ev] ev
  show ?thesis by simp
qed

text \<open>
  C5. The two health verdicts are exact comparisons, free of the division they are
  computed with, and can never contradict each other: a position is under \<open>mn\<close> exactly
  when its scaled collateral is short of \<open>mn\<close> times its liability, over \<open>mx\<close> exactly when
  it clears the rounded-up bound by a whole step, and no position is under one bound and
  over a bound at least as high.
\<close>

theorem health_verdicts_exact:
  assumes "0 \<le> pd_liability_base d" and "0 \<le> pd_scalar d"
    and "is_hf_under d mn = Ok un" and "is_hf_over d mx = Ok ov"
  shows "(un \<longleftrightarrow> pd_liability_base d \<noteq> 0
        \<and> pd_collateral_base d * pd_scalar d < (pd_scalar d * mn div SCALAR_7) * pd_liability_base d)
    \<and> (ov \<longleftrightarrow> pd_liability_base d = 0
        \<or> (cdiv (pd_scalar d * mx) SCALAR_7 + 1) * pd_liability_base d \<le> pd_collateral_base d * pd_scalar d)
    \<and> (mn \<le> mx \<longrightarrow> \<not> (un \<and> ov))"
proof -
  note u = is_hf_under_exact [OF assms(3,1)] and o = is_hf_over_exact [OF assms(4,1)]
  have "\<not> (un \<and> ov)" if "mn \<le> mx"
  proof
    assume b: "un \<and> ov"
    have "pd_scalar d * mn \<le> pd_scalar d * mx" using that assms(2) by (rule mult_left_mono)
    then have "pd_scalar d * mn div SCALAR_7 \<le> cdiv (pd_scalar d * mx) SCALAR_7 + 1"
      using fdiv_bounds [of SCALAR_7 "pd_scalar d * mn"] cdiv_bounds [of SCALAR_7 "pd_scalar d * mx"]
      by (smt (verit) SCALARS_pos(1) mult_le_cancel_right_pos)
    then have "(pd_scalar d * mn div SCALAR_7) * pd_liability_base d
        \<le> (cdiv (pd_scalar d * mx) SCALAR_7 + 1) * pd_liability_base d"
      using assms(1) by (rule mult_right_mono)
    with b u o show False by linarith
  qed
  with u o show ?thesis by blast
qed

theorem health_verdicts_exact_witness:
  "let d = \<lparr>pd_collateral_base = 99, pd_collateral_raw = 110, pd_liability_base = 100,
            pd_liability_raw = 90, pd_scalar = 10 ^ 7\<rparr>
   in is_hf_under d 10000000 = Ok True \<and> is_hf_over d 10000000 = Ok False"
proof -
  let ?d = "\<lparr>pd_collateral_base = 99, pd_collateral_raw = 110, pd_liability_base = 100,
            pd_liability_raw = 90, pd_scalar = 10 ^ 7\<rparr>"
  have ev: "is_hf_under ?d 10000000 = Ok True" "is_hf_over ?d 10000000 = Ok False"
    by (simp_all add: eval_simps)
  have "0 \<le> pd_liability_base ?d" "0 \<le> pd_scalar ?d" by simp_all
  from health_verdicts_exact [OF this ev] ev show ?thesis by simp
qed

text \<open>
  No oracle snapshot holds a price the bot could misread as a crash: one is built
  exactly when every price is strictly positive and the scalar fits, it carries the scalar
  its decimals call for, every price it answers is strictly positive, and an asset it does
  not list is an error rather than a zero.
\<close>

lemma oracle_prices_positive:
  "(oracle_new decimals ps = Ok oracle \<longrightarrow>
      prices_ok oracle
      \<and> (\<forall>asset price. oracle_price oracle asset = Ok price \<longrightarrow> 0 < price)
      \<and> (\<forall>asset. asset \<notin> set (bt_keys ps) \<longrightarrow> oracle_price oracle asset = Err (MissingPrice asset)))
   \<and> ((\<exists>oracle. oracle_new decimals ps = Ok oracle) \<longleftrightarrow>
      in_i128 (10 ^ decimals) \<and> (\<forall>price \<in> set (bt_values ps). 0 < price))"
proof -
  have ok: "prices_ok oracle \<and> op_prices oracle = ps" if "oracle_new decimals ps = Ok oracle"
    using that by (auto simp: oracle_new_def prices_ok_def pow10_Ok_iff not_le split: if_splits)
  moreover have "(\<exists>oracle. oracle_new decimals ps = Ok oracle) \<longleftrightarrow>
      in_i128 (10 ^ decimals) \<and> (\<forall>price \<in> set (bt_values ps). 0 < price)"
  proof -
    have "(\<exists>price \<in> set (bt_values ps). price \<le> 0) \<longleftrightarrow> \<not> (\<forall>price \<in> set (bt_values ps). 0 < price)"
      by (meson not_le)
    then show ?thesis by (simp add: oracle_new_def pow10_Ok_iff)
  qed
  ultimately show ?thesis
    by (auto simp: price_pos oracle_price_def simp flip: bt_get_eq_None_iff dest!: ok)
qed

end
