(* ===== verification/Liquidation.thy ===== *)
theory Liquidation
  imports Position "HOL-Library.Product_Lexorder" "HOL-Library.Multiset"
begin

text \<open>
  \<open>src/math/liquidation.rs\<close>: which of a borrower's liabilities an auction should take,
  which collateral it should pay out, and what percent closes the excess down to the
  target health factor. Also \<open>FillPercent\<close> of \<open>src/chain/xdr/encode.rs\<close>, the percent
  type every plan carries.
\<close>

section \<open>Definitions\<close>

datatype fill_percent = FillPercent (fp_get: nat)

text \<open>\<open>FillPercent::try_from\<close>; the error's text is not modelled, no caller reads it.\<close>

definition fill_percent_try_from :: "nat \<Rightarrow> fill_percent option" where
  "fill_percent_try_from v = (if 1 \<le> v \<and> v \<le> 100 then Some (FillPercent v) else None)"

record position_value =
  pv_index :: nat
  pv_asset :: string
  pv_raw :: int
  pv_effective :: int

record liquidation_plan =
  lp_bid :: "string list"
  lp_lot :: "string list"
  lp_percent :: fill_percent

text \<open>One turn of each valuation loop of \<open>position_values\<close>.\<close>

definition push_collateral ::
  "(nat, reserve) btree \<Rightarrow> oracle_prices \<Rightarrow> nat \<times> int \<Rightarrow> position_value list
   \<Rightarrow> position_value list math_result" where
  "push_collateral reserves prices = (\<lambda>(index, b_tokens) acc.
     if b_tokens = 0 then Ok acc
     else
       rbind (ok_or (MissingReserve index) (bt_get reserves index)) (\<lambda>reserve.
       rbind (oracle_price prices (rs_asset reserve)) (\<lambda>price.
       rbind (to_asset_from_b_token reserve b_tokens) (\<lambda>a.
       rbind (mul_floor price a (rs_scalar reserve)) (\<lambda>raw.
       rbind (to_effective_asset_from_b_token reserve b_tokens) (\<lambda>e.
       rbind (mul_floor price e (rs_scalar reserve)) (\<lambda>effective.
       Ok (acc @ [\<lparr>pv_index = index, pv_asset = rs_asset reserve, pv_raw = raw,
                   pv_effective = effective\<rparr>]))))))))"

definition push_liability ::
  "(nat, reserve) btree \<Rightarrow> oracle_prices \<Rightarrow> nat \<times> int \<Rightarrow> position_value list
   \<Rightarrow> position_value list math_result" where
  "push_liability reserves prices = (\<lambda>(index, d_tokens) acc.
     if d_tokens = 0 then Ok acc
     else
       rbind (ok_or (MissingReserve index) (bt_get reserves index)) (\<lambda>reserve.
       rbind (oracle_price prices (rs_asset reserve)) (\<lambda>price.
       rbind (to_asset_from_d_token reserve d_tokens) (\<lambda>a.
       rbind (mul_ceil price a (rs_scalar reserve)) (\<lambda>raw.
       rbind (to_effective_asset_from_d_token reserve d_tokens) (\<lambda>e.
       rbind (mul_ceil price e (rs_scalar reserve)) (\<lambda>effective.
       Ok (acc @ [\<lparr>pv_index = index, pv_asset = rs_asset reserve, pv_raw = raw,
                   pv_effective = effective\<rparr>]))))))))"

text \<open>The comparator of both \<open>sort_by\<close> calls: largest effective value first, then index.\<close>

definition largest_first :: "position_value list \<Rightarrow> position_value list" where
  "largest_first = sort_key (\<lambda>v. (- pv_effective v, pv_index v))"

definition position_values ::
  "(nat, reserve) btree \<Rightarrow> oracle_prices \<Rightarrow> positions
   \<Rightarrow> (position_value list \<times> position_value list) math_result" where
  "position_values reserves prices positions =
     rbind (rfold (push_collateral reserves prices) (ps_collateral positions) []) (\<lambda>collateral.
     rbind (rfold (push_liability reserves prices) (ps_liabilities positions) []) (\<lambda>liabilities.
     Ok (largest_first collateral, largest_first liabilities)))"

text \<open>\<open>totals\<close>: raw and effective totals of a selection.\<close>

definition selection_totals :: "position_value list \<Rightarrow> (int \<times> int) math_result" where
  "selection_totals values =
     rfold (\<lambda>value (raw, effective).
       rbind (ok_or Overflow (checked_add raw (pv_raw value))) (\<lambda>raw.
       rbind (ok_or Overflow (checked_add effective (pv_effective value))) (\<lambda>effective.
       Ok (raw, effective)))) values (0, 0)"

text \<open>The last step of \<open>selection_percent\<close>, once the selection recovers something.\<close>

definition selection_share :: "int \<Rightarrow> int \<Rightarrow> int \<Rightarrow> int \<Rightarrow> int \<Rightarrow> nat math_result" where
  "selection_share excess raw_collateral raw_liabilities incentive denominator =
     rbind (mul_floor excess 100 denominator) (\<lambda>percent.
     let percent = (case u32_try_from percent of None \<Rightarrow> u32_max | Some n \<Rightarrow> n) in
     if 100 < percent then Ok percent
     else
       rbind (mul_floor raw_liabilities (int percent) 100) (\<lambda>taken.
       rbind (mul_floor taken incentive SCALAR_7) (\<lambda>withdrawn.
       if raw_collateral < withdrawn then Ok 0 else Ok (max percent 1))))"

definition selection_percent ::
  "int \<Rightarrow> position_value list \<Rightarrow> position_value list \<Rightarrow> int \<Rightarrow> nat math_result" where
  "selection_percent excess collateral liabilities target_health =
     rbind (selection_totals collateral) (\<lambda>(raw_collateral, effective_collateral).
     rbind (selection_totals liabilities) (\<lambda>(raw_liabilities, effective_liabilities).
     if raw_collateral = 0 \<or> raw_liabilities = 0 \<or> effective_liabilities = 0 then Ok 0
     else
       rbind (div_floor effective_collateral raw_collateral SCALAR_7) (\<lambda>cf.
       rbind (div_floor effective_liabilities raw_liabilities SCALAR_7) (\<lambda>lf.
       if cf = 0 \<or> lf = 0 then Ok 0
       else
         rbind (div_floor cf lf SCALAR_7) (\<lambda>ratio.
         rbind (ok_or Overflow (checked_sub SCALAR_7 ratio)) (\<lambda>gap.
         rbind (ok_or Overflow (checked_i128 (tdiv gap 2))) (\<lambda>half.
         rbind (ok_or Overflow (checked_add SCALAR_7 half)) (\<lambda>incentive.
         rbind (mul_floor lf target_health SCALAR_7) (\<lambda>kept.
         rbind (mul_floor incentive cf SCALAR_7) (\<lambda>paid.
         rbind (ok_or Overflow (checked_sub kept paid)) (\<lambda>recovered.
         if recovered \<le> 0 then Ok 101
         else
           rbind (mul_floor recovered raw_liabilities SCALAR_7) (\<lambda>denominator.
           if denominator \<le> 0 then Ok 101
           else selection_share excess raw_collateral raw_liabilities incentive denominator))))))))))))"

text \<open>The \<open>while\<close> loop of \<open>bounded_plan\<close>.\<close>

function trim_counts :: "nat \<Rightarrow> nat \<Rightarrow> nat \<Rightarrow> nat \<times> nat" where
  "trim_counts cap lot_count bid_count =
     (if cap < lot_count + bid_count then
        (if bid_count \<le> lot_count \<and> 1 < lot_count then trim_counts cap (lot_count - 1) bid_count
         else if 1 < bid_count then trim_counts cap lot_count (bid_count - 1)
         else (lot_count, bid_count))
      else (lot_count, bid_count))"
  by pat_completeness auto
termination
  by (relation "measure (\<lambda>(cap, l, b). l + b)") auto

definition bounded_plan ::
  "position_value list \<Rightarrow> position_value list \<Rightarrow> nat \<Rightarrow> nat \<Rightarrow> liquidation_plan math_result" where
  "bounded_plan collateral liabilities percent max_positions =
     (let cap = max max_positions 2;
          (lot_count, bid_count) = trim_counts cap (length collateral) (length liabilities)
      in rbind (ok_or (InvalidInput ''a percent outside 1..=100'')
                  (fill_percent_try_from (max 1 (min 100 percent)))) (\<lambda>percent.
         Ok \<lparr>lp_bid = map pv_asset (take bid_count liabilities),
             lp_lot = map pv_asset (take lot_count collateral),
             lp_percent = percent\<rparr>))"

text \<open>The \<open>loop\<close> of \<open>plan_liquidation\<close>: one more position joins on every turn.\<close>

function plan_walk ::
  "int \<Rightarrow> position_value list \<Rightarrow> position_value list \<Rightarrow> int \<Rightarrow> nat \<Rightarrow> nat \<Rightarrow> nat
   \<Rightarrow> liquidation_plan math_result" where
  "plan_walk excess collateral liabilities target_health max_positions lot_count bid_count =
     rbind (selection_percent excess (take lot_count collateral) (take bid_count liabilities) target_health)
       (\<lambda>percent.
     if 100 < percent then
       if bid_count < length liabilities
       then plan_walk excess collateral liabilities target_health max_positions lot_count (bid_count + 1)
       else if lot_count < length collateral
       then plan_walk excess collateral liabilities target_health max_positions (lot_count + 1) bid_count
       else bounded_plan collateral liabilities 100 max_positions
     else if percent = 0 then
       if lot_count < length collateral
       then plan_walk excess collateral liabilities target_health max_positions (lot_count + 1) bid_count
       else bounded_plan collateral liabilities 100 max_positions
     else bounded_plan (take lot_count collateral) (take bid_count liabilities) percent max_positions)"
  by pat_completeness auto
termination
  by (relation "measure (\<lambda>(e, c, l, t, m, lc, bc). (length c - lc) + (length l - bc))") auto

definition plan_liquidation ::
  "position_data \<Rightarrow> position_value list \<Rightarrow> position_value list \<Rightarrow> int \<Rightarrow> nat
   \<Rightarrow> liquidation_plan option math_result" where
  "plan_liquidation data collateral liabilities target_health max_positions =
     (if liabilities = [] \<or> collateral = [] then Ok None
      else
        rbind (mul_floor (pd_liability_base data) target_health SCALAR_7) (\<lambda>wanted.
        rbind (ok_or Overflow (checked_sub wanted (pd_collateral_base data))) (\<lambda>excess.
        if excess \<le> 0 then Ok None
        else rmap Some (plan_walk excess collateral liabilities target_health max_positions 1 1))))"

declare trim_counts.simps [simp del] plan_walk.simps [simp del]

section \<open>Trimming to the pool's cap\<close>

lemma trim_counts_bounds:
  assumes "trim_counts cap l b = (l', b')" "1 \<le> l" "1 \<le> b" "2 \<le> cap"
  shows "1 \<le> l' \<and> l' \<le> l \<and> 1 \<le> b' \<and> b' \<le> b \<and> l' + b' \<le> cap
    \<and> (l + b \<le> cap \<longrightarrow> l' = l \<and> b' = b)"
  using assms
proof (induction cap l b rule: trim_counts.induct)
  case (1 cap l b)
  show ?case
  proof (cases "cap < l + b")
    case False
    then show ?thesis using "1.prems" by (simp add: trim_counts.simps [of cap l b])
  next
    case True
    then consider "b \<le> l \<and> 1 < l" | "\<not> (b \<le> l \<and> 1 < l)" "1 < b" using "1.prems" by linarith
    then show ?thesis
    proof cases
      case 1
      with True "1.prems" "1.IH"(1) show ?thesis by (simp add: trim_counts.simps [of cap l b]) linarith
    next
      case 2
      with True "1.prems" "1.IH"(2) show ?thesis by (simp add: trim_counts.simps [of cap l b]) linarith
    qed
  qed
qed

text \<open>
  A plan drawn from the two sides: both named, in selection order, within the cap, and
  with a percent the contract accepts.
\<close>

definition plan_from :: "position_value list \<Rightarrow> position_value list \<Rightarrow> nat \<Rightarrow> liquidation_plan \<Rightarrow> bool" where
  "plan_from collateral liabilities max_positions pl \<longleftrightarrow>
     (\<exists>n m. 1 \<le> n \<and> n \<le> length collateral \<and> 1 \<le> m \<and> m \<le> length liabilities
        \<and> n + m \<le> max 2 max_positions
        \<and> lp_lot pl = map pv_asset (take n collateral) \<and> lp_bid pl = map pv_asset (take m liabilities))
     \<and> 1 \<le> fp_get (lp_percent pl) \<and> fp_get (lp_percent pl) \<le> 100"

lemma bounded_plan_total:
  assumes "collateral \<noteq> []" "liabilities \<noteq> []"
  shows "\<exists>pl. bounded_plan collateral liabilities percent max_positions = Ok pl
    \<and> plan_from collateral liabilities max_positions pl
    \<and> (1 \<le> percent \<longrightarrow> percent \<le> 100 \<longrightarrow> fp_get (lp_percent pl) = percent)"
proof -
  obtain n m where nm: "trim_counts (max max_positions 2) (length collateral) (length liabilities) = (n, m)"
    by fastforce
  have "1 \<le> length collateral" "1 \<le> length liabilities" using assms by (simp_all add: Suc_le_eq)
  from trim_counts_bounds [OF nm this] show ?thesis
    by (auto simp: bounded_plan_def nm plan_from_def fill_percent_try_from_def max.commute)
qed

lemma plan_from_take:
  assumes "plan_from (take i c) (take j l) mp pl"
  shows "plan_from c l mp pl"
proof -
  from assms obtain n m where nm: "1 \<le> n" "n \<le> min (length c) i" "1 \<le> m" "m \<le> min (length l) j"
    "n + m \<le> max 2 mp" "lp_lot pl = map pv_asset (take n (take i c))"
    "lp_bid pl = map pv_asset (take m (take j l))"
    and pct: "1 \<le> fp_get (lp_percent pl)" "fp_get (lp_percent pl) \<le> 100"
    by (auto simp: plan_from_def)
  have "lp_lot pl = map pv_asset (take n c)" "lp_bid pl = map pv_asset (take m l)"
    using nm by (simp_all add: min_absorb1)
  with nm pct show ?thesis unfolding plan_from_def by (metis min.bounded_iff)
qed

section \<open>The walk\<close>

text \<open>
  How a plan came about: a selection whose own percent is one the contract accepts, or the
  whole position at 100 once a selection with every collateral asset could not close it.
\<close>

definition chosen ::
  "int \<Rightarrow> position_value list \<Rightarrow> position_value list \<Rightarrow> int \<Rightarrow> nat \<Rightarrow> liquidation_plan \<Rightarrow> bool" where
  "chosen excess c l target mp pl \<longleftrightarrow>
     (\<exists>i j p. 1 \<le> i \<and> i \<le> length c \<and> 1 \<le> j \<and> j \<le> length l
        \<and> selection_percent excess (take i c) (take j l) target = Ok p \<and> 1 \<le> p \<and> p \<le> 100
        \<and> bounded_plan (take i c) (take j l) p mp = Ok pl)
   \<or> (\<exists>j p. 1 \<le> j \<and> j \<le> length l \<and> selection_percent excess c (take j l) target = Ok p
        \<and> (p = 0 \<or> 100 < p \<and> j = length l) \<and> bounded_plan c l 100 mp = Ok pl)"

lemma plan_walk_step:
  assumes "selection_percent excess (take i c) (take j l) target = Ok p"
  shows "plan_walk excess c l target mp i j =
    (if 100 < p then
       if j < length l then plan_walk excess c l target mp i (j + 1)
       else if i < length c then plan_walk excess c l target mp (i + 1) j
       else bounded_plan c l 100 mp
     else if p = 0 then
       if i < length c then plan_walk excess c l target mp (i + 1) j
       else bounded_plan c l 100 mp
     else bounded_plan (take i c) (take j l) p mp)"
  by (subst plan_walk.simps) (simp only: assms rbind_Ok)

lemma plan_walk_chosen:
  assumes "plan_walk excess c l target mp i j = Ok pl"
    and "1 \<le> i" "i \<le> length c" "1 \<le> j" "j \<le> length l"
  shows "chosen excess c l target mp pl"
  using assms
proof (induction excess c l target mp i j rule: plan_walk.induct)
  case (1 excess c l target mp i j)
  from "1.prems"(1) obtain p where p: "selection_percent excess (take i c) (take j l) target = Ok p"
    by (subst (asm) plan_walk.simps) auto
  note step = "1.prems"(1) [unfolded plan_walk_step [OF p]]
  consider (lib) "100 < p" "j < length l" | (lot) "100 < p \<or> p = 0" "p = 0 \<or> j = length l" "i < length c"
    | (all) "100 < p \<or> p = 0" "p = 0 \<or> j = length l" "i = length c" | (here) "1 \<le> p" "p \<le> 100"
    using "1.prems" by linarith
  then show ?case
  proof cases
    case lib
    with step "1.prems" "1.IH"(1) [OF p] show ?thesis by simp
  next
    case lot
    with step "1.prems" "1.IH"(2) [OF p] "1.IH"(3) [OF p] show ?thesis by (auto split: if_splits)
  next
    case all
    with step have "bounded_plan c l 100 mp = Ok pl" by (auto split: if_splits)
    moreover have "selection_percent excess c (take j l) target = Ok p" using p all by simp
    ultimately show ?thesis using all "1.prems" unfolding chosen_def by blast
  next
    case here
    with step have "bounded_plan (take i c) (take j l) p mp = Ok pl" by simp
    with here p "1.prems" show ?thesis unfolding chosen_def by blast
  qed
qed

lemma chosen_plan_from:
  assumes "chosen excess c l target mp pl" "c \<noteq> []" "l \<noteq> []"
  shows "plan_from c l mp pl"
proof -
  from assms(1) obtain i j p where ij: "1 \<le> i" "1 \<le> j" and
    pl: "bounded_plan (take i c) (take j l) p mp = Ok pl"
    unfolding chosen_def using assms(2,3)
    by (metis One_nat_def Suc_leI length_greater_0_conv order.refl take_all)
  have "take i c \<noteq> []" "take j l \<noteq> []" using ij assms(2,3) by simp_all
  from bounded_plan_total [OF this, of p mp] pl have "plan_from (take i c) (take j l) mp pl" by auto
  then show ?thesis by (rule plan_from_take)
qed

section \<open>Valuing the positions one by one\<close>

abbreviation raw_total :: "position_value list \<Rightarrow> int" where
  "raw_total vs \<equiv> \<Sum>v\<leftarrow>vs. pv_raw v"

abbreviation effective_total :: "position_value list \<Rightarrow> int" where
  "effective_total vs \<equiv> \<Sum>v\<leftarrow>vs. pv_effective v"

text \<open>
  What the two valuation loops share: a zero entry is skipped, any other entry appends the
  value the position valuation gives it.
\<close>

locale valuation_loop =
  fixes push :: "nat \<times> int \<Rightarrow> position_value list \<Rightarrow> position_value list math_result"
    and entry_value :: "nat \<times> int \<Rightarrow> (int \<times> int) math_result"
    and rs :: "(nat, reserve) btree"
  assumes push_zero: "push (i, 0) acc = Ok acc"
    and value_zero: "entry_value (i, 0) = Ok (0, 0)"
    and push_step: "a \<noteq> 0 \<Longrightarrow> push (i, a) acc = Ok acc' \<Longrightarrow>
      \<exists>r v. bt_get rs i = Some r \<and> acc' = acc @ [v] \<and> pv_index v = i \<and> pv_asset v = rs_asset r
        \<and> entry_value (i, a) = Ok (pv_effective v, pv_raw v)"
begin

definition lists :: "(nat \<times> int) list \<Rightarrow> position_value list \<Rightarrow> bool" where
  "lists es vs \<longleftrightarrow> valued entry_value es \<and> map pv_index vs = map fst (filter (\<lambda>e. snd e \<noteq> 0) es)
     \<and> effective_total vs = base_sum entry_value es \<and> raw_total vs = raw_sum entry_value es
     \<and> (\<forall>v \<in> set vs. \<exists>r. bt_get rs (pv_index v) = Some r \<and> pv_asset v = rs_asset r)"

lemma lists_zero: "lists es vs \<Longrightarrow> lists ((i, 0) # es) vs"
  by (simp add: lists_def value_zero)

lemma lists_step:
  assumes "lists es vs" "a \<noteq> 0" "bt_get rs (pv_index v) = Some r" "pv_asset v = rs_asset r"
    "entry_value (pv_index v, a) = Ok (pv_effective v, pv_raw v)"
  shows "lists ((pv_index v, a) # es) (v # vs)"
  using assms by (simp add: lists_def)

lemma push_loop: "rfold push es acc = Ok acc' \<Longrightarrow> \<exists>vs. acc' = acc @ vs \<and> lists es vs"
proof (induction es arbitrary: acc)
  case Nil
  then show ?case by (simp add: lists_def)
next
  case (Cons e es)
  obtain i a where e: "e = (i, a)" by (cases e)
  from Cons.prems obtain acc1 where p: "push e acc = Ok acc1" and rest: "rfold push es acc1 = Ok acc'" by auto
  from Cons.IH [OF rest] obtain vs where vs: "acc' = acc1 @ vs" "lists es vs" by blast
  show ?case
  proof (cases "a = 0")
    case True
    with p e vs show ?thesis using lists_zero by (auto simp: push_zero)
  next
    case False
    from push_step [OF False p [unfolded e]] obtain r v where v: "bt_get rs i = Some r" "acc1 = acc @ [v]"
      "pv_index v = i" "pv_asset v = rs_asset r" "entry_value (i, a) = Ok (pv_effective v, pv_raw v)" by blast
    with lists_step [OF vs(2) False, of v r] vs e show ?thesis by auto
  qed
qed

end

interpretation cv: valuation_loop "push_collateral rs p" "collateral_value rs p" rs for rs p
  by unfold_locales (auto simp: push_collateral_def collateral_value_def)

interpretation lv: valuation_loop "push_liability rs p" "liability_value rs p" rs for rs p
  by unfold_locales (auto simp: push_liability_def liability_value_def)

lemma mset_sum_list_cong:
  fixes f :: "'a \<Rightarrow> int"
  shows "mset xs = mset ys \<Longrightarrow> (\<Sum>x\<leftarrow>xs. f x) = (\<Sum>x\<leftarrow>ys. f x)"
  by (metis mset_map sum_mset_sum_list)

lemma largest_first_totals:
  "mset (largest_first vs) = mset vs" "effective_total (largest_first vs) = effective_total vs"
  "raw_total (largest_first vs) = raw_total vs"
  using mset_sum_list_cong [of "largest_first vs" vs] by (simp_all add: largest_first_def)

lemma largest_first_sorted:
  "sorted_wrt (\<lambda>v w. pv_effective w < pv_effective v
      \<or> pv_effective w = pv_effective v \<and> pv_index v \<le> pv_index w) (largest_first vs)"
proof -
  have "sorted (map (\<lambda>v. (- pv_effective v, pv_index v)) (largest_first vs))"
    by (simp add: largest_first_def)
  then show ?thesis
    by (auto simp: sorted_map less_eq_prod_def elim!: sorted_wrt_mono_rel [rotated])
qed

lemma largest_first_lists:
  "mset (map pv_index (largest_first vs)) = mset (map pv_index vs)"
  "set (largest_first vs) = set vs"
  by (simp_all add: largest_first_def)

section \<open>The percent of a selection\<close>

lemma selection_totals_Ok:
  assumes "selection_totals vs = Ok (r, e)"
  shows "r = raw_total vs \<and> e = effective_total vs"
proof -
  have "rfold (\<lambda>v (raw, effective).
       rbind (ok_or Overflow (checked_add raw (pv_raw v))) (\<lambda>raw.
       rbind (ok_or Overflow (checked_add effective (pv_effective v))) (\<lambda>effective.
       Ok (raw, effective)))) vs (r0, e0) = Ok (r, e) \<Longrightarrow>
     r = r0 + raw_total vs \<and> e = e0 + effective_total vs" for r0 e0
  proof (induction vs arbitrary: r0 e0)
    case (Cons v vs)
    from Cons.prems show ?case using Cons.IH [of "r0 + pv_raw v" "e0 + pv_effective v"] by auto
  qed simp
  from this [of 0 0] assms show ?thesis by (simp add: selection_totals_def)
qed

text \<open>The reference the percent is stated against, over exact integers.\<close>

definition side_factor :: "position_value list \<Rightarrow> int" where
  "side_factor vs = effective_total vs * SCALAR_7 div raw_total vs"

definition selection_incentive :: "position_value list \<Rightarrow> position_value list \<Rightarrow> int" where
  "selection_incentive c l = SCALAR_7 + tdiv (SCALAR_7 - side_factor c * SCALAR_7 div side_factor l) 2"

definition selection_recovery :: "position_value list \<Rightarrow> position_value list \<Rightarrow> int \<Rightarrow> int" where
  "selection_recovery c l target =
     (side_factor l * target div SCALAR_7 - selection_incentive c l * side_factor c div SCALAR_7)
       * raw_total l div SCALAR_7"

definition values_ok :: "position_value list \<Rightarrow> bool" where
  "values_ok vs \<longleftrightarrow> (\<forall>v \<in> set vs. 0 \<le> pv_raw v \<and> 0 \<le> pv_effective v)"

lemma values_ok_totals: "values_ok vs \<Longrightarrow> 0 \<le> raw_total vs \<and> 0 \<le> effective_total vs"
  by (auto simp: values_ok_def intro!: sum_list_nonneg)

lemma side_factor_nonneg: "values_ok vs \<Longrightarrow> 0 \<le> side_factor vs"
  using values_ok_totals [of vs] by (simp add: side_factor_def pos_imp_zdiv_nonneg_iff div_int_pos_iff)

lemma selection_share_closed_form:
  assumes "selection_share excess rc rl incentive d = Ok p" "1 \<le> p" "p \<le> 100" "0 < d"
  shows "int p = max 1 (excess * 100 div d)
    \<and> (rl * (excess * 100 div d) div 100) * incentive div SCALAR_7 \<le> rc"
proof -
  from assms obtain n where n: "u32_try_from (excess * 100 div d) = Some n" "n \<le> 100" "p = max n 1"
    and w: "(rl * int n div 100) * incentive div SCALAR_7 \<le> rc"
    by (auto simp: selection_share_def Let_def fixed_Ok_iff not_less u32_max_def
        split: option.splits if_splits)
  then have "excess * 100 div d = int n" by simp
  with n(3) w show ?thesis by (auto simp: max_def)
qed

lemma selection_percent_closed_form:
  assumes sp: "selection_percent excess c l target = Ok p" and p: "1 \<le> p" "p \<le> 100"
    and ok: "values_ok c" "values_ok l"
  shows "0 < selection_recovery c l target
    \<and> int p = max 1 (excess * 100 div selection_recovery c l target)
    \<and> (raw_total l * (excess * 100 div selection_recovery c l target) div 100)
        * selection_incentive c l div SCALAR_7 \<le> raw_total c"
proof -
  let ?rl = "raw_total l" and ?rc = "raw_total c" and ?cf = "side_factor c" and ?lf = "side_factor l"
  let ?i = "selection_incentive c l" and ?d = "selection_recovery c l target"
  from sp obtain rc ec rl el where "selection_totals c = Ok (rc, ec)" "selection_totals l = Ok (rl, el)"
    by (auto simp: selection_percent_def)
  with selection_totals_Ok have t: "selection_totals c = Ok (?rc, effective_total c)"
    "selection_totals l = Ok (?rl, effective_total l)" by blast+
  note body = sp [unfolded selection_percent_def t rbind_Ok prod.case]
  from body p have guard: "?rc \<noteq> 0" "?rl \<noteq> 0" "effective_total l \<noteq> 0" by (auto split: if_splits)
  then have pos: "0 < ?rc" "0 < ?rl" using values_ok_totals ok by (simp_all add: order_less_le)
  obtain cf lf where f: "div_floor (effective_total c) ?rc SCALAR_7 = Ok cf"
    "div_floor (effective_total l) ?rl SCALAR_7 = Ok lf" using body guard by (auto split: if_splits)
  then have f': "cf = ?cf" "lf = ?lf" using pos by (simp_all add: fixed_Ok_iff side_factor_def)
  note body = body [unfolded f f' rbind_Ok]
  from body p guard have nz: "?cf \<noteq> 0" "?lf \<noteq> 0" by (auto split: if_splits)
  then have lf: "0 < ?lf" using side_factor_nonneg [OF ok(2)] by simp
  from body guard nz obtain ratio kept paid where "div_floor ?cf ?lf SCALAR_7 = Ok ratio"
    "mul_floor ?lf target SCALAR_7 = Ok kept"
    "mul_floor (SCALAR_7 + tdiv (SCALAR_7 - ratio) 2) ?cf SCALAR_7 = Ok paid"
    and b3: "(if kept - paid \<le> 0 then Ok 101
         else
           rbind (mul_floor (kept - paid) ?rl SCALAR_7) (\<lambda>denominator.
           if denominator \<le> 0 then Ok 101
           else selection_share excess ?rc ?rl (SCALAR_7 + tdiv (SCALAR_7 - ratio) 2) denominator)) = Ok p"
    by (simp only: if_False simp_thms rbind_eq_Ok ok_or_eq_Ok checked_sub_eq_Some checked_add_eq_Some checked_i128_eq_Some) blast
  then have i: "?i = SCALAR_7 + tdiv (SCALAR_7 - ratio) 2" "kept = ?lf * target div SCALAR_7"
    "paid = ?i * ?cf div SCALAR_7" using lf by (simp_all add: selection_incentive_def fixed_Ok_iff)
  from b3 p obtain d where d: "0 < d" "mul_floor (kept - paid) ?rl SCALAR_7 = Ok d" and 
    share: "selection_share excess ?rc ?rl ?i d = Ok p"
    unfolding i(1) by (auto simp: not_le split: if_splits)
  have "d = ?d" using d(2) i(2,3) by (simp add: fixed_Ok_iff selection_recovery_def)
  with selection_share_closed_form [OF share p d(1)] d(1) show ?thesis by simp
qed

section \<open>The planner's outcomes\<close>

lemma plan_liquidation_None:
  "plan_liquidation data c l target mp = Ok None \<longleftrightarrow>
    l = [] \<or> c = [] \<or> (\<exists>w. mul_floor (pd_liability_base data) target SCALAR_7 = Ok w
      \<and> in_i128 (w - pd_collateral_base data) \<and> w \<le> pd_collateral_base data)"
  by (auto simp: plan_liquidation_def)

lemma plan_liquidation_Some:
  assumes "plan_liquidation data c l target mp = Ok (Some pl)"
    and "excess = pd_liability_base data * target div SCALAR_7 - pd_collateral_base data"
  shows "0 < excess \<and> plan_from c l mp pl \<and> chosen excess c l target mp pl"
proof -
  have ne: "c \<noteq> []" "l \<noteq> []" using assms(1) by (auto simp: plan_liquidation_def)
  then have "1 \<le> length c" "1 \<le> length l" by (simp_all add: Suc_le_eq)
  moreover have "0 < excess" "plan_walk excess c l target mp 1 1 = Ok pl"
    using assms ne by (auto simp: plan_liquidation_def fixed_Ok_iff split: if_splits)
  ultimately have "chosen excess c l target mp pl" using plan_walk_chosen by auto
  with ne \<open>0 < excess\<close> show ?thesis using chosen_plan_from by blast
qed

lemma position_values_sides:
  assumes "position_values rs p ps = Ok (c, l)"
  shows "\<exists>c' l'. c = largest_first c' \<and> l = largest_first l'
    \<and> cv.lists rs p (ps_collateral ps) c' \<and> lv.lists rs p (ps_liabilities ps) l'"
  using assms cv.push_loop [of rs p "ps_collateral ps" "[]"] lv.push_loop [of rs p "ps_liabilities ps" "[]"]
  by (auto simp: position_values_def)

section \<open>Properties\<close>

text \<open>
  C10. The auction planner returns nothing exactly when a side is empty or the effective
  collateral already reaches the target, and otherwise every plan it returns is one the pool
  can accept: both sides named, a prefix of the largest-first order, no more assets than the
  pool's cap, a percent between 1 and 100, and chosen by the walk: the selection's own
  percent, or the whole position at 100 when a selection with every collateral asset could
  not close the excess.
\<close>

theorem plan_liquidation_sound:
  "(plan_liquidation data c l target mp = Ok None \<longleftrightarrow>
      l = [] \<or> c = [] \<or> (\<exists>w. mul_floor (pd_liability_base data) target SCALAR_7 = Ok w
        \<and> in_i128 (w - pd_collateral_base data) \<and> w \<le> pd_collateral_base data))
   \<and> (plan_liquidation data c l target mp = Ok (Some pl) \<longrightarrow>
      (let excess = pd_liability_base data * target div SCALAR_7 - pd_collateral_base data in
       0 < excess \<and> plan_from c l mp pl \<and> chosen excess c l target mp pl))"
  unfolding Let_def
  by (intro conjI [OF plan_liquidation_None] impI plan_liquidation_Some [OF _ refl])

definition sample_data :: position_data where
  "sample_data = \<lparr>pd_collateral_base = 90 * 10 ^ 7, pd_collateral_raw = 100 * 10 ^ 7,
     pd_liability_base = 95 * 10 ^ 7, pd_liability_raw = 90 * 10 ^ 7, pd_scalar = 10 ^ 7\<rparr>"

definition sample_collateral :: "position_value list" where
  "sample_collateral = [\<lparr>pv_index = 0, pv_asset = ''XLM'', pv_raw = 100 * 10 ^ 7, pv_effective = 90 * 10 ^ 7\<rparr>]"

definition sample_liabilities :: "position_value list" where
  "sample_liabilities = [\<lparr>pv_index = 1, pv_asset = ''USDC'', pv_raw = 90 * 10 ^ 7, pv_effective = 95 * 10 ^ 7\<rparr>]"

lemmas sample_plan_defs = sample_data_def sample_collateral_def sample_liabilities_def

lemmas liquidation_evals [eval_simps] = fill_percent_try_from_def selection_totals_def selection_share_def
  selection_percent_def bounded_plan_def plan_liquidation_def

theorem plan_liquidation_sound_witness:
  "plan_liquidation sample_data sample_collateral sample_liabilities 10600000 12
     = Ok (Some \<lparr>lp_bid = [''USDC''], lp_lot = [''XLM''], lp_percent = FillPercent 77\<rparr>)
   \<and> plan_from sample_collateral sample_liabilities 12
       \<lparr>lp_bid = [''USDC''], lp_lot = [''XLM''], lp_percent = FillPercent 77\<rparr>"
proof -
  have ev: "plan_liquidation sample_data sample_collateral sample_liabilities 10600000 12
     = Ok (Some \<lparr>lp_bid = [''USDC''], lp_lot = [''XLM''], lp_percent = FillPercent 77\<rparr>)"
    by (simp add: sample_plan_defs eval_simps Let_def plan_walk.simps trim_counts.simps)
  with plan_liquidation_sound [of sample_data sample_collateral sample_liabilities 10600000 12]
  show ?thesis by (simp add: Let_def)
qed

text \<open>
  The comment above the final return reads \<open>Both sides are exhausted\<close>, and the function's
  documentation \<open>When neither side has anything left to add\<close>. The code takes the whole
  position already when the collateral alone is exhausted: here the only collateral
  counts for nothing (a collateral factor of zero), and the second liability joins without
  ever having been tried.
\<close>

lemma collateral_exhausted_takes_all:
  "let c = [\<lparr>pv_index = 0, pv_asset = ''XLM'', pv_raw = 10 * 10 ^ 7, pv_effective = 0\<rparr>];
       l = sample_liabilities @ [\<lparr>pv_index = 2, pv_asset = ''EURC'', pv_raw = 5 * 10 ^ 7, pv_effective = 5 * 10 ^ 7\<rparr>];
       data = \<lparr>pd_collateral_base = 0, pd_collateral_raw = 10 * 10 ^ 7,
               pd_liability_base = 100 * 10 ^ 7, pd_liability_raw = 95 * 10 ^ 7, pd_scalar = 10 ^ 7\<rparr>
   in selection_percent (106 * 10 ^ 7) c (take 1 l) 10600000 = Ok 0
    \<and> plan_liquidation data c l 10600000 12
       = Ok (Some \<lparr>lp_bid = [''USDC'', ''EURC''], lp_lot = [''XLM''], lp_percent = FillPercent 100\<rparr>)"
  by (simp add: sample_plan_defs eval_simps Let_def plan_walk.simps trim_counts.simps)



text \<open>
  C12. The auctioneer and the health factor see the same position: the values listed sum to
  exactly the four totals \<open>calculate_position_data\<close> computes, one for every non-zero entry
  and no other, each naming its reserve's asset, in the order the selection walks (largest
  effective value first, ties by reserve index).
\<close>

theorem position_values_agree:
  assumes "position_values rs p ps = Ok (c, l)" "calculate_position_data rs p ps = Ok d"
  shows "effective_total c = pd_collateral_base d \<and> raw_total c = pd_collateral_raw d
    \<and> effective_total l = pd_liability_base d \<and> raw_total l = pd_liability_raw d
    \<and> mset (map pv_index c) = mset (map fst (filter (\<lambda>e. snd e \<noteq> 0) (ps_collateral ps)))
    \<and> mset (map pv_index l) = mset (map fst (filter (\<lambda>e. snd e \<noteq> 0) (ps_liabilities ps)))
    \<and> (\<forall>v \<in> set c \<union> set l. \<exists>r. bt_get rs (pv_index v) = Some r \<and> pv_asset v = rs_asset r)
    \<and> (\<forall>vs \<in> {c, l}. sorted_wrt (\<lambda>v w. pv_effective w < pv_effective v
        \<or> pv_effective w = pv_effective v \<and> pv_index v \<le> pv_index w) vs)"
proof -
  from position_values_sides [OF assms(1)] obtain c' l' where cl: "c = largest_first c'" "l = largest_first l'"
    and lists: "cv.lists rs p (ps_collateral ps) c'" "lv.lists rs p (ps_liabilities ps) l'" by blast
  from calculate_position_data_sums [OF assms(2)] lists show ?thesis
    unfolding cl cv.lists_def lv.lists_def largest_first_lists largest_first_totals
    by (simp add: largest_first_sorted) blast
qed

theorem position_values_agree_witness:
  "(case (position_values sample_reserves sample_prices sample_positions,
          calculate_position_data sample_reserves sample_prices sample_positions) of
      (Ok (c, l), Ok d) \<Rightarrow> effective_total c = 99000000 \<and> pd_collateral_base d = 99000000
        \<and> effective_total l = pd_liability_base d
    | _ \<Rightarrow> False)"
proof -
  let ?c = "[\<lparr>pv_index = 0, pv_asset = ''XLM'', pv_raw = 110000000, pv_effective = 99000000\<rparr>]"
  let ?l = "[\<lparr>pv_index = 1, pv_asset = ''USDC'', pv_raw = 60000000, pv_effective = 66666667\<rparr>]"
  let ?d = "\<lparr>pd_collateral_base = 99000000, pd_collateral_raw = 110000000,
            pd_liability_base = 66666667, pd_liability_raw = 60000000, pd_scalar = 10 ^ 7\<rparr>"
  have pv: "position_values sample_reserves sample_prices sample_positions = Ok (?c, ?l)"
    by (simp add: sample_pool_defs eval_simps position_values_def push_collateral_def
        push_liability_def largest_first_def)
  have pd: "calculate_position_data sample_reserves sample_prices sample_positions = Ok ?d"
    by (simp add: sample_pool_defs eval_simps)
  from position_values_agree [OF pv pd] show ?thesis unfolding pv pd by simp
qed

end
