(* ===== verification/Sc_Val.thy ===== *)
theory Sc_Val
  imports Liquidation "HOL-Library.Word"
begin

text \<open>
  \<open>src/chain/xdr/mod.rs\<close> and \<open>src/chain/xdr/encode.rs\<close>: the contract's values, the errors of
  the codec, and the values the bot builds. \<open>scval\<close> has the constructors of
  \<open>stellar_xdr::ScVal\<close> the sources match on; an address is its strkey text, a symbol and a string
  are what \<open>to_utf8_string_lossy\<close> gives for them, and an \<open>i128\<close> is its two halves.
  Parsing a strkey and the host's order on map keys belong to \<open>stellar_xdr\<close> and are the record
  \<open>xdr_lib\<close>. The rendering of an unexpected value in an error is not modelled.
\<close>

unbundle bit_operations_syntax

section \<open>Definitions\<close>

datatype scval =
    ScVoid
  | ScBool bool
  | ScU32 nat
  | ScU64 nat
  | ScI128 "64 word" "64 word"
  | ScSymbol string
  | ScString string
  | ScAddress string
  | ScVec "scval list option"
  | ScMap "(scval \<times> scval) list option"
  | ScContractInstance "(scval \<times> scval) list option"
  | ScContractError nat
  | ScOther string

datatype xdr_error =
    XdrLib string
  | XdrAddress string
  | XdrSymbol string
  | XdrShape string
  | XdrMissingField string
  | XdrMath math_error

type_synonym 'a xdr_result = "(xdr_error, 'a) result"

definition xdr_lib_result :: "(string, 'a) result \<Rightarrow> 'a xdr_result" where
  "xdr_lib_result r = (case r of Inl e \<Rightarrow> Err (XdrLib e) | Inr x \<Rightarrow> Ok x)"

record xdr_lib =
  xl_address :: "string \<Rightarrow> (string, string) result"
  xl_sorted :: "(scval \<times> scval) list \<Rightarrow> (string, (scval \<times> scval) list) result"

text \<open>\<open>iter().map(f).collect::<Result<Vec<_>, _>>()\<close>.\<close>

fun rmap_list :: "('a \<Rightarrow> ('e, 'b) result) \<Rightarrow> 'a list \<Rightarrow> ('e, 'b list) result" where
  "rmap_list f [] = Ok []"
| "rmap_list f (x # xs) = rbind (f x) (\<lambda>y. rbind (rmap_list f xs) (\<lambda>ys. Ok (y # ys)))"

subsection \<open>Auction types\<close>

datatype auction_type = UserLiquidation | BadDebtAuction | InterestAuction

fun auction_type_code :: "auction_type \<Rightarrow> nat" where
  "auction_type_code UserLiquidation = 0"
| "auction_type_code BadDebtAuction = 1"
| "auction_type_code InterestAuction = 2"

definition auction_type_try_from :: "nat \<Rightarrow> auction_type xdr_result" where
  "auction_type_try_from v =
     (if v = 0 then Ok UserLiquidation
      else if v = 1 then Ok BadDebtAuction
      else if v = 2 then Ok InterestAuction
      else Err (XdrShape ''auction type 0..=2''))"

subsection \<open>Building values\<close>

text \<open>A symbol holds at most 32 bytes, a vector at most \<open>u32::MAX\<close> items.\<close>

definition symbol :: "string \<Rightarrow> scval xdr_result" where
  "symbol text = (if length text \<le> 32 then Ok (ScSymbol text) else Err (XdrSymbol text))"

definition sc_address :: "xdr_lib \<Rightarrow> string \<Rightarrow> string xdr_result" where
  "sc_address lib strkey = xdr_lib_result (xl_address lib strkey)"

definition address :: "xdr_lib \<Rightarrow> string \<Rightarrow> scval xdr_result" where
  "address lib strkey = rbind (sc_address lib strkey) (\<lambda>a. Ok (ScAddress a))"

definition sc_vec :: "scval list \<Rightarrow> scval xdr_result" where
  "sc_vec items = (if length items \<le> u32_max then Ok (ScVec (Some items)) else Err (XdrLib ''length exceeds max''))"

definition sc_map :: "xdr_lib \<Rightarrow> (scval \<times> scval) list \<Rightarrow> scval xdr_result" where
  "sc_map lib entries = rbind (xdr_lib_result (xl_sorted lib entries)) (\<lambda>entries. Ok (ScMap (Some entries)))"

text \<open>\<open>ScVal::from(i128)\<close>: a signed high half and an unsigned low half.\<close>

definition i128_val :: "int \<Rightarrow> scval" where
  "i128_val v = ScI128 (word_of_int (drop_bit 64 v)) (word_of_int v)"

definition stellar_asset :: "xdr_lib \<Rightarrow> string \<Rightarrow> scval xdr_result" where
  "stellar_asset lib asset =
     rbind (symbol ''Stellar'') (\<lambda>s. rbind (address lib asset) (\<lambda>a. sc_vec [s, a]))"

record contract_call =
  cc_contract :: string
  cc_function :: string
  cc_args :: "scval list"

definition invoke_contract_op :: "xdr_lib \<Rightarrow> string \<Rightarrow> string \<Rightarrow> scval list \<Rightarrow> contract_call xdr_result" where
  "invoke_contract_op lib contract function args =
     rbind (symbol function) (\<lambda>name.
     case name of
       ScSymbol function_name \<Rightarrow>
         rbind (sc_address lib contract) (\<lambda>contract_address.
         if length args \<le> u32_max then
           Ok \<lparr>cc_contract = contract_address, cc_function = function_name, cc_args = args\<rparr>
         else Err (XdrLib ''length exceeds max''))
     | _ \<Rightarrow> Err (XdrSymbol function))"

subsection \<open>Requests\<close>

datatype request_type =
    ReqSupply
  | ReqWithdraw
  | ReqSupplyCollateral
  | ReqWithdrawCollateral
  | ReqBorrow
  | ReqRepay
  | FillUserLiquidationAuction
  | FillBadDebtAuction
  | FillInterestAuction
  | DeleteLiquidationAuction

fun request_type_code :: "request_type \<Rightarrow> nat" where
  "request_type_code ReqSupply = 0"
| "request_type_code ReqWithdraw = 1"
| "request_type_code ReqSupplyCollateral = 2"
| "request_type_code ReqWithdrawCollateral = 3"
| "request_type_code ReqBorrow = 4"
| "request_type_code ReqRepay = 5"
| "request_type_code FillUserLiquidationAuction = 6"
| "request_type_code FillBadDebtAuction = 7"
| "request_type_code FillInterestAuction = 8"
| "request_type_code DeleteLiquidationAuction = 9"

record pool_request =
  pr_request_type :: request_type
  pr_address :: string
  pr_amount :: int

definition request :: "xdr_lib \<Rightarrow> pool_request \<Rightarrow> scval xdr_result" where
  "request lib req =
     rbind (symbol ''address'') (\<lambda>k1.
     rbind (address lib (pr_address req)) (\<lambda>a.
     rbind (symbol ''amount'') (\<lambda>k2.
     rbind (symbol ''request_type'') (\<lambda>k3.
     sc_map lib [(k1, a), (k2, i128_val (pr_amount req)), (k3, ScU32 (request_type_code (pr_request_type req)))]))))"

definition request_fill :: "request_type \<Rightarrow> string \<Rightarrow> fill_percent \<Rightarrow> pool_request xdr_result" where
  "request_fill ty user percent =
     (if ty \<in> {FillUserLiquidationAuction, FillBadDebtAuction, FillInterestAuction} then
        Ok \<lparr>pr_request_type = ty, pr_address = user, pr_amount = int (fp_get percent)\<rparr>
      else Err (XdrShape ''a fill request type''))"

subsection \<open>The pool's calls\<close>

text \<open>\<open>submit_op\<close>, \<open>new_auction_op\<close> and \<open>bad_debt_op\<close> of \<open>src/chain/pool.rs\<close>.\<close>

definition submit_op :: "xdr_lib \<Rightarrow> string \<Rightarrow> string \<Rightarrow> string \<Rightarrow> string \<Rightarrow> pool_request list \<Rightarrow> contract_call xdr_result" where
  "submit_op lib pool from spender to requests =
     rbind (rmap_list (request lib) requests) (\<lambda>requests.
     rbind (address lib from) (\<lambda>f.
     rbind (address lib spender) (\<lambda>s.
     rbind (address lib to) (\<lambda>t.
     rbind (sc_vec requests) (\<lambda>r.
     invoke_contract_op lib pool ''submit'' [f, s, t, r])))))"

definition addresses :: "xdr_lib \<Rightarrow> string list \<Rightarrow> scval xdr_result" where
  "addresses lib assets = rbind (rmap_list (address lib) assets) sc_vec"

definition new_auction_op ::
  "xdr_lib \<Rightarrow> string \<Rightarrow> string \<Rightarrow> string list \<Rightarrow> string list \<Rightarrow> fill_percent \<Rightarrow> contract_call xdr_result" where
  "new_auction_op lib pool user bid lot percent =
     rbind (address lib user) (\<lambda>u.
     rbind (addresses lib bid) (\<lambda>b.
     rbind (addresses lib lot) (\<lambda>l.
     invoke_contract_op lib pool ''new_auction''
       [ScU32 (auction_type_code UserLiquidation), u, b, l, ScU32 (fp_get percent)])))"

definition bad_debt_op :: "xdr_lib \<Rightarrow> string \<Rightarrow> string \<Rightarrow> contract_call xdr_result" where
  "bad_debt_op lib pool user = rbind (address lib user) (\<lambda>u. invoke_contract_op lib pool ''bad_debt'' [u])"

section \<open>Lemmas\<close>

lemma auction_type_roundtrip [simp]: "auction_type_try_from (auction_type_code t) = Ok t"
  by (cases t) (simp_all add: auction_type_try_from_def)

lemma auction_type_try_from_Ok: "auction_type_try_from v = Ok t \<longleftrightarrow> v = auction_type_code t"
  by (cases t) (auto simp: auction_type_try_from_def)

lemma auction_type_code_inj [simp]: "auction_type_code s = auction_type_code t \<longleftrightarrow> s = t"
  by (cases s; cases t) simp_all

lemma rmap_list_Ok: "rmap_list f xs = Ok ys \<longleftrightarrow> length ys = length xs \<and> (\<forall>i < length xs. f (xs ! i) = Ok (ys ! i))"
proof (induction xs arbitrary: ys)
  case (Cons x xs)
  show ?case
    by (cases ys; cases "f x") (auto simp: Cons.IH All_less_Suc2 rbind_eq_Ok)
qed auto

lemma rmap_list_map: "(\<And>x. x \<in> set xs \<Longrightarrow> f (g x) = Ok (h x)) \<Longrightarrow> rmap_list f (map g xs) = Ok (map h xs)"
  by (induction xs) simp_all

end
