(* ===== verification/Chain_Rpc.thy ===== *)
theory Chain_Rpc
  imports Sc_Val
begin

text \<open>
  \<open>src/chain/mod.rs\<close> and the part of \<open>src/chain/rpc.rs\<close> the write path runs through:
  the error type, transaction hashes, one JSON-RPC call, and the decoding of
  \<open>simulateTransaction\<close>, \<open>sendTransaction\<close> and \<open>getTransaction\<close>.

  What is not this repository's code is a parameter: the HTTP exchange (the answer of
  \<open>reqwest\<close> is an argument), serde's reading of a body, and the XDR codec of
  \<open>stellar_xdr\<close> (the record \<open>codec\<close>). An XDR value the code never looks into is kept as
  its encoding, a string. A formatted error message is kept as its arguments.
\<close>

section \<open>Errors\<close>

record ledger_window =
  lw_min_ledger :: nat
  lw_max_ledger :: nat

type_synonym tx_hash = "8 word list"

text \<open>The messages of \<open>ChainError::Shape\<close>, one constructor per format string.\<close>

datatype shape =
    HashLength nat
  | HashNotAscii
  | HashDigit string
  | BadBody string string
  | NoResultNorError string
  | SendStatusText string
  | TransactionStatusText string
  | MissingField string string
  | NotAnInteger string string
  | FeeTooLarge nat int
  | SequenceOverflow
  | HashMismatch tx_hash tx_hash
  | NotAnAccountEntry
  | FeePercentile string string
  | NoPoolEntry string string
  | NoReserveEntry string string
  | TwoReserves string nat

text \<open>\<open>TransactionResult\<close>, of which the code looks only for \<open>TxBadSeq\<close>.\<close>

datatype transaction_result = TxBadSeq | OtherResult string

datatype rejection = TryAgainLaterTwice | RejectedWith "transaction_result option" "nat option"

datatype tx_outcome =
    Succeeded tx_hash nat "string option"
  | Failed tx_hash nat "nat option" transaction_result
  | Expired tx_hash ledger_window nat
  | Unknown tx_hash int ledger_window

datatype restore_failure = RestoreEnded tx_outcome | StillArchived

datatype chain_error =
    Transport string
  | Http nat
  | Rpc int string
  | Shape shape
  | LedgerMoved nat nat
  | NoAccount string
  | Xdr xdr_error
  | Math math_error
  | Config string
  | SecretKey
  | Simulation string "nat option"
  | Restore restore_failure
  | RestoreUnknown tx_hash int ledger_window
  | Rejected rejection
  | BadSequence

type_synonym 'a chain_result = "(chain_error, 'a) result"

text \<open>\<open>map_err(ChainError::Xdr)\<close>, and \<open>?\<close> on a codec's result.\<close>

definition xdr :: "(string, 'a) result \<Rightarrow> 'a chain_result" where
  "xdr r = (case r of Inl e \<Rightarrow> Err (Xdr (XdrLib e)) | Inr x \<Rightarrow> Ok x)"

section \<open>Transaction hashes\<close>

definition hex_digit :: "nat \<Rightarrow> char" where
  "hex_digit n = (if n < 10 then char_of (48 + n) else char_of (87 + n))"

text \<open>\<open>char::to_digit(16)\<close> on one byte.\<close>

definition hex_value :: "char \<Rightarrow> nat option" where
  "hex_value c =
     (let n = of_char c :: nat in
      if 48 \<le> n \<and> n \<le> 57 then Some (n - 48)
      else if 97 \<le> n \<and> n \<le> 102 then Some (n - 87)
      else if 65 \<le> n \<and> n \<le> 70 then Some (n - 55)
      else None)"

definition to_hex :: "tx_hash \<Rightarrow> string" where
  "to_hex self = concat (map (\<lambda>byte. [hex_digit (unat byte div 16), hex_digit (unat byte mod 16)]) self)"

text \<open>\<open>str::from_utf8\<close> on two bytes.\<close>

definition utf8_pair :: "char \<Rightarrow> char \<Rightarrow> bool" where
  "utf8_pair a b =
     (let m = of_char a :: nat; n = of_char b :: nat in
      m < 128 \<and> n < 128 \<or> 194 \<le> m \<and> m \<le> 223 \<and> 128 \<le> n \<and> n \<le> 191)"

text \<open>
  \<open>u8::from_str_radix(digits, 16)\<close> on two bytes: the standard library takes an optional
  leading \<open>+\<close>.
\<close>

definition u8_from_str_radix16 :: "char \<Rightarrow> char \<Rightarrow> 8 word option" where
  "u8_from_str_radix16 a b =
     (if a = CHR ''+'' then map_option of_nat (hex_value b)
      else
        case (hex_value a, hex_value b) of
          (Some m, Some n) \<Rightarrow> Some (of_nat (16 * m + n))
        | _ \<Rightarrow> None)"

fun hex_pairs :: "string \<Rightarrow> tx_hash chain_result" where
  "hex_pairs (a # b # text) =
     (if \<not> utf8_pair a b then Err (Shape HashNotAscii)
      else
        rbind (ok_or (Shape (HashDigit [a, b])) (u8_from_str_radix16 a b)) (\<lambda>byte.
        rbind (hex_pairs text) (\<lambda>out. Ok (byte # out))))"
| "hex_pairs _ = Ok []"

definition from_hex :: "string \<Rightarrow> tx_hash chain_result" where
  "from_hex text =
     (if length text \<noteq> 64 then Err (Shape (HashLength (length text))) else hex_pairs text)"

section \<open>One JSON-RPC call\<close>

text \<open>What \<open>request.send().await\<close> and \<open>response.text().await\<close> gave.\<close>

datatype http_answer =
    NoResponse string
  | Response nat "(string, string) result"

record json_rpc_error =
  je_code :: int
  je_message :: string

text \<open>\<open>RpcClient::call\<close> after the exchange; \<open>from_str\<close> is serde's reading of the body.\<close>

definition rpc_call ::
  "(string \<Rightarrow> (string, 'r option \<times> json_rpc_error option) result) \<Rightarrow> string \<Rightarrow> http_answer \<Rightarrow> 'r chain_result" where
  "rpc_call from_str meth answer =
     (case answer of
        NoResponse e \<Rightarrow> Err (Transport e)
      | Response status body \<Rightarrow>
          if \<not> (200 \<le> status \<and> status \<le> 299) then Err (Http status)
          else
            case body of
              Inl e \<Rightarrow> Err (Transport e)
            | Inr text \<Rightarrow>
                case from_str text of
                  Inl e \<Rightarrow> Err (Shape (BadBody meth e))
                | Inr (_, Some e) \<Rightarrow> Err (Rpc (je_code e) (je_message e))
                | Inr (Some r, None) \<Rightarrow> Ok r
                | Inr (None, None) \<Rightarrow> Err (Shape (NoResultNorError meth)))"

section \<open>Decoding the answers\<close>

text \<open>A diagnostic event is its topics; a meta is what \<open>return_value\<close> and \<open>meta_diagnostics\<close> read of it.\<close>

type_synonym diagnostic_event = "scval list"

datatype transaction_meta =
    MetaV3 "(string \<times> diagnostic_event list) option"
  | MetaV4 "string option option" "diagnostic_event list"
  | MetaOther

fun event_contract_error :: "diagnostic_event \<Rightarrow> nat option" where
  "event_contract_error (ScSymbol name # ScContractError code # _) = (if name = ''error'' then Some code else None)"
| "event_contract_error _ = None"

fun find_map :: "('a \<Rightarrow> 'b option) \<Rightarrow> 'a list \<Rightarrow> 'b option" where
  "find_map f [] = None"
| "find_map f (x # xs) = (case f x of None \<Rightarrow> find_map f xs | Some y \<Rightarrow> Some y)"

definition contract_error_in_events :: "diagnostic_event list \<Rightarrow> nat option" where
  "contract_error_in_events events = find_map event_contract_error events"

fun return_value :: "transaction_meta \<Rightarrow> string option" where
  "return_value (MetaV4 soroban events) = Option.bind soroban (\<lambda>v. v)"
| "return_value (MetaV3 soroban) = map_option fst soroban"
| "return_value MetaOther = None"

fun meta_diagnostics :: "transaction_meta \<Rightarrow> diagnostic_event list" where
  "meta_diagnostics (MetaV4 soroban events) = events"
| "meta_diagnostics (MetaV3 soroban) = (case soroban of None \<Rightarrow> [] | Some (_, events) \<Rightarrow> events)"
| "meta_diagnostics MetaOther = []"

text \<open>\<open>from_base64\<close> at each type it is used at.\<close>

record codec =
  co_result :: "string \<Rightarrow> (string, transaction_result) result"
  co_event :: "string \<Rightarrow> (string, diagnostic_event) result"
  co_meta :: "string \<Rightarrow> (string, transaction_meta) result"
  co_scval :: "string \<Rightarrow> (string, string) result"
  co_auth :: "string \<Rightarrow> (string, string) result"
  co_data :: "string \<Rightarrow> (string, string) result"

definition decode_events :: "codec \<Rightarrow> string list \<Rightarrow> diagnostic_event list chain_result" where
  "decode_events co events =
     rfold (\<lambda>event acc. rbind (xdr (co_event co event)) (\<lambda>x. Ok (acc @ [x]))) events []"

record raw_send =
  rs_status :: string
  rs_hash :: string
  rs_latest_ledger :: nat
  rs_error_result_xdr :: "string option"
  rs_diagnostic_events_xdr :: "string list"

datatype send_outcome = Pending | Duplicate | TryAgainLater | SendError "transaction_result option" "nat option"

record send_status =
  ss_hash :: tx_hash
  ss_latest_ledger :: nat
  ss_outcome :: send_outcome

text \<open>\<open>Option::map(from_base64).transpose()?\<close>.\<close>

definition xdr_opt :: "(string \<Rightarrow> (string, 'a) result) \<Rightarrow> string option \<Rightarrow> 'a option chain_result" where
  "xdr_opt decode x = (case x of None \<Rightarrow> Ok None | Some text \<Rightarrow> rmap Some (xdr (decode text)))"

text \<open>\<open>RpcClient::send\<close> on the raw answer.\<close>

definition read_send :: "codec \<Rightarrow> raw_send \<Rightarrow> send_status chain_result" where
  "read_send co raw =
     rbind
       (if rs_status raw = ''PENDING'' then Ok Pending
        else if rs_status raw = ''DUPLICATE'' then Ok Duplicate
        else if rs_status raw = ''TRY_AGAIN_LATER'' then Ok TryAgainLater
        else if rs_status raw = ''ERROR'' then
          rbind (xdr_opt (co_result co) (rs_error_result_xdr raw)) (\<lambda>result.
          rbind (decode_events co (rs_diagnostic_events_xdr raw)) (\<lambda>events.
          Ok (SendError result (contract_error_in_events events))))
        else Err (Shape (SendStatusText (rs_status raw)))) (\<lambda>outcome.
     rbind (from_hex (rs_hash raw)) (\<lambda>hash.
     Ok \<lparr>ss_hash = hash, ss_latest_ledger = rs_latest_ledger raw, ss_outcome = outcome\<rparr>))"

record raw_transaction =
  rt_status :: string
  rt_latest_ledger :: nat
  rt_oldest_ledger :: nat
  rt_ledger :: "nat option"
  rt_result_xdr :: "string option"
  rt_result_meta_xdr :: "string option"
  rt_diagnostic_events_xdr :: "string list"

datatype transaction_status =
    NotFound nat nat
  | TxSuccess nat nat "string option"
  | TxFailed nat nat transaction_result "nat option"

definition missing_field :: "raw_transaction \<Rightarrow> string \<Rightarrow> chain_error" where
  "missing_field raw field = Shape (MissingField (rt_status raw) field)"

text \<open>\<open>RpcClient::transaction\<close> on the raw answer.\<close>

definition read_transaction :: "codec \<Rightarrow> raw_transaction \<Rightarrow> transaction_status chain_result" where
  "read_transaction co raw =
     (if rt_status raw = ''NOT_FOUND'' then Ok (NotFound (rt_latest_ledger raw) (rt_oldest_ledger raw))
      else
        rbind (ok_or (missing_field raw ''ledger'')
          (case rt_ledger raw of Some l \<Rightarrow> if l > 0 then Some l else None | None \<Rightarrow> None)) (\<lambda>ledger.
        rbind (ok_or (missing_field raw ''resultMetaXdr'') (rt_result_meta_xdr raw)) (\<lambda>text.
        rbind (xdr (co_meta co text)) (\<lambda>meta.
        if rt_status raw = ''SUCCESS'' then
          Ok (TxSuccess ledger (rt_latest_ledger raw) (return_value meta))
        else if rt_status raw = ''FAILED'' then
          rbind (ok_or (missing_field raw ''resultXdr'') (rt_result_xdr raw)) (\<lambda>text.
          rbind (xdr (co_result co text)) (\<lambda>result.
          rbind (decode_events co (rt_diagnostic_events_xdr raw)) (\<lambda>events.
          Ok (TxFailed ledger (rt_latest_ledger raw) result
                (contract_error_in_events (events @ meta_diagnostics meta))))))
        else Err (Shape (TransactionStatusText (rt_status raw)))))))"

subsection \<open>Simulations\<close>

text \<open>\<open>str::parse\<close> at an unsigned and a signed type: an optional sign, then decimal digits within range.\<close>

fun decimal_digits :: "nat \<Rightarrow> string \<Rightarrow> nat option" where
  "decimal_digits acc [] = Some acc"
| "decimal_digits acc (c # text) =
     (let n = of_char c :: nat in
      if 48 \<le> n \<and> n \<le> 57 then decimal_digits (10 * acc + (n - 48)) text else None)"

definition parse_decimal :: "string \<Rightarrow> nat option" where
  "parse_decimal text = (if text = [] then None else decimal_digits 0 text)"

definition parse_u32 :: "string \<Rightarrow> nat option" where
  "parse_u32 text =
     (case parse_decimal (case text of c # rest \<Rightarrow> if c = CHR ''+'' then rest else text | [] \<Rightarrow> []) of
        Some n \<Rightarrow> if n \<le> u32_max then Some n else None
      | None \<Rightarrow> None)"

definition i64_min :: int where
  "i64_min = - (2 ^ 63)"

definition i64_max :: int where
  "i64_max = 2 ^ 63 - 1"

lemmas i64_defs [width_defs, eval_simps] = i64_min_def i64_max_def

definition parse_signed :: "string \<Rightarrow> int option" where
  "parse_signed text =
     (case text of
        [] \<Rightarrow> None
      | c # rest \<Rightarrow>
          if c = CHR ''-'' then map_option (\<lambda>n. - int n) (parse_decimal rest)
          else map_option int (parse_decimal (if c = CHR ''+'' then rest else text)))"

definition parse_i64 :: "string \<Rightarrow> string \<Rightarrow> int chain_result" where
  "parse_i64 name text =
     (case parse_signed text of
        Some n \<Rightarrow> if i64_min \<le> n \<and> n \<le> i64_max then Ok n else Err (Shape (NotAnInteger name text))
      | None \<Rightarrow> Err (Shape (NotAnInteger name text)))"

text \<open>\<open>str::find\<close>, as what follows the first occurrence and what precedes it.\<close>

fun after_first :: "string \<Rightarrow> string \<Rightarrow> string option" where
  "after_first marker [] = (if marker = [] then Some [] else None)"
| "after_first marker (c # text) =
     (if take (length marker) (c # text) = marker then Some (drop (length marker) (c # text))
      else after_first marker text)"

fun before_first :: "char \<Rightarrow> string \<Rightarrow> string option" where
  "before_first c [] = None"
| "before_first c (x # text) = (if x = c then Some [] else map_option ((#) x) (before_first c text))"

definition contract_error_in_message :: "string \<Rightarrow> nat option" where
  "contract_error_in_message message =
     Option.bind (after_first ''Error(Contract, #'' message) (\<lambda>rest.
     Option.bind (before_first (CHR '')'') rest) parse_u32)"

record raw_preamble =
  rp_transaction_data :: string
  rp_min_resource_fee :: string

record raw_simulation_result =
  rr_xdr :: string
  rr_auth :: "string list"

record raw_simulation =
  rm_latest_ledger :: nat
  rm_error :: "string option"
  rm_results :: "raw_simulation_result list"
  rm_transaction_data :: "string option"
  rm_min_resource_fee :: "string option"
  rm_events :: "string list"
  rm_restore_preamble :: "raw_preamble option"

record restore_preamble =
  pr_transaction_data :: string
  pr_min_resource_fee :: int

record simulated_call =
  sc_return_value :: string
  sc_auth :: "string list"
  sc_transaction_data :: string
  sc_min_resource_fee :: int
  sc_restore :: "restore_preamble option"

datatype simulation_outcome = SimSuccess simulated_call | SimFailure string "nat option"

record simulation =
  sm_latest_ledger :: nat
  sm_events :: "diagnostic_event list"
  sm_outcome :: simulation_outcome

definition read_preamble :: "codec \<Rightarrow> raw_preamble \<Rightarrow> restore_preamble chain_result" where
  "read_preamble co preamble =
     rbind (xdr (co_data co (rp_transaction_data preamble))) (\<lambda>data.
     rbind (parse_i64 ''restorePreamble.minResourceFee'' (rp_min_resource_fee preamble)) (\<lambda>fee.
     Ok \<lparr>pr_transaction_data = data, pr_min_resource_fee = fee\<rparr>))"

text \<open>\<open>RpcClient::simulate\<close> on the raw answer.\<close>

definition read_simulation :: "codec \<Rightarrow> raw_simulation \<Rightarrow> simulation chain_result" where
  "read_simulation co raw =
     rbind (decode_events co (rm_events raw)) (\<lambda>events.
     case rm_error raw of
       Some message \<Rightarrow>
         let contract_error = (case contract_error_in_events events of
               Some code \<Rightarrow> Some code | None \<Rightarrow> contract_error_in_message message) in
         Ok \<lparr>sm_latest_ledger = rm_latest_ledger raw, sm_events = events,
             sm_outcome = SimFailure message contract_error\<rparr>
     | None \<Rightarrow>
         let missing = (\<lambda>field. Shape (MissingField ''simulation'' field)) in
         rbind (ok_or (missing ''results'') (case rm_results raw of [] \<Rightarrow> None | r # _ \<Rightarrow> Some r)) (\<lambda>result.
         rbind (rfold (\<lambda>entry acc. rbind (xdr (co_auth co entry)) (\<lambda>x. Ok (acc @ [x]))) (rr_auth result) []) (\<lambda>auth.
         rbind (case rm_restore_preamble raw of
                  None \<Rightarrow> Ok None | Some preamble \<Rightarrow> rmap Some (read_preamble co preamble)) (\<lambda>restore.
         rbind (xdr (co_scval co (rr_xdr result))) (\<lambda>return_value.
         rbind (ok_or (missing ''transactionData'') (rm_transaction_data raw)) (\<lambda>text.
         rbind (xdr (co_data co text)) (\<lambda>data.
         rbind (ok_or (missing ''minResourceFee'') (rm_min_resource_fee raw)) (\<lambda>text.
         rbind (parse_i64 ''minResourceFee'' text) (\<lambda>fee.
         Ok \<lparr>sm_latest_ledger = rm_latest_ledger raw, sm_events = events,
             sm_outcome = SimSuccess \<lparr>sc_return_value = return_value, sc_auth = auth,
               sc_transaction_data = data, sc_min_resource_fee = fee, sc_restore = restore\<rparr>\<rparr>)))))))))"

lemmas rpc_evals [eval_simps] = xdr_def hex_digit_def hex_value_def to_hex_def utf8_pair_def
  u8_from_str_radix16_def from_hex_def rpc_call_def contract_error_in_events_def decode_events_def
  xdr_opt_def read_send_def missing_field_def read_transaction_def parse_decimal_def parse_u32_def
  parse_signed_def parse_i64_def contract_error_in_message_def read_preamble_def read_simulation_def

section \<open>Transaction hashes round-trip\<close>

lemma hex_value_digit: "n < 16 \<Longrightarrow> hex_value (hex_digit n) = Some n"
  by (auto simp: hex_value_def hex_digit_def Let_def)

lemma of_char_hex_digit: "n < 16 \<Longrightarrow> (of_char (hex_digit n) :: nat) = (if n < 10 then 48 + n else 87 + n)"
  by (simp add: hex_digit_def)

lemma of_char_plus: "(of_char (CHR ''+'') :: nat) = 43"
  by simp

lemma hex_digit_not_plus: "n < 16 \<Longrightarrow> hex_digit n \<noteq> CHR ''+''"
proof
  assume "n < 16" "hex_digit n = CHR ''+''"
  then have "(of_char (hex_digit n) :: nat) = 43" using of_char_plus by (simp only:)
  then show False using of_char_hex_digit [OF \<open>n < 16\<close>] by (auto split: if_splits)
qed

lemma utf8_hex_digits: "m < 16 \<Longrightarrow> n < 16 \<Longrightarrow> utf8_pair (hex_digit m) (hex_digit n)"
  by (simp add: utf8_pair_def of_char_hex_digit)

lemma byte_from_digits:
  fixes b :: "8 word"
  shows "u8_from_str_radix16 (hex_digit (unat b div 16)) (hex_digit (unat b mod 16)) = Some b"
proof -
  have b: "unat b < 256" using unsigned_less [of b, where ?'a = nat] by simp
  then have "unat b div 16 < 16" "unat b mod 16 < 16" by (auto simp: less_mult_imp_div_less)
  moreover have "(of_nat (16 * (unat b div 16) + unat b mod 16) :: 8 word) = b"
    by (simp del: of_nat_add of_nat_mult)
  ultimately show ?thesis by (simp add: u8_from_str_radix16_def hex_digit_not_plus hex_value_digit)
qed

lemma hex_pairs_to_hex: "hex_pairs (to_hex h) = Ok h"
proof (induction h)
  case (Cons b h)
  have b: "unat b < 256" using unsigned_less [of b, where ?'a = nat] by simp
  then have "utf8_pair (hex_digit (unat b div 16)) (hex_digit (unat b mod 16))"
    by (intro utf8_hex_digits) (auto simp: less_mult_imp_div_less)
  with Cons show ?case by (simp add: to_hex_def byte_from_digits)
qed (simp add: to_hex_def)

lemma length_to_hex: "length (to_hex h) = 2 * length h"
  by (induction h) (auto simp: to_hex_def)

text \<open>
  A transaction hash survives its wire form: the 64 digits it is rendered as parse back
  to the same 32 bytes, and a text of any other length is refused.
\<close>

lemma hash_hex_roundtrip:
  "(length h = 32 \<longrightarrow> length (to_hex h) = 64 \<and> from_hex (to_hex h) = Ok h)
   \<and> (length text \<noteq> 64 \<longrightarrow> from_hex text = Err (Shape (HashLength (length text))))"
  by (simp add: from_hex_def length_to_hex hex_pairs_to_hex)

text \<open>
  The parser takes more than the wire form: the \<open>+\<close> that \<open>u8::from_str_radix\<close> skips
  stands for a leading zero.
\<close>

lemma from_hex_takes_plus:
  "from_hex (concat (replicate 32 ''+f'')) = Ok (replicate 32 15)"
  by (simp add: from_hex_def hex_value_def utf8_pair_def u8_from_str_radix16_def numeral_eq_Suc)

section \<open>What a call can fail with\<close>

text \<open>
  The two errors that say a transaction was refused before the network's queue are made by
  the code that interprets an answer, never by the call that fetched it.
\<close>

fun is_refusal :: "chain_error \<Rightarrow> bool" where
  "is_refusal BadSequence = True"
| "is_refusal (Rejected r) = True"
| "is_refusal _ = False"

lemma rpc_call_error: "rpc_call from_str meth answer = Err e \<Longrightarrow> \<not> is_refusal e"
  by (auto simp: rpc_call_def split: http_answer.splits if_splits sum.splits prod.splits option.splits)

lemma xdr_error: "xdr r = Err e \<Longrightarrow> \<not> is_refusal e"
  by (auto simp: xdr_def split: sum.splits)

lemma decode_events_error: "decode_events co events = Err e \<Longrightarrow> \<not> is_refusal e"
  unfolding decode_events_def rfold_Err by (auto simp: rbind_eq_Err dest: xdr_error)

lemma from_hex_error: "from_hex text = Err e \<Longrightarrow> \<not> is_refusal e"
proof -
  have "hex_pairs t = Err e \<Longrightarrow> \<not> is_refusal e" for t
    by (induction t rule: hex_pairs.induct) (auto simp: rbind_eq_Err split: if_splits)
  then show "from_hex text = Err e \<Longrightarrow> \<not> is_refusal e" by (auto simp: from_hex_def split: if_splits)
qed

lemma xdr_opt_error: "xdr_opt f x = Err e \<Longrightarrow> \<not> is_refusal e"
  by (auto simp: xdr_opt_def rmap_def rbind_eq_Err split: option.splits dest: xdr_error)

lemma read_send_error: "read_send co raw = Err e \<Longrightarrow> \<not> is_refusal e"
  by (auto simp: read_send_def rbind_eq_Err split: if_splits
      dest: xdr_opt_error decode_events_error from_hex_error)

end
