(* ===== verification/Effects.thy ===== *)
theory Effects
  imports Prelude
begin

text \<open>
  Code that talks to the outside. A computation is a function of the world (any type) and of
  a log of what it did there that matters to its callers; it returns \<open>Some\<close> result with the
  new state, or \<open>None\<close> when it never returns. The predicate \<open>logs\<close> bounds what a
  computation may have logged, and \<open>returns\<close> says that it always answers; both come with
  one rule per way of composing computations.
\<close>

section \<open>Computations\<close>

type_synonym ('w, 'x, 'e, 'a) act = "'w \<times> 'x list \<Rightarrow> (('e, 'a) result \<times> 'w \<times> 'x list) option"

text \<open>\<open>let x = m.await?; f(x)\<close>, a value, and an operation of the world.\<close>

definition io_bind :: "('w, 'x, 'e, 'a) act \<Rightarrow> ('a \<Rightarrow> ('w, 'x, 'e, 'b) act) \<Rightarrow> ('w, 'x, 'e, 'b) act" where
  "io_bind m f s =
     (case m s of
        None \<Rightarrow> None
      | Some (Inl e, s) \<Rightarrow> Some (Err e, s)
      | Some (Inr x, s) \<Rightarrow> f x s)"

definition io_lift :: "('e, 'a) result \<Rightarrow> ('w, 'x, 'e, 'a) act" where
  "io_lift r s = Some (r, s)"

definition io_op :: "('w \<Rightarrow> ('e, 'a) result \<times> 'w) \<Rightarrow> ('w, 'x, 'e, 'a) act" where
  "io_op f = (\<lambda>(w, log). case f w of (r, w) \<Rightarrow> Some (r, w, log))"

text \<open>Catching the result, for the code that matches on it.\<close>

definition io_try :: "('w, 'x, 'e, 'a) act \<Rightarrow> (('e, 'a) result \<Rightarrow> ('w, 'x, 'f, 'b) act) \<Rightarrow> ('w, 'x, 'f, 'b) act" where
  "io_try m f s = (case m s of None \<Rightarrow> None | Some (r, s) \<Rightarrow> f r s)"

text \<open>\<open>map_err\<close>, as the conversions of \<open>?\<close> use it.\<close>

definition io_map_err :: "('e \<Rightarrow> 'f) \<Rightarrow> ('w, 'x, 'e, 'a) act \<Rightarrow> ('w, 'x, 'f, 'a) act" where
  "io_map_err f m = io_try m (\<lambda>r. io_lift (case r of Inl e \<Rightarrow> Err (f e) | Inr x \<Rightarrow> Ok x))"

lemma io_map_err_cases:
  assumes "io_map_err f m s = Some (r, s')"
  obtains (failed) e where "m s = Some (Err e, s')" "r = Err (f e)" | (passed) x where "m s = Some (Ok x, s')" "r = Ok x"
  using assms by (auto simp: io_map_err_def io_try_def io_lift_def split: option.splits sum.splits prod.splits)

lemma io_bind_Ok: "m s = Some (Ok x, s') \<Longrightarrow> io_bind m f s = f x s'"
  by (simp add: io_bind_def)

lemma io_bind_lift_Ok: "io_bind (io_lift (Ok x)) f = f x"
  by (rule ext) (simp add: io_bind_def io_lift_def)

lemmas io_run = io_bind_Ok io_bind_lift_Ok io_lift_def

section \<open>What a computation logs\<close>

text \<open>
  \<open>logs m P\<close>: whenever \<open>m\<close> returns, it has appended to the log a list of entries that,
  with its result, satisfies \<open>P\<close>. The rules below let a chain of calls be judged from
  those of its parts.
\<close>

definition logs :: "('w, 'x, 'e, 'a) act \<Rightarrow> (('e, 'a) result \<Rightarrow> 'x list \<Rightarrow> bool) \<Rightarrow> bool" where
  "logs m P \<longleftrightarrow> (\<forall>w log r w' log'. m (w, log) = Some (r, w', log') \<longrightarrow> (\<exists>ev. log' = log @ ev \<and> P r ev))"

lemma logsI: "(\<And>w log r w' log'. m (w, log) = Some (r, w', log') \<Longrightarrow> \<exists>ev. log' = log @ ev \<and> P r ev) \<Longrightarrow> logs m P"
  unfolding logs_def by blast

lemma logsD: "logs m P \<Longrightarrow> m (w, log) = Some (r, w', log') \<Longrightarrow> \<exists>ev. log' = log @ ev \<and> P r ev"
  unfolding logs_def by blast

lemma logs_mono: "logs m P \<Longrightarrow> (\<And>r ev. P r ev \<Longrightarrow> Q r ev) \<Longrightarrow> logs m Q"
  unfolding logs_def by blast

lemma logs_seq:
  assumes "logs m P" "\<And>x ev. P (Ok x) ev \<Longrightarrow> logs (f x) (\<lambda>r ev'. R r (ev @ ev'))"
    and "\<And>e ev. P (Err e) ev \<Longrightarrow> R (Err e) ev"
  shows "logs (io_bind m f) R"
proof (rule logsI)
  fix w log r w' log'
  assume "io_bind m f (w, log) = Some (r, w', log')"
  then consider e where "m (w, log) = Some (Err e, w', log')" "r = Err e"
    | x w1 log1 where "m (w, log) = Some (Ok x, w1, log1)" "f x (w1, log1) = Some (r, w', log')"
    by (auto simp: io_bind_def split: option.splits sum.splits)
  then show "\<exists>ev. log' = log @ ev \<and> R r ev"
  proof cases
    case (1 e)
    then show ?thesis using logsD [OF assms(1)] assms(3) by blast
  next
    case (2 x w1 log1)
    obtain ev where ev: "log1 = log @ ev" "P (Ok x) ev" using logsD [OF assms(1) 2(1)] by blast
    obtain ev' where "log' = log1 @ ev'" "R r (ev @ ev')" using logsD [OF assms(2) [OF ev(2)] 2(2)] by blast
    with ev show ?thesis by (intro exI [of _ "ev @ ev'"]) simp
  qed
qed

lemma logs_bind:
  assumes "logs m P" "\<And>x. logs (f x) (Q x)"
    and "\<And>e ev. P (Err e) ev \<Longrightarrow> R (Err e) ev"
    and "\<And>x ev r ev'. P (Ok x) ev \<Longrightarrow> Q x r ev' \<Longrightarrow> R r (ev @ ev')"
  shows "logs (io_bind m f) R"
  using assms(3,4) by (intro logs_seq [OF assms(1) logs_mono [OF assms(2)]])

lemma logs_try:
  assumes "logs m P" "\<And>x. logs (f x) (Q x)" and "\<And>x ev r ev'. P x ev \<Longrightarrow> Q x r ev' \<Longrightarrow> R r (ev @ ev')"
  shows "logs (io_try m f) R"
proof (rule logsI)
  fix w log r w' log'
  assume "io_try m f (w, log) = Some (r, w', log')"
  then obtain x w1 log1 where 2: "m (w, log) = Some (x, w1, log1)" "f x (w1, log1) = Some (r, w', log')"
    by (auto simp: io_try_def split: option.splits)
  obtain ev where "log1 = log @ ev" "P x ev" using logsD [OF assms(1) 2(1)] by blast
  moreover obtain ev' where "log' = log1 @ ev'" "Q x r ev'" using logsD [OF assms(2) 2(2)] by blast
  ultimately show "\<exists>ev. log' = log @ ev \<and> R r ev" using assms(3) by (intro exI [of _ "ev @ ev'"]) simp
qed

lemma logs_lift: "P r [] \<Longrightarrow> logs (io_lift r) P"
  by (simp add: logs_def io_lift_def)

lemma logs_op: "(\<And>w. P (fst (f w)) []) \<Longrightarrow> logs (io_op f) P"
  by (auto simp: logs_def io_op_def split: prod.splits) (metis fst_conv)

abbreviation quiet :: "('w, 'x, 'e, 'a) act \<Rightarrow> bool" where
  "quiet m \<equiv> logs m (\<lambda>r ev. ev = [])"

lemma quiet_bind: "quiet m \<Longrightarrow> (\<And>x. quiet (f x)) \<Longrightarrow> quiet (io_bind m f)"
  by (rule logs_bind [where P = "\<lambda>r ev. ev = []" and Q = "\<lambda>x r ev. ev = []"]) auto

lemma quiet_op: "quiet (io_op f)"
  by (rule logs_op) simp

lemma quiet_lift: "quiet (io_lift r)"
  by (rule logs_lift) simp

lemmas quiet_rules = quiet_bind quiet_op quiet_lift

text \<open>A quiet computation before one that sends.\<close>

lemma logs_quiet_bind:
  assumes "quiet m" "\<And>x. logs (f x) R" "\<And>e. R (Err e) []"
  shows "logs (io_bind m f) R"
  by (rule logs_bind [OF assms(1) assms(2)]) (use assms(3) in auto)

lemma logs_lift_eq: "logs (io_lift r) (\<lambda>r' ev. r' = r \<and> ev = [])"
  by (rule logs_lift) simp

section \<open>Computations that answer\<close>

definition returns :: "('w, 'x, 'e, 'a) act \<Rightarrow> bool" where
  "returns m \<longleftrightarrow> (\<forall>s. \<exists>r w log. m s = Some (r, w, log))"

lemma returnsD: "returns m \<Longrightarrow> \<exists>r w' log'. m s = Some (r, w', log')"
  unfolding returns_def by blast

lemma returns_bind: "returns m \<Longrightarrow> (\<And>x. returns (f x)) \<Longrightarrow> returns (io_bind m f)"
  unfolding returns_def io_bind_def
proof (intro allI)
  fix s
  assume m: "\<forall>s. \<exists>r w log. m s = Some (r, w, log)" and f: "\<And>x. \<forall>s. \<exists>r w log. f x s = Some (r, w, log)"
  obtain r w log where "m s = Some (r, w, log)" using m by blast
  then show "\<exists>r w log. (case m s of None \<Rightarrow> None | Some (Inl e, s) \<Rightarrow> Some (Err e, s) | Some (Inr x, s) \<Rightarrow> f x s) = Some (r, w, log)"
    using f by (cases r) auto
qed

lemma returns_try: "returns m \<Longrightarrow> (\<And>x. returns (f x)) \<Longrightarrow> returns (io_try m f)"
  unfolding returns_def io_try_def
proof (intro allI)
  fix s
  assume m: "\<forall>s. \<exists>r w log. m s = Some (r, w, log)" and f: "\<And>x. \<forall>s. \<exists>r w log. f x s = Some (r, w, log)"
  obtain r w log where "m s = Some (r, w, log)" using m by blast
  then show "\<exists>r w log. (case m s of None \<Rightarrow> None | Some (r, s) \<Rightarrow> f r s) = Some (r, w, log)" using f by simp
qed

lemma returns_lift: "returns (io_lift r)"
  by (auto simp: returns_def io_lift_def)

lemma returns_op: "returns (io_op f)"
  by (auto simp: returns_def io_op_def split: prod.splits)

lemma returns_map_err: "returns m \<Longrightarrow> returns (io_map_err f m)"
  unfolding io_map_err_def by (intro returns_try returns_lift)

lemmas returns_rules = returns_bind returns_try returns_lift returns_op

end
