(* ===== verification/Chain_Tx.thy ===== *)
theory Chain_Tx
  imports Chain_Rpc Effects
begin

text \<open>
  \<open>src/chain/tx.rs\<close>, the one write path: build, simulate, restore, assemble, sign, send,
  poll, classify.

  The world is a state of any type with the operations of \<open>host\<close>: the HTTP exchange, the
  clocks, sleeping and the shutdown flag. An \<open>async fn\<close> is a function of the world and of the log of
  envelopes posted to \<open>sendTransaction\<close> (with what the RPC answered) that returns
  \<open>Some\<close> result and the new state, or \<open>None\<close> when it never returns.
\<close>

section \<open>Transactions and the world\<close>

datatype operation =
    InvokeHostFunction string "string list"
  | RestoreFootprint
  | OtherOperation string

text \<open>The fields of \<open>Transaction\<close> the code sets to anything but a constant.\<close>

record transaction =
  tr_source :: string
  tr_fee :: nat
  tr_seq_num :: int
  tr_max_time :: nat
  tr_ledger_bounds :: ledger_window
  tr_operation :: operation
  tr_soroban_data :: "string option"

record envelope =
  en_tx :: transaction
  en_signatures :: "string list"

record account =
  ac_sequence :: int
  ac_latest_ledger :: nat

record fee_stats =
  fs_soroban_percentile_70 :: nat
  fs_soroban_percentile_90 :: nat
  fs_latest_ledger :: nat

datatype rpc_request = SendTransaction string | GetTransaction string | SimulateTransaction string

text \<open>
  The world's operations. \<open>ho_account\<close> and \<open>ho_fee_stats\<close> are whole RPC queries;
  \<open>ho_read_send\<close> and its siblings are serde; \<open>ho_tx_hash\<close>, \<open>ho_envelope_hash\<close>,
  \<open>ho_signature\<close> and \<open>ho_encode\<close> are \<open>stellar_xdr\<close> and the signing key. \<open>ho_pause\<close> is
  a sleep that a shutdown may cut short.
\<close>

record 'w host =
  ho_post :: "rpc_request \<Rightarrow> 'w \<Rightarrow> http_answer \<times> 'w"
  ho_account :: "'w \<Rightarrow> account chain_result \<times> 'w"
  ho_fee_stats :: "'w \<Rightarrow> fee_stats chain_result \<times> 'w"
  ho_unix_now :: "'w \<Rightarrow> nat option \<times> 'w"
  ho_now :: "'w \<Rightarrow> nat \<times> 'w"
  ho_sleep :: "nat \<Rightarrow> 'w \<Rightarrow> 'w"
  ho_pause :: "nat \<Rightarrow> 'w \<Rightarrow> 'w"
  ho_shutdown :: "'w \<Rightarrow> bool"
  ho_codec :: codec
  ho_encode :: "envelope \<Rightarrow> (string, string) result"
  ho_read_send :: "string \<Rightarrow> (string, raw_send option \<times> json_rpc_error option) result"
  ho_read_transaction :: "string \<Rightarrow> (string, raw_transaction option \<times> json_rpc_error option) result"
  ho_read_simulation :: "string \<Rightarrow> (string, raw_simulation option \<times> json_rpc_error option) result"
  ho_tx_hash :: "transaction \<Rightarrow> (string, tx_hash) result"
  ho_envelope_hash :: "envelope \<Rightarrow> (string, tx_hash) result"
  ho_signature :: "tx_hash \<Rightarrow> string"
  ho_address :: string

type_synonym send_log = "(envelope \<times> send_status chain_result) list"

type_synonym ('w, 'a) io = "('w, envelope \<times> send_status chain_result, chain_error, 'a) act"

section \<open>The RPC client's three calls\<close>

definition rpc_simulate :: "'w host \<Rightarrow> envelope \<Rightarrow> ('w, simulation) io" where
  "rpc_simulate host envelope =
     io_bind (io_lift (xdr (ho_encode host envelope))) (\<lambda>text.
     io_bind (io_op (\<lambda>w. case ho_post host (SimulateTransaction text) w of
       (answer, w) \<Rightarrow> (rpc_call (ho_read_simulation host) ''simulateTransaction'' answer, w))) (\<lambda>raw.
     io_lift (read_simulation (ho_codec host) raw)))"

text \<open>\<open>RpcClient::send\<close>; what was posted and how it was answered goes to the log.\<close>

definition rpc_send :: "'w host \<Rightarrow> envelope \<Rightarrow> ('w, send_status) io" where
  "rpc_send host envelope =
     io_bind (io_lift (xdr (ho_encode host envelope))) (\<lambda>text.
     (\<lambda>(w, log). case ho_post host (SendTransaction text) w of (answer, w) \<Rightarrow>
        let r = rbind (rpc_call (ho_read_send host) ''sendTransaction'' answer) (read_send (ho_codec host)) in
        Some (r, w, log @ [(envelope, r)])))"

definition rpc_transaction :: "'w host \<Rightarrow> tx_hash \<Rightarrow> ('w, transaction_status) io" where
  "rpc_transaction host hash =
     io_bind (io_op (\<lambda>w. case ho_post host (GetTransaction (to_hex hash)) w of
       (answer, w) \<Rightarrow> (rpc_call (ho_read_transaction host) ''getTransaction'' answer, w))) (\<lambda>raw.
     io_lift (read_transaction (ho_codec host) raw))"

section \<open>Building\<close>

definition TIME_BOUND_SECS :: nat where
  "TIME_BOUND_SECS = 300"

text \<open>Durations in milliseconds.\<close>

record tx_config =
  tc_base_fee :: nat
  tc_high_fee :: nat
  tc_poll_ledgers :: nat
  tc_poll_interval :: nat
  tc_send_retry_pause :: nat
  tc_wait_cap :: nat

text \<open>\<open>TxConfig::new\<close>.\<close>

definition tx_config_new :: "nat \<Rightarrow> nat \<Rightarrow> nat \<Rightarrow> tx_config" where
  "tx_config_new base_fee high_fee poll_ledgers =
     \<lparr>tc_base_fee = base_fee, tc_high_fee = high_fee, tc_poll_ledgers = poll_ledgers,
      tc_poll_interval = 1000, tc_send_retry_pause = 1000,
      tc_wait_cap = 10000 * saturating_add_u32 poll_ledgers 1\<rparr>"

datatype priority = Normal | High

text \<open>\<open>LedgerWindow::try_new\<close>.\<close>

definition ledger_window_try_new :: "nat \<Rightarrow> nat \<Rightarrow> ledger_window chain_result" where
  "ledger_window_try_new min_ledger max_ledger =
     (if min_ledger < max_ledger then Ok \<lparr>lw_min_ledger = min_ledger, lw_max_ledger = max_ledger\<rparr>
      else Err (Config ''a ledger window needs min_ledger < max_ledger''))"

record prepared =
  pp_envelope :: envelope
  pp_hash :: tx_hash
  pp_sequence :: int
  pp_window :: ledger_window
  pp_fee :: nat
  pp_resource_fee :: int

definition tx_outcome_status :: "tx_outcome \<Rightarrow> string" where
  "tx_outcome_status self =
     (case self of Succeeded _ _ _ \<Rightarrow> ''succeeded'' | Failed _ _ _ _ \<Rightarrow> ''failed''
      | Expired _ _ _ \<Rightarrow> ''expired'' | Unknown _ _ _ \<Rightarrow> ''unknown'')"

definition tx_outcome_hash :: "tx_outcome \<Rightarrow> tx_hash" where
  "tx_outcome_hash self =
     (case self of Succeeded hash _ _ \<Rightarrow> hash | Failed hash _ _ _ \<Rightarrow> hash
      | Expired hash _ _ \<Rightarrow> hash | Unknown hash _ _ \<Rightarrow> hash)"

definition unix_now :: "'w host \<Rightarrow> ('w, nat) io" where
  "unix_now host = io_op (\<lambda>w. case ho_unix_now host w of
     (t, w) \<Rightarrow> (ok_or (Config ''the system clock is before 1970'') t, w))"

definition total_fee :: "nat \<Rightarrow> int \<Rightarrow> nat chain_result" where
  "total_fee inclusion resource_fee =
     ok_or (Shape (FeeTooLarge inclusion resource_fee))
       (Option.bind (u32_try_from resource_fee) (\<lambda>resource. checked_add_u32 inclusion resource))"

definition inclusion_fee :: "tx_config \<Rightarrow> fee_stats \<Rightarrow> priority \<Rightarrow> nat" where
  "inclusion_fee config fees priority =
     (case priority of
        Normal \<Rightarrow> max (fs_soroban_percentile_70 fees) (tc_base_fee config)
      | High \<Rightarrow> max (fs_soroban_percentile_90 fees) (tc_high_fee config))"

definition unsigned_tx ::
  "'w host \<Rightarrow> tx_config \<Rightarrow> operation \<Rightarrow> int \<Rightarrow> nat \<Rightarrow> nat \<Rightarrow> ('w, transaction \<times> ledger_window) io" where
  "unsigned_tx host config operation sequence latest_ledger fee =
     io_bind (unix_now host) (\<lambda>now.
     io_bind (io_lift (ok_or (Config ''the ledger bound overflows u32'')
       (Option.bind (checked_add_u32 latest_ledger (tc_poll_ledgers config)) (\<lambda>ledger. checked_add_u32 ledger 1))))
       (\<lambda>max_ledger.
     io_bind (io_lift (ledger_window_try_new latest_ledger max_ledger)) (\<lambda>window.
     io_lift (Ok (\<lparr>tr_source = ho_address host, tr_fee = fee, tr_seq_num = sequence,
        tr_max_time = min u64_max (now + TIME_BOUND_SECS), tr_ledger_bounds = window,
        tr_operation = operation, tr_soroban_data = None\<rparr>, window)))))"

definition simulate_call ::
  "'w host \<Rightarrow> tx_config \<Rightarrow> operation \<Rightarrow> int \<Rightarrow> nat \<Rightarrow> ('w, simulated_call \<times> nat) io" where
  "simulate_call host config operation sequence latest_ledger =
     io_bind (unsigned_tx host config operation sequence latest_ledger 100) (\<lambda>(tx, _).
     io_bind (rpc_simulate host \<lparr>en_tx = tx, en_signatures = []\<rparr>) (\<lambda>simulation.
     case sm_outcome simulation of
       SimSuccess call \<Rightarrow> io_lift (Ok (call, sm_latest_ledger simulation))
     | SimFailure message contract_error \<Rightarrow> io_lift (Err (Simulation message contract_error))))"

definition assemble :: "transaction \<Rightarrow> simulated_call \<Rightarrow> nat \<Rightarrow> transaction chain_result" where
  "assemble tx call inclusion =
     rbind (total_fee inclusion (sc_min_resource_fee call)) (\<lambda>fee.
     Ok (tx\<lparr>tr_fee := fee, tr_soroban_data := Some (sc_transaction_data call),
            tr_operation := (case tr_operation tx of
               InvokeHostFunction f auth \<Rightarrow>
                 InvokeHostFunction f (if auth = [] \<and> sc_auth call \<noteq> [] then sc_auth call else auth)
             | other \<Rightarrow> other)\<rparr>))"

text \<open>\<open>Signer::sign\<close>, and the hash the callers take of its envelope.\<close>

definition sign :: "'w host \<Rightarrow> transaction \<Rightarrow> envelope chain_result" where
  "sign host tx =
     rbind (xdr (ho_tx_hash host tx)) (\<lambda>hash.
     Ok \<lparr>en_tx = tx, en_signatures = [ho_signature host hash]\<rparr>)"

definition checked_add_i64 :: "int \<Rightarrow> int \<Rightarrow> int option" where
  "checked_add_i64 x y = (if i64_min \<le> x + y \<and> x + y \<le> i64_max then Some (x + y) else None)"

section \<open>Sending and waiting\<close>

text \<open>The loop of \<open>Submitter::send\<close>, which turns at most twice.\<close>

definition send_verdict :: "prepared \<Rightarrow> send_status \<Rightarrow> unit chain_result" where
  "send_verdict prepared status =
     (case ss_outcome status of
        SendError result contract_error \<Rightarrow>
          Err (if result = Some TxBadSeq then BadSequence else Rejected (RejectedWith result contract_error))
      | TryAgainLater \<Rightarrow> Err (Rejected TryAgainLaterTwice)
      | _ \<Rightarrow>
          if ss_hash status \<noteq> pp_hash prepared then Err (Shape (HashMismatch (ss_hash status) (pp_hash prepared)))
          else Ok ())"

definition tx_send :: "'w host \<Rightarrow> tx_config \<Rightarrow> prepared \<Rightarrow> ('w, unit) io" where
  "tx_send host config prepared =
     io_bind (rpc_send host (pp_envelope prepared)) (\<lambda>status.
     if ss_outcome status = TryAgainLater then
       io_bind (io_op (\<lambda>w. (Ok (), ho_sleep host (tc_send_retry_pause config) w))) (\<lambda>_.
       io_bind (rpc_send host (pp_envelope prepared)) (\<lambda>status.
       io_lift (send_verdict prepared status)))
     else io_lift (send_verdict prepared status))"

definition classify :: "transaction_status \<Rightarrow> tx_hash \<Rightarrow> ledger_window \<Rightarrow> tx_outcome option" where
  "classify status hash window =
     (case status of
        TxSuccess ledger _ returned \<Rightarrow> Some (Succeeded hash ledger returned)
      | TxFailed ledger _ result contract_error \<Rightarrow> Some (Failed hash ledger contract_error result)
      | NotFound latest_ledger oldest_ledger \<Rightarrow>
          if lw_max_ledger window \<le> latest_ledger \<and> oldest_ledger \<le> lw_min_ledger window
          then Some (Expired hash window latest_ledger) else None)"

definition is_transient :: "chain_error \<Rightarrow> bool" where
  "is_transient error =
     (case error of Transport _ \<Rightarrow> True | Http n \<Rightarrow> n = 429 \<or> 500 \<le> n \<and> n \<le> 599 | _ \<Rightarrow> False)"

text \<open>The loop of \<open>wait_for\<close>.\<close>

partial_function (option) wait_loop ::
  "'w host \<Rightarrow> tx_config \<Rightarrow> tx_hash \<Rightarrow> int \<Rightarrow> ledger_window \<Rightarrow> nat \<Rightarrow> ('w, tx_outcome) io" where
  "wait_loop host config hash sequence window deadline s =
     (case rpc_transaction host hash s of
        None \<Rightarrow> None
      | Some (answer, w, log) \<Rightarrow>
          (case (case answer of
                   Inr status \<Rightarrow> classify status hash window
                 | Inl error \<Rightarrow> if is_transient error then None else Some (Unknown hash sequence window)) of
             Some outcome \<Rightarrow> Some (Ok outcome, w, log)
           | None \<Rightarrow>
               (case ho_now host w of
                  (now, w) \<Rightarrow>
                    if deadline \<le> now then Some (Ok (Unknown hash sequence window), w, log)
                    else wait_loop host config hash sequence window deadline
                           (ho_sleep host (tc_poll_interval config) w, log))))"

definition wait_for ::
  "'w host \<Rightarrow> tx_config \<Rightarrow> tx_hash \<Rightarrow> int \<Rightarrow> ledger_window \<Rightarrow> ('w, tx_outcome) io" where
  "wait_for host config hash sequence window = (\<lambda>(w, log).
     case ho_now host w of
       (now, w) \<Rightarrow> wait_loop host config hash sequence window (now + tc_wait_cap config) (w, log))"

text \<open>\<open>Submitter::wait\<close>.\<close>

definition tx_wait :: "'w host \<Rightarrow> tx_config \<Rightarrow> prepared \<Rightarrow> ('w, tx_outcome) io" where
  "tx_wait host config prepared = wait_for host config (pp_hash prepared) (pp_sequence prepared) (pp_window prepared)"

section \<open>Preparing\<close>

definition seal ::
  "'w host \<Rightarrow> transaction \<Rightarrow> int \<Rightarrow> ledger_window \<Rightarrow> nat \<Rightarrow> int \<Rightarrow> prepared chain_result" where
  "seal host tx sequence window fee resource_fee =
     rbind (sign host tx) (\<lambda>envelope.
     rbind (xdr (ho_envelope_hash host envelope)) (\<lambda>hash.
     Ok \<lparr>pp_envelope = envelope, pp_hash = hash, pp_sequence = sequence, pp_window = window,
         pp_fee = fee, pp_resource_fee = resource_fee\<rparr>))"

text \<open>\<open>Submitter::restore\<close> once its envelope is sealed, and the whole of it.\<close>

definition restore_sealed :: "'w host \<Rightarrow> tx_config \<Rightarrow> prepared \<Rightarrow> ('w, unit) io" where
  "restore_sealed host config prepared =
     io_try (tx_send host config prepared) (\<lambda>sent.
     case sent of
       Inl error \<Rightarrow>
         io_lift (Err (if is_refusal error then error
                       else RestoreUnknown (pp_hash prepared) (pp_sequence prepared) (pp_window prepared)))
     | Inr _ \<Rightarrow>
         io_bind (tx_wait host config prepared) (\<lambda>outcome.
         io_lift (case outcome of
            Succeeded _ _ _ \<Rightarrow> Ok ()
          | Unknown hash sequence window \<Rightarrow> Err (RestoreUnknown hash sequence window)
          | other \<Rightarrow> Err (Restore (RestoreEnded other)))))"

definition tx_restore ::
  "'w host \<Rightarrow> tx_config \<Rightarrow> restore_preamble \<Rightarrow> int \<Rightarrow> nat \<Rightarrow> nat \<Rightarrow> ('w, unit) io" where
  "tx_restore host config preamble sequence latest_ledger inclusion =
     io_bind (io_lift (total_fee inclusion (pr_min_resource_fee preamble))) (\<lambda>fee.
     io_bind (unsigned_tx host config RestoreFootprint sequence latest_ledger fee) (\<lambda>(tx, window).
     io_bind (io_lift (seal host (tx\<lparr>tr_soroban_data := Some (pr_transaction_data preamble)\<rparr>)
       sequence window fee (pr_min_resource_fee preamble))) (restore_sealed host config)))"

text \<open>The part of \<open>prepare\<close> after its first simulation: restore and simulate again, or go on.\<close>

definition restore_if_needed ::
  "'w host \<Rightarrow> tx_config \<Rightarrow> operation \<Rightarrow> nat \<Rightarrow> int \<Rightarrow> simulated_call \<Rightarrow> nat
   \<Rightarrow> ('w, int \<times> simulated_call \<times> nat) io" where
  "restore_if_needed host config operation inclusion sequence call latest_ledger =
     (case sc_restore call of
        None \<Rightarrow> io_lift (Ok (sequence, call, latest_ledger))
      | Some preamble \<Rightarrow>
          io_bind (tx_restore host config preamble sequence latest_ledger inclusion) (\<lambda>_.
          io_bind (io_lift (ok_or (Shape SequenceOverflow) (checked_add_i64 sequence 1))) (\<lambda>sequence.
          io_bind (simulate_call host config operation sequence latest_ledger) (\<lambda>(call, latest_ledger).
          if sc_restore call \<noteq> None then io_lift (Err (Restore StillArchived))
          else io_lift (Ok (sequence, call, latest_ledger))))))"

text \<open>\<open>Submitter::prepare\<close>.\<close>

definition tx_prepare :: "'w host \<Rightarrow> tx_config \<Rightarrow> operation \<Rightarrow> priority \<Rightarrow> ('w, prepared) io" where
  "tx_prepare host config operation priority =
     io_bind (io_op (ho_account host)) (\<lambda>account.
     io_bind (io_op (ho_fee_stats host)) (\<lambda>fees.
     let inclusion = inclusion_fee config fees priority in
     io_bind (io_lift (ok_or (Shape SequenceOverflow) (checked_add_i64 (ac_sequence account) 1))) (\<lambda>sequence.
     io_bind (simulate_call host config operation sequence (ac_latest_ledger account)) (\<lambda>(call, latest_ledger).
     io_bind (restore_if_needed host config operation inclusion sequence call latest_ledger)
       (\<lambda>(sequence, call, latest_ledger).
     io_bind (unsigned_tx host config operation sequence latest_ledger 0) (\<lambda>(tx, window).
     io_bind (io_lift (assemble tx call inclusion)) (\<lambda>tx.
     io_lift (seal host tx sequence window (tr_fee tx) (sc_min_resource_fee call)))))))))"

datatype tx_judgment = Accepted | Refused "nat option" string | NeedsRestore

definition simulate_only :: "'w host \<Rightarrow> tx_config \<Rightarrow> operation \<Rightarrow> ('w, tx_judgment) io" where
  "simulate_only host config operation =
     io_bind (io_op (ho_account host)) (\<lambda>account.
     io_bind (io_lift (ok_or (Shape SequenceOverflow) (checked_add_i64 (ac_sequence account) 1))) (\<lambda>sequence.
     io_try (simulate_call host config operation sequence (ac_latest_ledger account)) (\<lambda>r.
     io_lift (case r of
        Inr (call, _) \<Rightarrow> Ok (if sc_restore call \<noteq> None then NeedsRestore else Accepted)
      | Inl (Simulation message contract_error) \<Rightarrow> Ok (Refused contract_error message)
      | Inl other \<Rightarrow> Err other))))"

text \<open>\<open>Submitter::submit\<close>.\<close>

definition tx_submit :: "'w host \<Rightarrow> tx_config \<Rightarrow> operation \<Rightarrow> priority \<Rightarrow> ('w, tx_outcome) io" where
  "tx_submit host config operation priority =
     io_bind (tx_prepare host config operation priority) (\<lambda>prepared.
     io_bind (tx_send host config prepared) (\<lambda>_. tx_wait host config prepared))"

lemma rpc_simulate_quiet: "quiet (rpc_simulate host envelope)"
  unfolding rpc_simulate_def by (intro quiet_rules)

lemma rpc_transaction_quiet: "quiet (rpc_transaction host hash)"
  unfolding rpc_transaction_def by (intro quiet_rules)

lemma unsigned_tx_quiet: "quiet (unsigned_tx host config operation sequence latest_ledger fee)"
  unfolding unsigned_tx_def unix_now_def by (intro quiet_rules)

lemma simulate_call_quiet: "quiet (simulate_call host config operation sequence latest_ledger)"
  unfolding simulate_call_def
  by (intro quiet_bind unsigned_tx_quiet)
    (auto intro!: quiet_bind rpc_simulate_quiet quiet_lift split: prod.split simulation_outcome.split)

text \<open>Waiting sends nothing, always answers, and answers for the hash it was asked about.\<close>

lemma classify_hash: "classify status hash window = Some out \<Longrightarrow> tx_outcome_hash out = hash"
  by (auto simp: classify_def tx_outcome_hash_def split: transaction_status.splits if_splits)

lemma tx_outcome_hash_Unknown [simp]: "tx_outcome_hash (Unknown hash sequence window) = hash"
  by (simp add: tx_outcome_hash_def)

lemma wait_loop_answers:
  assumes "wait_loop host config hash sequence window deadline s = Some res"
  shows "\<exists>out w'. res = (Ok out, w', snd s) \<and> tx_outcome_hash out = hash"
proof (rule wait_loop.raw_induct [where P = "\<lambda>host config hash sequence window deadline s res.
    \<exists>out w'. res = (Ok out, w', snd s) \<and> tx_outcome_hash out = hash", OF _ assms])
  fix f and host :: "'a host" and config hash sequence window deadline s res
  assume IH: "\<And>host config hash sequence window deadline s res.
      f host config hash sequence window deadline s = Some res \<Longrightarrow>
      \<exists>out w'. res = (Ok out, w', snd s) \<and> tx_outcome_hash out = hash"
    and eq: "(case rpc_transaction host hash s of
        None \<Rightarrow> None
      | Some (answer, w, log) \<Rightarrow>
          (case (case answer of
                   Inr status \<Rightarrow> classify status hash window
                 | Inl error \<Rightarrow> if is_transient error then None else Some (Unknown hash sequence window)) of
             Some outcome \<Rightarrow> Some (Ok outcome, w, log)
           | None \<Rightarrow>
               (case ho_now host w of
                  (now, w) \<Rightarrow>
                    if deadline \<le> now then Some (Ok (Unknown hash sequence window), w, log)
                    else f host config hash sequence window deadline
                           (ho_sleep host (tc_poll_interval config) w, log)))) = Some res"
  from eq obtain answer w log where rt: "rpc_transaction host hash s = Some (answer, w, log)"
    by (auto split: option.splits)
  have log: "log = snd s" using logsD [OF rpc_transaction_quiet, of host hash "fst s" "snd s"] rt by simp
  let ?v = "case answer of Inr status \<Rightarrow> classify status hash window
                 | Inl error \<Rightarrow> if is_transient error then None else Some (Unknown hash sequence window)"
  show "\<exists>out w'. res = (Ok out, w', snd s) \<and> tx_outcome_hash out = hash"
  proof (cases ?v)
    case (Some out)
    then have "tx_outcome_hash out = hash"
      by (auto intro: classify_hash split: sum.splits if_splits)
    then show ?thesis using eq rt Some log by auto
  next
    case None
    obtain now w1 where now: "ho_now host w = (now, w1)" by (cases "ho_now host w")
    show ?thesis
    proof (cases "deadline \<le> now")
      case True
      then show ?thesis using eq rt None now log by auto
    next
      case False
      then have "f host config hash sequence window deadline (ho_sleep host (tc_poll_interval config) w1, log) = Some res"
        using eq rt None now by simp
      from IH [OF this] show ?thesis by (simp add: log)
    qed
  qed
qed

lemma wait_for_answers:
  "logs (wait_for host config hash sequence window) (\<lambda>r ev. ev = [] \<and> (\<exists>out. r = Ok out \<and> tx_outcome_hash out = hash))"
  by (rule logsI) (auto simp: wait_for_def dest!: wait_loop_answers split: prod.splits)

section \<open>What a send may have done\<close>

text \<open>An answer that says the envelope never reached the network's queue.\<close>

definition refused_answer :: "send_status chain_result \<Rightarrow> bool" where
  "refused_answer a = (case a of
     Inr status \<Rightarrow> (case ss_outcome status of TryAgainLater \<Rightarrow> True | SendError _ _ \<Rightarrow> True | _ \<Rightarrow> False)
   | Inl _ \<Rightarrow> False)"

definition all_refused :: "send_log \<Rightarrow> bool" where
  "all_refused ev = list_all (\<lambda>(_, a). refused_answer a) ev"

lemma all_refused_simps [simp]:
  "all_refused []" "all_refused (x # xs) \<longleftrightarrow> refused_answer (snd x) \<and> all_refused xs"
  "all_refused (xs @ ys) \<longleftrightarrow> all_refused xs \<and> all_refused ys"
  by (auto simp: all_refused_def split: prod.splits)

text \<open>The sends of one envelope: at most two, and none after one that may have been accepted.\<close>

definition sends_of :: "envelope \<Rightarrow> ('a chain_result) \<Rightarrow> send_log \<Rightarrow> bool" where
  "sends_of envelope r ev \<longleftrightarrow> (\<forall>x \<in> set ev. fst x = envelope) \<and> length ev \<le> 2 \<and> all_refused (butlast ev)
     \<and> (\<forall>e. r = Err e \<and> is_refusal e \<longrightarrow> all_refused ev)"

lemma send_verdict_refusal: "send_verdict prepared status = Err e \<Longrightarrow> is_refusal e \<Longrightarrow> refused_answer (Ok status)"
  by (auto simp: send_verdict_def refused_answer_def split: send_outcome.splits if_splits)

lemma rpc_send_logs:
  "logs (rpc_send host envelope) (\<lambda>r ev. ev = [] \<and> (\<exists>e. r = Err e \<and> \<not> is_refusal e)
      \<or> ev = [(envelope, r)] \<and> (\<forall>e. r = Err e \<longrightarrow> \<not> is_refusal e))"
proof (rule logsI)
  fix w log r w' log'
  assume run: "rpc_send host envelope (w, log) = Some (r, w', log')"
  show "\<exists>ev. log' = log @ ev \<and> (ev = [] \<and> (\<exists>e. r = Err e \<and> \<not> is_refusal e)
      \<or> ev = [(envelope, r)] \<and> (\<forall>e. r = Err e \<longrightarrow> \<not> is_refusal e))"
  proof (cases "ho_encode host envelope")
    case (Inl e)
    then show ?thesis using run by (auto simp: rpc_send_def io_bind_def io_lift_def xdr_def)
  next
    case (Inr t)
    obtain answer w1 where a: "ho_post host (SendTransaction t) w = (answer, w1)" by (cases "ho_post host (SendTransaction t) w")
    let ?r = "rbind (rpc_call (ho_read_send host) ''sendTransaction'' answer) (read_send (ho_codec host))"
    have "log' = log @ [(envelope, ?r)]" "r = ?r"
      using run Inr a by (auto simp: rpc_send_def io_bind_def io_lift_def xdr_def Let_def)
    moreover have "\<not> is_refusal e" if "?r = Err e" for e
      using that rpc_call_error read_send_error unfolding rbind_eq_Err by blast
    ultimately show ?thesis by blast
  qed
qed

lemma tx_send_logs:
  fixes host :: "'w host"
  shows "logs (tx_send host config prepared) (sends_of (pp_envelope prepared))"
proof -
  let ?env = "pp_envelope prepared"
  let ?one = "\<lambda>r ev. ev = [] \<and> (\<exists>e. r = Err e \<and> \<not> is_refusal e)
      \<or> ev = [(?env, r)] \<and> (\<forall>e. r = Err e \<longrightarrow> \<not> is_refusal e)"
  have verdict: "logs (io_lift (send_verdict prepared status) :: ('w, unit) io) (\<lambda>r ev. ev = [] \<and> r = send_verdict prepared status)" for status
    by (rule logs_lift) simp
  have again: "logs (io_bind (rpc_send host ?env) (\<lambda>status. io_lift (send_verdict prepared status))) (\<lambda>r ev.
      ev = [] \<and> (\<exists>e. r = Err e \<and> \<not> is_refusal e)
      \<or> (\<exists>a. ev = [(?env, a)] \<and> (\<forall>e. r = Err e \<and> is_refusal e \<longrightarrow> refused_answer a)))"
    by (rule logs_bind [OF rpc_send_logs verdict]) (auto dest: send_verdict_refusal)
  have slept: "logs (io_bind (io_op (\<lambda>w. (Ok (), ho_sleep host (tc_send_retry_pause config) w)))
      (\<lambda>_. io_bind (rpc_send host ?env) (\<lambda>status. io_lift (send_verdict prepared status)))) (\<lambda>r ev.
      ev = [] \<and> (\<exists>e. r = Err e \<and> \<not> is_refusal e)
      \<or> (\<exists>a. ev = [(?env, a)] \<and> (\<forall>e. r = Err e \<and> is_refusal e \<longrightarrow> refused_answer a)))"
    by (rule logs_bind [where P = "\<lambda>r ev. r = Ok () \<and> ev = []", OF logs_op again]) auto
  have rest: "logs (if ss_outcome status = TryAgainLater then
       io_bind (io_op (\<lambda>w. (Ok (), ho_sleep host (tc_send_retry_pause config) w))) (\<lambda>_.
       io_bind (rpc_send host (pp_envelope prepared)) (\<lambda>status.
       io_lift (send_verdict prepared status)))
     else io_lift (send_verdict prepared status)) (\<lambda>r ev.
       if ss_outcome status = TryAgainLater then ev = [] \<and> (\<exists>e. r = Err e \<and> \<not> is_refusal e)
         \<or> (\<exists>a. ev = [(?env, a)] \<and> (\<forall>e. r = Err e \<and> is_refusal e \<longrightarrow> refused_answer a))
       else ev = [] \<and> r = send_verdict prepared status)" for status
    using slept verdict by simp
  show ?thesis unfolding tx_send_def
    by (rule logs_bind [OF rpc_send_logs rest])
      (auto simp: sends_of_def refused_answer_def [of "Ok _"] dest: send_verdict_refusal split: if_splits)
qed

text \<open>A restore sends only its own envelope.\<close>

definition restores :: "send_log \<Rightarrow> bool" where
  "restores ev = list_all (\<lambda>(en, _). tr_operation (en_tx en) = RestoreFootprint) ev"

lemma restores_simps [simp]: "restores []" "restores (xs @ ys) \<longleftrightarrow> restores xs \<and> restores ys"
  by (simp_all add: restores_def)

lemma seal_Ok:
  "seal host tx sequence window fee resource_fee = Ok p \<Longrightarrow>
   en_tx (pp_envelope p) = tx \<and> pp_window p = window \<and> pp_sequence p = sequence
   \<and> xdr (ho_envelope_hash host (pp_envelope p)) = Ok (pp_hash p)"
  by (auto simp: seal_def sign_def)

lemma sends_of_restores:
  "sends_of en r ev \<Longrightarrow> tr_operation (en_tx en) = RestoreFootprint \<Longrightarrow> restores ev \<and> length ev \<le> 2"
  by (auto simp: sends_of_def restores_def list_all_iff)

lemma unsigned_tx_Ok:
  assumes "unsigned_tx host config operation sequence latest_ledger fee (w, log) = Some (Ok (tx, window), s)"
  shows "tr_operation tx = operation \<and> tr_ledger_bounds tx = window \<and> lw_min_ledger window < lw_max_ledger window
    \<and> tr_seq_num tx = sequence"
  using assms
  by (auto simp: unsigned_tx_def io_bind_def io_lift_def ledger_window_try_new_def split: option.splits sum.splits if_splits)

lemma unsigned_tx_logs:
  "logs (unsigned_tx host config operation sequence latest_ledger fee) (\<lambda>r ev. ev = []
     \<and> (\<forall>tx window. r = Ok (tx, window) \<longrightarrow> tr_operation tx = operation \<and> tr_ledger_bounds tx = window
          \<and> lw_min_ledger window < lw_max_ledger window \<and> tr_seq_num tx = sequence))"
proof (rule logsI)
  fix w log r w' log'
  assume run: "unsigned_tx host config operation sequence latest_ledger fee (w, log) = Some (r, w', log')"
  show "\<exists>ev. log' = log @ ev \<and> ev = [] \<and> (\<forall>tx window. r = Ok (tx, window) \<longrightarrow> tr_operation tx = operation
      \<and> tr_ledger_bounds tx = window \<and> lw_min_ledger window < lw_max_ledger window \<and> tr_seq_num tx = sequence)"
  proof (intro exI [of _ "[]"] conjI allI impI)
    show "log' = log @ []" using logsD [OF unsigned_tx_quiet run] by simp
    fix tx window
    assume "r = Ok (tx, window)"
    with run have "unsigned_tx host config operation sequence latest_ledger fee (w, log) = Some (Ok (tx, window), w', log')"
      by simp
    from unsigned_tx_Ok [OF this] show "tr_operation tx = operation" "tr_ledger_bounds tx = window"
      "lw_min_ledger window < lw_max_ledger window" "tr_seq_num tx = sequence" by simp_all
  qed simp
qed

lemma tx_wait_logs:
  "logs (tx_wait host config p) (\<lambda>r ev. ev = [] \<and> (\<exists>out. r = Ok out \<and> tx_outcome_hash out = pp_hash p))"
  unfolding tx_wait_def by (rule wait_for_answers)

lemma tx_wait_quiet: "quiet (tx_wait host config p)"
  by (rule logs_mono [OF tx_wait_logs]) simp

lemma restore_sealed_logs:
  assumes "tr_operation (en_tx (pp_envelope p)) = RestoreFootprint"
  shows "logs (restore_sealed host config p) (\<lambda>r ev. restores ev \<and> length ev \<le> 2)"
  unfolding restore_sealed_def
proof (rule logs_try [OF tx_send_logs, where Q = "\<lambda>x r ev. ev = []"], goal_cases)
  case (1 sent)
  show ?case by (cases sent) (auto intro: quiet_bind quiet_lift tx_wait_quiet)
next
  case (2 x ev r ev')
  then show ?case using sends_of_restores assms by auto
qed

lemma tx_restore_logs:
  "logs (tx_restore host config preamble sequence latest_ledger inclusion) (\<lambda>r ev. restores ev \<and> length ev \<le> 2)"
  unfolding tx_restore_def
proof (rule logs_quiet_bind [OF quiet_lift], rule logs_seq [OF unsigned_tx_logs], goal_cases)
  case (1 fee x ev)
  obtain tx window where x: "x = (tx, window)" by (cases x)
  have op: "tr_operation tx = RestoreFootprint" "ev = []" using 1 x by simp_all
  show ?case unfolding x prod.case
    by (rule logs_seq [OF logs_lift_eq]) (use op in \<open>auto dest!: seal_Ok [OF sym] intro!: restore_sealed_logs\<close>)
qed auto

text \<open>Preparing sends nothing but a restore, and seals an envelope of the operation asked for.\<close>

definition sealed_for :: "'w host \<Rightarrow> operation \<Rightarrow> prepared \<Rightarrow> bool" where
  "sealed_for host operation p \<longleftrightarrow>
     (tr_operation (en_tx (pp_envelope p)) = RestoreFootprint \<longleftrightarrow> operation = RestoreFootprint)
     \<and> xdr (ho_envelope_hash host (pp_envelope p)) = Ok (pp_hash p)
     \<and> tr_ledger_bounds (en_tx (pp_envelope p)) = pp_window p \<and> tr_seq_num (en_tx (pp_envelope p)) = pp_sequence p
     \<and> lw_min_ledger (pp_window p) < lw_max_ledger (pp_window p)"

lemma assemble_Ok:
  "assemble tx call inclusion = Ok tx' \<Longrightarrow>
   (tr_operation tx' = RestoreFootprint \<longleftrightarrow> tr_operation tx = RestoreFootprint)
   \<and> tr_ledger_bounds tx' = tr_ledger_bounds tx \<and> tr_seq_num tx' = tr_seq_num tx"
  by (auto simp: assemble_def split: operation.splits)

lemma restore_if_needed_logs:
  "logs (restore_if_needed host config operation inclusion sequence call latest_ledger)
     (\<lambda>r ev. restores ev \<and> length ev \<le> 2)"
proof (cases "sc_restore call")
  case None
  then show ?thesis by (simp add: restore_if_needed_def logs_lift)
next
  case (Some preamble)
  have "quiet (io_bind (io_lift (ok_or (Shape SequenceOverflow) (checked_add_i64 sequence 1))) (\<lambda>sequence.
      io_bind (simulate_call host config operation sequence latest_ledger) (\<lambda>(call, latest_ledger).
      if sc_restore call \<noteq> None then io_lift (Err (Restore StillArchived))
      else io_lift (Ok (sequence, call, latest_ledger)))))"
    by (intro quiet_bind quiet_lift simulate_call_quiet) (auto intro: quiet_lift split: prod.split)
  then show ?thesis unfolding restore_if_needed_def Some option.case
    by (rule logs_bind [OF tx_restore_logs]) auto
qed

lemma tx_prepare_logs:
  "logs (tx_prepare host config operation priority) (\<lambda>r ev. restores ev \<and> length ev \<le> 2
     \<and> (\<forall>p. r = Ok p \<longrightarrow> sealed_for host operation p))"
proof -
  let ?P = "\<lambda>r ev. restores ev \<and> length ev \<le> 2 \<and> (\<forall>p. r = Ok p \<longrightarrow> sealed_for host operation p)"
  have sealed: "logs (io_bind (io_lift (assemble tx call inclusion)) (\<lambda>tx.
       io_lift (seal host tx sequence window (tr_fee tx) (sc_min_resource_fee call))))
       (\<lambda>r ev. ev = [] \<and> (\<forall>p. r = Ok p \<longrightarrow> sealed_for host operation p))"
    if "tr_operation tx = operation" "tr_ledger_bounds tx = window" "tr_seq_num tx = sequence"
      "lw_min_ledger window < lw_max_ledger window" for tx call inclusion sequence window
    by (rule logs_seq [OF logs_lift_eq], rule logs_mono [OF logs_lift_eq])
      (use that in \<open>auto simp: sealed_for_def dest!: assemble_Ok [OF sym] seal_Ok\<close>)
  have built: "logs (io_bind (unsigned_tx host config operation sequence latest_ledger 0) (\<lambda>(tx, window).
       io_bind (io_lift (assemble tx call inclusion)) (\<lambda>tx.
       io_lift (seal host tx sequence window (tr_fee tx) (sc_min_resource_fee call)))))
       (\<lambda>r ev. ev = [] \<and> (\<forall>p. r = Ok p \<longrightarrow> sealed_for host operation p))" for sequence latest_ledger call inclusion
    by (rule logs_seq [OF unsigned_tx_logs]) (auto intro: sealed split: prod.split)
  have restored: "logs (io_bind (restore_if_needed host config operation inclusion sequence call latest_ledger)
       (\<lambda>(sequence, call, latest_ledger).
       io_bind (unsigned_tx host config operation sequence latest_ledger 0) (\<lambda>(tx, window).
       io_bind (io_lift (assemble tx call inclusion)) (\<lambda>tx.
       io_lift (seal host tx sequence window (tr_fee tx) (sc_min_resource_fee call)))))) ?P"
    for sequence latest_ledger call inclusion
    by (rule logs_bind [OF restore_if_needed_logs, where Q = "\<lambda>x r ev. ev = [] \<and> (\<forall>p. r = Ok p \<longrightarrow> sealed_for host operation p)"])
      (auto intro: built split: prod.split)
  show ?thesis unfolding tx_prepare_def Let_def
    by (intro logs_quiet_bind quiet_op quiet_lift simulate_call_quiet) (auto intro: restored split: prod.split)
qed

section \<open>A concrete world\<close>

text \<open>
  A clock in milliseconds and the bodies the RPC will answer next, an empty body once they
  run out; shutdown is requested from the instant 1000000 on. The codec and serde read the
  few bodies the examples use.
\<close>

definition sample_hash :: tx_hash where
  "sample_hash = replicate 32 0"

definition sample_read_send :: "string \<Rightarrow> (string, raw_send option \<times> json_rpc_error option) result" where
  "sample_read_send body = Ok (Some \<lparr>rs_status = body, rs_hash = replicate 64 (CHR ''0''), rs_latest_ledger = 10,
     rs_error_result_xdr = None, rs_diagnostic_events_xdr = []\<rparr>, None)"

definition sample_read_transaction :: "string \<Rightarrow> (string, raw_transaction option \<times> json_rpc_error option) result" where
  "sample_read_transaction body = Ok (Some \<lparr>rt_status = body, rt_latest_ledger = 11, rt_oldest_ledger = 1,
     rt_ledger = Some 11, rt_result_xdr = None, rt_result_meta_xdr = Some [], rt_diagnostic_events_xdr = []\<rparr>, None)"

definition sample_read_simulation :: "string \<Rightarrow> (string, raw_simulation option \<times> json_rpc_error option) result" where
  "sample_read_simulation body = Ok (Some \<lparr>rm_latest_ledger = 10, rm_error = None,
     rm_results = [\<lparr>rr_xdr = [], rr_auth = []\<rparr>], rm_transaction_data = Some [], rm_min_resource_fee = Some ''5'',
     rm_events = [], rm_restore_preamble = None\<rparr>, None)"

definition sample_codec :: codec where
  "sample_codec = \<lparr>co_result = (\<lambda>t. Ok (OtherResult t)), co_event = (\<lambda>t. Ok []), co_meta = (\<lambda>t. Ok MetaOther),
     co_scval = Ok, co_auth = Ok, co_data = Ok\<rparr>"

definition sample_host :: "(nat \<times> string list) host" where
  "sample_host = \<lparr>
     ho_post = (\<lambda>_ (t, bodies). (Response 200 (Ok (case bodies of [] \<Rightarrow> [] | b # _ \<Rightarrow> b)), (t, tl bodies))),
     ho_account = (\<lambda>w. (Ok \<lparr>ac_sequence = 7, ac_latest_ledger = 10\<rparr>, w)),
     ho_fee_stats = (\<lambda>w. (Ok \<lparr>fs_soroban_percentile_70 = 100, fs_soroban_percentile_90 = 200, fs_latest_ledger = 10\<rparr>, w)),
     ho_unix_now = (\<lambda>w. (Some (fst w div 1000), w)), ho_now = (\<lambda>w. (fst w, w)),
     ho_sleep = (\<lambda>d (t, bodies). (t + d, bodies)), ho_pause = (\<lambda>d (t, bodies). (t + d, bodies)),
     ho_shutdown = (\<lambda>(t, _). 1000000 \<le> t), ho_codec = sample_codec, ho_encode = (\<lambda>_. Ok []),
     ho_read_send = sample_read_send, ho_read_transaction = sample_read_transaction,
     ho_read_simulation = sample_read_simulation, ho_tx_hash = (\<lambda>_. Ok sample_hash),
     ho_envelope_hash = (\<lambda>_. Ok sample_hash), ho_signature = to_hex, ho_address = ''G''\<rparr>"

definition sample_tx_config :: tx_config where
  "sample_tx_config = tx_config_new 100 200 5"

abbreviation sample_window :: ledger_window where
  "sample_window \<equiv> \<lparr>lw_min_ledger = 10, lw_max_ledger = 16\<rparr>"

lemmas sample_world_defs = sample_host_def sample_tx_config_def tx_config_new_def sample_codec_def
  sample_read_send_def sample_read_transaction_def sample_read_simulation_def

section \<open>Properties\<close>

text \<open>What waiting needs of the world: a clock that sleeping advances and nothing turns back.\<close>

definition clock_ok :: "'w host \<Rightarrow> ('w \<Rightarrow> nat) \<Rightarrow> bool" where
  "clock_ok host time \<longleftrightarrow>
     (\<forall>w. fst (ho_now host w) = time w \<and> time (snd (ho_now host w)) = time w)
     \<and> (\<forall>w request. time w \<le> time (snd (ho_post host request w)))
     \<and> (\<forall>w d. time w + d \<le> time (ho_sleep host d w))"

lemma rpc_transaction_returns:
  "\<exists>r w'. rpc_transaction host hash (w, log) = Some (r, w', log) \<and> w' = snd (ho_post host (GetTransaction (to_hex hash)) w)"
  by (auto simp: rpc_transaction_def io_bind_def io_op_def io_lift_def split: prod.splits sum.splits)

lemma wait_loop_returns:
  assumes "clock_ok host time" "0 < tc_poll_interval config"
  shows "\<exists>r w' log'. wait_loop host config hash sequence window deadline (w, log) = Some (r, w', log') \<and> time w \<le> time w'"
proof (induction "deadline - time w" arbitrary: w rule: less_induct)
  case less
  obtain r w1 where rt: "rpc_transaction host hash (w, log) = Some (r, w1, log)"
    and w1: "w1 = snd (ho_post host (GetTransaction (to_hex hash)) w)"
    using rpc_transaction_returns [of host hash w log] by blast
  obtain w2 where now: "ho_now host w1 = (time w1, w2)" and w2: "time w2 = time w1"
    using assms(1) unfolding clock_ok_def by (metis prod.collapse)
  let ?w3 = "ho_sleep host (tc_poll_interval config) w2"
  have later: "time w \<le> time w1" "time w2 + tc_poll_interval config \<le> time ?w3"
    using assms(1) w1 by (simp_all add: clock_ok_def)
  let ?v = "case r of Inr status \<Rightarrow> classify status hash window
                 | Inl error \<Rightarrow> if is_transient error then None else Some (Unknown hash sequence window)"
  show ?case
  proof (cases "?v \<noteq> None \<or> deadline \<le> time w1")
    case True
    then show ?thesis using later w2 by (subst wait_loop.simps) (auto simp: rt now split: option.splits)
  next
    case False
    then have "deadline - time ?w3 < deadline - time w" using later w2 assms(2) by linarith
    from less.hyps [OF this] obtain r w' log' where
      "wait_loop host config hash sequence window deadline (?w3, log) = Some (r, w', log')" "time ?w3 \<le> time w'" by blast
    then show ?thesis using False later w2 by (subst wait_loop.simps) (auto simp: rt now)
  qed
qed

lemma wait_for_returns_later:
  assumes "clock_ok host time" "0 < tc_poll_interval config"
  shows "\<exists>out w'. wait_for host config hash sequence window (w, log) = Some (Ok out, w', log)
    \<and> tx_outcome_hash out = hash \<and> time w \<le> time w'"
proof -
  obtain w1 where now: "ho_now host w = (time w, w1)" and w1: "time w1 = time w"
    using assms(1) unfolding clock_ok_def by (metis prod.collapse)
  obtain r w' log' where run: "wait_for host config hash sequence window (w, log) = Some (r, w', log')"
    and "time w \<le> time w'"
    using wait_loop_returns [OF assms, of hash sequence window "time w + tc_wait_cap config" w1 log] now w1
    by (auto simp: wait_for_def)
  with logsD [OF wait_for_answers run] show ?thesis by auto
qed

text \<open>
  Waiting for a transaction always returns, whatever the RPC answers, with an outcome for
  the hash it was asked about and never with an error, and it sends nothing.
\<close>

lemma wait_for_returns:
  assumes "clock_ok host time" "0 < tc_poll_interval config"
  shows "\<exists>out w'. wait_for host config hash sequence window (w, log) = Some (Ok out, w', log)
    \<and> tx_outcome_hash out = hash"
  using wait_for_returns_later [OF assms] by blast

lemma sample_clock_ok: "clock_ok sample_host fst"
  by (auto simp: clock_ok_def sample_host_def)

text \<open>
  C32: \<open>Expired\<close> is proof. When the ledgers in which a transaction is applied are bounded by
  its window, and a \<open>NOT_FOUND\<close> truthfully says it is in none of the ledgers the RPC holds,
  a transaction classified as expired is applied in no ledger at all.
\<close>

theorem expired_is_proof:
  assumes "classify status hash window = Some (Expired hash' window' latest)"
    and "\<And>ledger. applied ledger \<Longrightarrow> lw_min_ledger window \<le> ledger \<and> ledger < lw_max_ledger window"
    and "\<And>ledger newest oldest. status = NotFound newest oldest \<Longrightarrow> oldest \<le> ledger \<Longrightarrow> ledger \<le> newest \<Longrightarrow> \<not> applied ledger"
  shows "\<not> applied ledger"
proof
  assume a: "applied ledger"
  from assms(1) obtain newest oldest where st: "status = NotFound newest oldest"
    and "lw_max_ledger window \<le> newest" "oldest \<le> lw_min_ledger window"
    by (auto simp: classify_def split: transaction_status.splits if_splits)
  with assms(2) [OF a] have "oldest \<le> ledger" "ledger \<le> newest" by linarith+
  from assms(3) [OF st this] a show False by simp
qed

theorem expired_is_proof_witness: "\<not> (\<lambda>n::nat. n = 3 \<and> n = 12) 12"
  by (rule expired_is_proof [of "NotFound 16 3" sample_hash sample_window sample_hash sample_window 16
        "\<lambda>n. n = 3 \<and> n = 12"]) (auto simp: classify_def)

text \<open>
  Judging an operation sends nothing: the path a dry run takes posts no envelope to
  \<open>sendTransaction\<close>, whatever the world answers.
\<close>

lemma simulate_only_sends_nothing:
  "simulate_only host config operation (w, log) = Some (r, w', log') \<Longrightarrow> log' = log"
proof -
  assume run: "simulate_only host config operation (w, log) = Some (r, w', log')"
  have "quiet (simulate_only host config operation)"
    unfolding simulate_only_def
    by (intro quiet_bind quiet_op quiet_lift logs_try [where P = "\<lambda>r ev. ev = []" and Q = "\<lambda>x r ev. ev = []"]
        simulate_call_quiet) simp
  from logsD [OF this run] show "log' = log" by simp
qed

end
