(* ===== verification/Store.thy ===== *)
theory Store
  imports Chain_Rpc
begin

text \<open>
  \<open>src/store.rs\<close>: the tables the bot keeps in Postgres and the queries on them. A table is a list
  of rows, its order being the one Postgres happens to return rows in; what the queries promise
  never depends on it. A row holds its columns as the database does (\<open>numeric\<close> and \<open>bigint\<close>
  as integers, \<open>jsonb\<close> as a value), so writing and reading go through the crate's own encodings.
  A statement that violates a constraint of \<open>migrations/\<close> is a query error. Text columns are
  ordered as strings. A lost connection is not a matter of the tables and is
  added where the store is used.
\<close>

section \<open>Numbers as text\<close>

text \<open>\<open>to_string\<close> of an unsigned and of a signed integer.\<close>

definition digit_char :: "nat \<Rightarrow> char" where
  "digit_char n = char_of (48 + n)"

fun nat_text :: "nat \<Rightarrow> string" where
  "nat_text n = (if n < 10 then [digit_char n] else nat_text (n div 10) @ [digit_char (n mod 10)])"

declare nat_text.simps [simp del]

definition int_text :: "int \<Rightarrow> string" where
  "int_text i = (if i < 0 then CHR ''-'' # nat_text (nat (- i)) else nat_text (nat i))"

text \<open>\<open>str::parse::<i128>\<close>.\<close>

definition parse_i128 :: "string \<Rightarrow> int option" where
  "parse_i128 text = Option.bind (parse_signed text) checked_i128"

lemma of_char_digit: "d < 10 \<Longrightarrow> (of_char (digit_char d) :: nat) = 48 + d"
  by (simp add: digit_char_def of_char_of)

lemma decimal_digits_append:
  "decimal_digits acc (xs @ ys) = Option.bind (decimal_digits acc xs) (\<lambda>acc. decimal_digits acc ys)"
  by (induction xs arbitrary: acc) (simp_all add: Let_def)

lemma decimal_digits_nat_text: "decimal_digits 0 (nat_text n) = Some n"
proof (induction n rule: nat_text.induct)
  case (1 n)
  show ?case
  proof (cases "n < 10")
    case True
    then show ?thesis by (simp add: nat_text.simps [of n] of_char_digit)
  next
    case False
    with 1 show ?thesis
      by (simp add: nat_text.simps [of n] decimal_digits_append of_char_digit)
  qed
qed

lemma nat_text_not_Nil [simp]: "nat_text n \<noteq> []"
  by (simp add: nat_text.simps [of n])

lemma nat_text_first: "\<exists>d < 10. \<exists>rest. nat_text n = digit_char d # rest"
proof (induction n rule: nat_text.induct)
  case (1 n)
  then show ?case by (cases "n < 10") (fastforce simp: nat_text.simps [of n])+
qed

lemma digit_not_sign: "d < 10 \<Longrightarrow> digit_char d \<noteq> CHR ''-''" "d < 10 \<Longrightarrow> digit_char d \<noteq> CHR ''+''"
  using of_char_digit [of d] by auto

lemma parse_decimal_nat_text [simp]: "parse_decimal (nat_text n) = Some n"
  by (simp add: parse_decimal_def decimal_digits_nat_text)

lemma parse_u32_nat_text [simp]: "n \<le> u32_max \<Longrightarrow> parse_u32 (nat_text n) = Some n"
proof -
  assume n: "n \<le> u32_max"
  obtain d rest where d: "d < 10" "nat_text n = digit_char d # rest" using nat_text_first by blast
  then show ?thesis
    using n parse_decimal_nat_text [of n] digit_not_sign [of d] by (simp add: parse_u32_def)
qed

lemma parse_signed_int_text [simp]: "parse_signed (int_text i) = Some i"
proof (cases "i < 0")
  case True
  then show ?thesis by (simp add: int_text_def parse_signed_def)
next
  case False
  obtain d rest where d: "d < 10" "nat_text (nat i) = digit_char d # rest" using nat_text_first by blast
  then show ?thesis
    using False parse_decimal_nat_text [of "nat i"] digit_not_sign [of d]
    by (simp add: int_text_def parse_signed_def)
qed

lemma parse_i128_int_text [simp]: "in_i128 i \<Longrightarrow> parse_i128 (int_text i) = Some i"
  by (simp add: parse_i128_def checked_i128_def)

lemma nat_text_inj [simp]: "nat_text m = nat_text n \<longleftrightarrow> m = n"
  by (metis decimal_digits_nat_text option.inject)

section \<open>Columns\<close>

datatype json_fault = NotAnObject | NotAnIndex string | NotAString string | NotANumber string

datatype store_error =
    Query string
  | Decimal string string
  | Json string json_fault

type_synonym 'a store_result = "(store_error, 'a) result"

datatype json = JObject "(string, json) btree" | JString string | JArray "json list" | JOther string

definition decimal :: "string option \<Rightarrow> string \<Rightarrow> int store_result" where
  "decimal text column =
     (case text of
        None \<Rightarrow> Err (Decimal column ''NULL'')
      | Some text \<Rightarrow> ok_or (Decimal column text) (parse_i128 text))"

definition index_amounts_to_json :: "(nat, int) btree \<Rightarrow> json" where
  "index_amounts_to_json amounts =
     JObject (bt_collect (map (\<lambda>(index, amount). (nat_text index, JString (int_text amount))) amounts))"

text \<open>\<open>as_str()\<close> and the parse of an amount.\<close>

definition json_amount :: "string \<Rightarrow> string \<Rightarrow> json \<Rightarrow> int store_result" where
  "json_amount column key amount =
     (case amount of
        JString text \<Rightarrow> ok_or (Json column (NotANumber key)) (parse_i128 text)
      | _ \<Rightarrow> Err (Json column (NotAString key)))"

definition index_amount :: "string \<Rightarrow> string \<times> json \<Rightarrow> (nat \<times> int) store_result" where
  "index_amount column = (\<lambda>(key, amount).
     rbind (ok_or (Json column (NotAnIndex key)) (parse_u32 key)) (\<lambda>index.
     rbind (json_amount column key amount) (\<lambda>amount.
     Ok (index, amount))))"

definition index_amounts_from_json :: "json \<Rightarrow> string \<Rightarrow> (nat, int) btree store_result" where
  "index_amounts_from_json value column =
     (case value of
        JObject object \<Rightarrow> rbind (rmap_list (index_amount column) object) (\<lambda>pairs. Ok (bt_collect pairs))
      | _ \<Rightarrow> Err (Json column NotAnObject))"

definition asset_amounts_to_json :: "(string, int) btree \<Rightarrow> json" where
  "asset_amounts_to_json amounts =
     JObject (bt_collect (map (\<lambda>(asset, amount). (asset, JString (int_text amount))) amounts))"

definition asset_amount :: "string \<Rightarrow> string \<times> json \<Rightarrow> (string \<times> int) store_result" where
  "asset_amount column = (\<lambda>(asset, amount).
     rbind (json_amount column asset amount) (\<lambda>amount. Ok (asset, amount)))"

definition asset_amounts_from_json :: "json \<Rightarrow> string \<Rightarrow> (string, int) btree store_result" where
  "asset_amounts_from_json value column =
     (case value of
        JObject object \<Rightarrow> rbind (rmap_list (asset_amount column) object) (\<lambda>pairs. Ok (bt_collect pairs))
      | _ \<Rightarrow> Err (Json column NotAnObject))"

text \<open>\<open>ledger\<close>: a \<open>bigint\<close> back into the chain's \<open>u32\<close>.\<close>

definition ledger_column :: "int \<Rightarrow> string \<Rightarrow> nat store_result" where
  "ledger_column value column =
     (if 0 \<le> value \<and> value \<le> int u32_max then Ok (nat value) else Err (Decimal column (int_text value)))"

text \<open>\<open>map(f).transpose()\<close>.\<close>

definition opt_column :: "('a \<Rightarrow> 'b store_result) \<Rightarrow> 'a option \<Rightarrow> 'b option store_result" where
  "opt_column f v = (case v of None \<Rightarrow> Ok None | Some x \<Rightarrow> rmap Some (f x))"

definition auction_type_from_code :: "int \<Rightarrow> auction_type store_result" where
  "auction_type_from_code code =
     (if code < 0 then Err (Decimal ''auction_type'' (int_text code))
      else
        case auction_type_try_from (nat code) of
          Inl _ \<Rightarrow> Err (Decimal ''auction_type'' (int_text code))
        | Inr t \<Rightarrow> Ok t)"

definition percent_from_code :: "int \<Rightarrow> fill_percent store_result" where
  "percent_from_code code =
     (if code < 0 then Err (Decimal ''percent'' (int_text code))
      else ok_or (Decimal ''percent'' (int_text code)) (fill_percent_try_from (nat code)))"

text \<open>A percent as a \<open>smallint\<close>.\<close>

definition percent_to_code :: "fill_percent \<Rightarrow> int store_result" where
  "percent_to_code percent =
     (if fp_get percent \<le> 32767 then Ok (int (fp_get percent))
      else Err (Decimal ''percent'' (nat_text (fp_get percent))))"

section \<open>The tables\<close>

record cursor =
  cu_ledger :: nat
  cu_paging_token :: "string option"

definition events_cursor :: "string \<Rightarrow> string" where
  "events_cursor pool = ''events:'' @ pool"

record tracked_user =
  tu_pool :: string
  tu_account :: string
  tu_health_factor :: int
  tu_collateral :: "(nat, int) btree"
  tu_liabilities :: "(nat, int) btree"
  tu_updated_ledger :: nat
  tu_recheck_ledger :: "nat option"

datatype side = CollateralSide | LiabilitySide

datatype creation_kind = CreateAuction | CreateBadDebt

fun creation_kind_as_str :: "creation_kind \<Rightarrow> string" where
  "creation_kind_as_str CreateAuction = ''auction''"
| "creation_kind_as_str CreateBadDebt = ''bad_debt''"

record creation_record =
  cr_kind :: creation_kind
  cr_pool :: string
  cr_account :: string
  cr_percent :: "fill_percent option"
  cr_bid :: "string list"
  cr_lot :: "string list"
  cr_ledger :: nat
  cr_dry_run :: bool
  cr_tx_hash :: "string option"

record tracked_auction =
  ta_pool :: string
  ta_account :: string
  ta_auction_type :: auction_type
  ta_start_ledger :: nat
  ta_fill_ledger :: "nat option"
  ta_percent :: "fill_percent option"
  ta_bid :: "(string, int) btree"
  ta_lot :: "(string, int) btree"
  ta_updated_ledger :: nat

record fill_record =
  fr_pool :: string
  fr_account :: string
  fr_auction_type :: auction_type
  fr_fill_ledger :: nat
  fr_percent :: fill_percent
  fr_bid :: "(string, int) btree"
  fr_lot :: "(string, int) btree"
  fr_bid_value :: int
  fr_lot_value :: int
  fr_est_profit :: int
  fr_dry_run :: bool

text \<open>The rows of the tables.\<close>

record cursor_row =
  cw_name :: string
  cw_ledger :: int
  cw_paging_token :: "string option"

record user_row =
  uw_pool :: string
  uw_account :: string
  uw_health_factor :: int
  uw_collateral :: json
  uw_liabilities :: json
  uw_updated_ledger :: int
  uw_recheck_ledger :: "int option"

record auction_row =
  aw_pool :: string
  aw_account :: string
  aw_auction_type :: int
  aw_start_ledger :: int
  aw_fill_ledger :: "int option"
  aw_percent :: "int option"
  aw_bid :: json
  aw_lot :: json
  aw_updated_ledger :: int

record creation_row =
  nw_id :: int
  nw_tx_hash :: "string option"
  nw_kind :: string
  nw_pool :: string
  nw_account :: string
  nw_percent :: "int option"
  nw_bid :: json
  nw_lot :: json
  nw_ledger :: int
  nw_dry_run :: bool

record fill_row =
  fw_id :: int
  fw_tx_hash :: "string option"
  fw_pool :: string
  fw_account :: string
  fw_auction_type :: int
  fw_fill_ledger :: int
  fw_percent :: int
  fw_bid :: json
  fw_lot :: json
  fw_bid_value :: int
  fw_lot_value :: int
  fw_est_profit :: int
  fw_dry_run :: bool

text \<open>The two \<open>bigserial\<close> sequences are the next ids.\<close>

record tables =
  tb_cursors :: "cursor_row list"
  tb_users :: "user_row list"
  tb_auctions :: "auction_row list"
  tb_creations :: "creation_row list"
  tb_fills :: "fill_row list"
  tb_creation_seq :: int
  tb_fill_seq :: int

section \<open>Statements\<close>

text \<open>
  \<open>INSERT ... ON CONFLICT DO UPDATE\<close> on a key, and \<open>UPDATE ... WHERE\<close> with its row count.
\<close>

fun upsert_row :: "('r \<Rightarrow> bool) \<Rightarrow> ('r \<Rightarrow> 'r) \<Rightarrow> 'r \<Rightarrow> 'r list \<Rightarrow> 'r list" where
  "upsert_row at change row [] = [row]"
| "upsert_row at change row (r # rows) =
     (if at r then change r # rows else r # upsert_row at change row rows)"

definition update_rows :: "('r \<Rightarrow> bool) \<Rightarrow> ('r \<Rightarrow> 'r) \<Rightarrow> 'r list \<Rightarrow> 'r list" where
  "update_rows at change rows = map (\<lambda>r. if at r then change r else r) rows"

definition count_rows :: "('r \<Rightarrow> bool) \<Rightarrow> 'r list \<Rightarrow> nat" where
  "count_rows at rows = length (filter at rows)"

definition delete_rows :: "('r \<Rightarrow> bool) \<Rightarrow> 'r list \<Rightarrow> 'r list" where
  "delete_rows at rows = filter (\<lambda>r. \<not> at r) rows"

subsection \<open>Cursors\<close>

definition at_cursor :: "string \<Rightarrow> cursor_row \<Rightarrow> bool" where
  "at_cursor name r \<longleftrightarrow> cw_name r = name"

definition store_cursor :: "string \<Rightarrow> tables \<Rightarrow> cursor option store_result" where
  "store_cursor name db =
     opt_column (\<lambda>row.
       rbind (ledger_column (cw_ledger row) ''ledger'') (\<lambda>l.
       Ok \<lparr>cu_ledger = l, cu_paging_token = cw_paging_token row\<rparr>))
     (List.find (at_cursor name) (tb_cursors db))"

definition set_cursor :: "string \<Rightarrow> cursor \<Rightarrow> tables \<Rightarrow> tables" where
  "set_cursor name cursor db =
     db\<lparr>tb_cursors := upsert_row (at_cursor name)
         (\<lambda>r. r\<lparr>cw_ledger := int (cu_ledger cursor), cw_paging_token := cu_paging_token cursor\<rparr>)
         \<lparr>cw_name = name, cw_ledger = int (cu_ledger cursor), cw_paging_token = cu_paging_token cursor\<rparr>
         (tb_cursors db)\<rparr>"

subsection \<open>Users\<close>

definition at_user :: "string \<Rightarrow> string \<Rightarrow> user_row \<Rightarrow> bool" where
  "at_user pool account r \<longleftrightarrow> uw_pool r = pool \<and> uw_account r = account"

text \<open>\<open>upsert_user\<close> writes every column but \<open>recheck_ledger\<close>.\<close>

definition upsert_user :: "tracked_user \<Rightarrow> tables \<Rightarrow> tables" where
  "upsert_user user db =
     (let change = (\<lambda>r. r\<lparr>uw_health_factor := tu_health_factor user,
            uw_collateral := index_amounts_to_json (tu_collateral user),
            uw_liabilities := index_amounts_to_json (tu_liabilities user),
            uw_updated_ledger := int (tu_updated_ledger user)\<rparr>) in
      db\<lparr>tb_users := upsert_row (at_user (tu_pool user) (tu_account user)) change
          (change \<lparr>uw_pool = tu_pool user, uw_account = tu_account user, uw_health_factor = 0,
             uw_collateral = JObject [], uw_liabilities = JObject [], uw_updated_ledger = 0,
             uw_recheck_ledger = None\<rparr>)
          (tb_users db)\<rparr>)"

definition delete_user :: "string \<Rightarrow> string \<Rightarrow> tables \<Rightarrow> bool \<times> tables" where
  "delete_user pool account db =
     (0 < count_rows (at_user pool account) (tb_users db),
      db\<lparr>tb_users := delete_rows (at_user pool account) (tb_users db)\<rparr>)"

text \<open>A row back into a \<open>TrackedUser\<close>: the conversion every read repeats.\<close>

definition user_of_row :: "user_row \<Rightarrow> tracked_user store_result" where
  "user_of_row row =
     rbind (decimal (Some (int_text (uw_health_factor row))) ''health_factor'') (\<lambda>health_factor.
     rbind (index_amounts_from_json (uw_collateral row) ''collateral'') (\<lambda>collateral.
     rbind (index_amounts_from_json (uw_liabilities row) ''liabilities'') (\<lambda>liabilities.
     rbind (ledger_column (uw_updated_ledger row) ''updated_ledger'') (\<lambda>updated_ledger.
     rbind (opt_column (\<lambda>v. ledger_column v ''recheck_ledger'') (uw_recheck_ledger row)) (\<lambda>recheck_ledger.
     Ok \<lparr>tu_pool = uw_pool row, tu_account = uw_account row, tu_health_factor = health_factor,
         tu_collateral = collateral, tu_liabilities = liabilities,
         tu_updated_ledger = updated_ledger, tu_recheck_ledger = recheck_ledger\<rparr>)))))"

definition store_user :: "string \<Rightarrow> string \<Rightarrow> tables \<Rightarrow> tracked_user option store_result" where
  "store_user pool account db = opt_column user_of_row (List.find (at_user pool account) (tb_users db))"

text \<open>The key a scan is ordered and continued by.\<close>

definition health_key :: "user_row \<Rightarrow> int \<times> string" where
  "health_key r = (uw_health_factor r, uw_account r)"

definition users_below_health ::
  "string \<Rightarrow> int \<Rightarrow> nat \<Rightarrow> (int \<times> string) option \<Rightarrow> tables \<Rightarrow> tracked_user list store_result" where
  "users_below_health pool threshold limit after db =
     rmap_list user_of_row (take limit (sort_key health_key (filter (\<lambda>r. uw_pool r = pool
        \<and> uw_health_factor r < threshold
        \<and> (case after of None \<Rightarrow> True | Some key \<Rightarrow> key < health_key r)) (tb_users db))))"

definition users_stale :: "string \<Rightarrow> nat \<Rightarrow> nat \<Rightarrow> tables \<Rightarrow> tracked_user list store_result" where
  "users_stale pool updated_before limit db =
     rmap_list user_of_row (take limit (sort_key uw_updated_ledger (filter (\<lambda>r. uw_pool r = pool
        \<and> uw_updated_ledger r < int updated_before) (tb_users db))))"

definition count_users :: "string \<Rightarrow> tables \<Rightarrow> nat" where
  "count_users pool db = count_rows (\<lambda>r. uw_pool r = pool) (tb_users db)"

text \<open>\<open>GREATEST(recheck_ledger, $3)\<close>, which ignores nulls.\<close>

definition greatest :: "int option \<Rightarrow> int \<Rightarrow> int option" where
  "greatest stored ledger = (case stored of None \<Rightarrow> Some ledger | Some v \<Rightarrow> Some (max v ledger))"

definition raise_flag :: "nat \<Rightarrow> user_row \<Rightarrow> user_row" where
  "raise_flag ledger r = r\<lparr>uw_recheck_ledger := greatest (uw_recheck_ledger r) (int ledger)\<rparr>"

definition flag_recheck :: "string \<Rightarrow> string \<Rightarrow> nat \<Rightarrow> tables \<Rightarrow> tables" where
  "flag_recheck pool account ledger db =
     db\<lparr>tb_users := update_rows (at_user pool account) (raise_flag ledger) (tb_users db)\<rparr>"

definition users_needing_recheck :: "string \<Rightarrow> nat \<Rightarrow> tables \<Rightarrow> tracked_user list store_result" where
  "users_needing_recheck pool limit db =
     rmap_list user_of_row (take limit (sort_key (\<lambda>r. (the (uw_recheck_ledger r), uw_account r))
        (filter (\<lambda>r. uw_pool r = pool \<and> uw_recheck_ledger r \<noteq> None) (tb_users db))))"

definition jsonb_exists :: "json \<Rightarrow> string \<Rightarrow> bool" where
  "jsonb_exists value key = 
     (case value of
        JObject object \<Rightarrow> bt_get object key \<noteq> None
      | JArray items \<Rightarrow> JString key \<in> set items
      | JString text \<Rightarrow> text = key
      | JOther _ \<Rightarrow> False)"

definition exposed :: "string \<Rightarrow> nat \<Rightarrow> side \<Rightarrow> user_row \<Rightarrow> bool" where
  "exposed pool index side r \<longleftrightarrow> uw_pool r = pool
     \<and> jsonb_exists (case side of CollateralSide \<Rightarrow> uw_collateral r | LiabilitySide \<Rightarrow> uw_liabilities r) (nat_text index)"

definition flag_exposed_to :: "string \<Rightarrow> nat \<Rightarrow> side \<Rightarrow> nat \<Rightarrow> tables \<Rightarrow> nat \<times> tables" where
  "flag_exposed_to pool index side ledger db =
     (count_rows (exposed pool index side) (tb_users db),
      db\<lparr>tb_users := update_rows (exposed pool index side) (raise_flag ledger) (tb_users db)\<rparr>)"

definition clear_recheck :: "string \<Rightarrow> string \<Rightarrow> nat \<Rightarrow> tables \<Rightarrow> bool \<times> tables" where
  "clear_recheck pool account flagged_at db =
     (let at = (\<lambda>r. at_user pool account r \<and> uw_recheck_ledger r = Some (int flagged_at)) in
      (count_rows at (tb_users db) = 1,
       db\<lparr>tb_users := update_rows at (\<lambda>r. r\<lparr>uw_recheck_ledger := None\<rparr>) (tb_users db)\<rparr>))"

subsection \<open>Creations\<close>

text \<open>The two \<open>CHECK\<close>s on a creation's percent.\<close>

definition creation_allowed :: "string \<Rightarrow> int option \<Rightarrow> bool" where
  "creation_allowed kind percent \<longleftrightarrow>
     (case percent of None \<Rightarrow> kind = ''bad_debt'' | Some p \<Rightarrow> kind = ''auction'' \<and> 1 \<le> p \<and> p \<le> 100)"

definition record_creation :: "creation_record \<Rightarrow> tables \<Rightarrow> int store_result \<times> tables" where
  "record_creation creation db =
     (case opt_column percent_to_code (cr_percent creation) of
        Inl e \<Rightarrow> (Err e, db)
      | Inr percent \<Rightarrow>
          let kind = creation_kind_as_str (cr_kind creation); id = tb_creation_seq db in
          if \<not> creation_allowed kind percent then
            (Err (Query ''creations check''), db\<lparr>tb_creation_seq := id + 1\<rparr>)
          else
            (Ok id, db\<lparr>tb_creation_seq := id + 1, tb_creations := tb_creations db @ [
               \<lparr>nw_id = id, nw_tx_hash = cr_tx_hash creation, nw_kind = kind, nw_pool = cr_pool creation,
                nw_account = cr_account creation, nw_percent = percent,
                nw_bid = JArray (map JString (cr_bid creation)), nw_lot = JArray (map JString (cr_lot creation)),
                nw_ledger = int (cr_ledger creation), nw_dry_run = cr_dry_run creation\<rparr>]\<rparr>))"

definition unsent_creation :: "int \<Rightarrow> creation_row \<Rightarrow> bool" where
  "unsent_creation i r \<longleftrightarrow> nw_id r = i \<and> nw_tx_hash r = None"

definition attach_creation_tx :: "int \<Rightarrow> string \<Rightarrow> tables \<Rightarrow> bool \<times> tables" where
  "attach_creation_tx i tx_hash db =
     (count_rows (unsent_creation i) (tb_creations db) = 1,
      db\<lparr>tb_creations := update_rows (unsent_creation i) (\<lambda>r. r\<lparr>nw_tx_hash := Some tx_hash\<rparr>) (tb_creations db)\<rparr>)"

subsection \<open>Auctions\<close>

definition at_auction :: "string \<Rightarrow> string \<Rightarrow> auction_type \<Rightarrow> auction_row \<Rightarrow> bool" where
  "at_auction pool account ty r \<longleftrightarrow>
     aw_pool r = pool \<and> aw_account r = account \<and> aw_auction_type r = int (auction_type_code ty)"

definition percent_allowed :: "int option \<Rightarrow> bool" where
  "percent_allowed percent \<longleftrightarrow> (case percent of None \<Rightarrow> True | Some p \<Rightarrow> 1 \<le> p \<and> p \<le> 100)"

definition auction_row_of :: "tracked_auction \<Rightarrow> int option \<Rightarrow> auction_row" where
  "auction_row_of auction percent =
     \<lparr>aw_pool = ta_pool auction, aw_account = ta_account auction,
      aw_auction_type = int (auction_type_code (ta_auction_type auction)),
      aw_start_ledger = int (ta_start_ledger auction), aw_fill_ledger = map_option int (ta_fill_ledger auction),
      aw_percent = percent, aw_bid = asset_amounts_to_json (ta_bid auction),
      aw_lot = asset_amounts_to_json (ta_lot auction), aw_updated_ledger = int (ta_updated_ledger auction)\<rparr>"

definition upsert_auction :: "tracked_auction \<Rightarrow> tables \<Rightarrow> unit store_result \<times> tables" where
  "upsert_auction auction db =
     (case opt_column percent_to_code (ta_percent auction) of
        Inl e \<Rightarrow> (Err e, db)
      | Inr percent \<Rightarrow>
          if \<not> percent_allowed percent then (Err (Query ''auctions check''), db)
          else
            (Ok (), db\<lparr>tb_auctions := upsert_row
               (at_auction (ta_pool auction) (ta_account auction) (ta_auction_type auction))
               (\<lambda>_. auction_row_of auction percent) (auction_row_of auction percent) (tb_auctions db)\<rparr>))"

definition delete_auction :: "string \<Rightarrow> string \<Rightarrow> auction_type \<Rightarrow> tables \<Rightarrow> bool \<times> tables" where
  "delete_auction pool account ty db =
     (0 < count_rows (at_auction pool account ty) (tb_auctions db),
      db\<lparr>tb_auctions := delete_rows (at_auction pool account ty) (tb_auctions db)\<rparr>)"

definition auction_of_row :: "auction_row \<Rightarrow> tracked_auction store_result" where
  "auction_of_row row =
     rbind (auction_type_from_code (aw_auction_type row)) (\<lambda>ty.
     rbind (ledger_column (aw_start_ledger row) ''start_ledger'') (\<lambda>start_ledger.
     rbind (opt_column (\<lambda>v. ledger_column v ''fill_ledger'') (aw_fill_ledger row)) (\<lambda>fill_ledger.
     rbind (opt_column percent_from_code (aw_percent row)) (\<lambda>percent.
     rbind (asset_amounts_from_json (aw_bid row) ''bid'') (\<lambda>bid.
     rbind (asset_amounts_from_json (aw_lot row) ''lot'') (\<lambda>lot.
     rbind (ledger_column (aw_updated_ledger row) ''updated_ledger'') (\<lambda>updated_ledger.
     Ok \<lparr>ta_pool = aw_pool row, ta_account = aw_account row, ta_auction_type = ty,
         ta_start_ledger = start_ledger, ta_fill_ledger = fill_ledger, ta_percent = percent,
         ta_bid = bid, ta_lot = lot, ta_updated_ledger = updated_ledger\<rparr>)))))))"

definition store_auction :: "string \<Rightarrow> string \<Rightarrow> auction_type \<Rightarrow> tables \<Rightarrow> tracked_auction option store_result" where
  "store_auction pool account ty db =
     opt_column auction_of_row (List.find (at_auction pool account ty) (tb_auctions db))"

definition open_auctions :: "string \<Rightarrow> tables \<Rightarrow> tracked_auction list store_result" where
  "open_auctions pool db =
     rmap_list auction_of_row (sort_key (\<lambda>r. (aw_start_ledger r, aw_account r, aw_auction_type r))
       (filter (\<lambda>r. aw_pool r = pool) (tb_auctions db)))"

subsection \<open>Fills\<close>

definition record_fill :: "fill_record \<Rightarrow> tables \<Rightarrow> int store_result \<times> tables" where
  "record_fill fill db =
     (case percent_to_code (fr_percent fill) of
        Inl e \<Rightarrow> (Err e, db)
      | Inr percent \<Rightarrow>
          let id = tb_fill_seq db in
          if \<not> percent_allowed (Some percent) then (Err (Query ''fills check''), db\<lparr>tb_fill_seq := id + 1\<rparr>)
          else
            (Ok id, db\<lparr>tb_fill_seq := id + 1, tb_fills := tb_fills db @ [
               \<lparr>fw_id = id, fw_tx_hash = None, fw_pool = fr_pool fill, fw_account = fr_account fill,
                fw_auction_type = int (auction_type_code (fr_auction_type fill)),
                fw_fill_ledger = int (fr_fill_ledger fill), fw_percent = percent,
                fw_bid = asset_amounts_to_json (fr_bid fill), fw_lot = asset_amounts_to_json (fr_lot fill),
                fw_bid_value = fr_bid_value fill, fw_lot_value = fr_lot_value fill,
                fw_est_profit = fr_est_profit fill, fw_dry_run = fr_dry_run fill\<rparr>]\<rparr>))"

definition unsent_fill :: "int \<Rightarrow> fill_row \<Rightarrow> bool" where
  "unsent_fill i r \<longleftrightarrow> fw_id r = i \<and> fw_tx_hash r = None"

text \<open>The hash of a fill is unique.\<close>

definition attach_fill_tx :: "int \<Rightarrow> string \<Rightarrow> tables \<Rightarrow> bool store_result \<times> tables" where
  "attach_fill_tx i tx_hash db =
     (if count_rows (unsent_fill i) (tb_fills db) = 0 then (Ok False, db)
      else if \<exists>r \<in> set (tb_fills db). fw_tx_hash r = Some tx_hash then (Err (Query ''fills tx_hash unique''), db)
      else
        (Ok (count_rows (unsent_fill i) (tb_fills db) = 1),
         db\<lparr>tb_fills := update_rows (unsent_fill i) (\<lambda>r. r\<lparr>fw_tx_hash := Some tx_hash\<rparr>) (tb_fills db)\<rparr>))"

definition set_fill_plan ::
  "string \<Rightarrow> string \<Rightarrow> auction_type \<Rightarrow> (nat \<times> fill_percent) option \<Rightarrow> tables \<Rightarrow> bool store_result \<times> tables" where
  "set_fill_plan pool account ty plan db =
     (let fill_ledger = map_option (\<lambda>(l, _). int l) plan in
      case opt_column (\<lambda>(_, p). percent_to_code p) plan of
        Inl e \<Rightarrow> (Err e, db)
      | Inr percent \<Rightarrow>
          if 0 < count_rows (at_auction pool account ty) (tb_auctions db) \<and> \<not> percent_allowed percent then
            (Err (Query ''auctions check''), db)
          else
            (Ok (count_rows (at_auction pool account ty) (tb_auctions db) = 1),
             db\<lparr>tb_auctions := update_rows (at_auction pool account ty)
                 (\<lambda>r. r\<lparr>aw_fill_ledger := fill_ledger, aw_percent := percent\<rparr>) (tb_auctions db)\<rparr>))"


section \<open>What is written reads back\<close>

lemma set_bt_collect:
  assumes "distinct (map fst ps)"
  shows "set (bt_collect ps) = set ps"
proof -
  have "e \<in> set (bt_collect ps) \<longleftrightarrow> e \<in> set ps" for e
    using assms by (cases e) (simp add: bt_in_set_get map_of_eq_Some_iff rev_map [symmetric])
  then show ?thesis by blast
qed

lemma rmap_list_Ok_map:
  assumes "\<And>x. x \<in> set xs \<Longrightarrow> f x = Ok (g x)"
  shows "rmap_list f xs = Ok (map g xs)"
  using assms by (induction xs) simp_all

text \<open>Reading back a collected object, given the inverse of the entries' encoding.\<close>

lemma collected_roundtrip:
  assumes wf: "bt_wf m" and inj: "inj_on (\<lambda>e. fst (enc e)) (set m)"
    and dec: "\<And>e. e \<in> set m \<Longrightarrow> dec (enc e) = Ok e"
  shows "rbind (rmap_list dec (bt_collect (map enc m))) (\<lambda>ps. Ok (bt_collect ps)) = Ok m"
proof -
  let ?obj = "bt_collect (map enc m)"
  have dm: "distinct m" using bt_wf_distinct [OF wf] by (simp add: bt_keys_def distinct_map)
  have dist: "distinct (map fst (map enc m))" using inj dm by (simp add: distinct_map comp_def)
  have set_obj: "set ?obj = enc ` set m" using set_bt_collect [OF dist] by simp
  define g where "g = (\<lambda>x. projr (dec x) :: 'a \<times> 'b)"
  have g: "g (enc e) = e" if "e \<in> set m" for e using dec [OF that] by (simp add: g_def)
  have "dec x = Ok (g x)" if "x \<in> set ?obj" for x using that dec by (auto simp: set_obj g_def)
  then have run: "rmap_list dec ?obj = Ok (map g ?obj)" by (rule rmap_list_Ok_map)
  have "bt_collect (map g ?obj) = m"
  proof (rule bt_collect_eq [OF wf])
    have "g ` set ?obj = (\<lambda>e. e) ` set m" unfolding set_obj image_image by (rule image_cong) (simp_all add: g)
    then show s: "set (map g ?obj) = set m" by simp
    have "enc (g x) = x" if "x \<in> set ?obj" for x using that g by (auto simp: set_obj)
    then have "inj_on g (set ?obj)" by (rule inj_on_inverseI)
    moreover have "distinct ?obj" using bt_wf_distinct [of ?obj] by (simp add: bt_keys_def distinct_map)
    ultimately have "distinct (map g ?obj)" by (simp add: distinct_map)
    moreover have "inj_on fst (set m)" using bt_wf_distinct [OF wf] by (simp add: bt_keys_def distinct_map)
    ultimately show "distinct (map fst (map g ?obj))" by (simp only: s distinct_map)
  qed
  with run show ?thesis by simp
qed

definition amounts_fit :: "('k \<times> int) list \<Rightarrow> bool" where
  "amounts_fit m \<longleftrightarrow> (\<forall>v \<in> set (bt_values m). in_i128 v)"

lemma index_amounts_roundtrip:
  assumes "bt_wf m" "amounts_fit m" "\<forall>k \<in> set (bt_keys m). k \<le> u32_max"
  shows "index_amounts_from_json (index_amounts_to_json m) column = Ok m"
proof -
  let ?enc = "\<lambda>(index, amount). (nat_text index, JString (int_text amount))"
  have "inj_on (\<lambda>e. fst (?enc e)) (set m)"
    using bt_wf_distinct [OF assms(1)] by (fastforce simp: inj_on_def bt_keys_def distinct_map)
  moreover have "index_amount column (?enc e) = Ok e" if "e \<in> set m" for e
  proof -
    have "in_i128 (snd e)" "fst e \<le> u32_max"
      using that assms(2,3) by (auto simp: amounts_fit_def bt_values_def bt_keys_def)
    then show ?thesis by (simp add: index_amount_def json_amount_def split_beta)
  qed
  ultimately have "rbind (rmap_list (index_amount column) (bt_collect (map ?enc m))) (\<lambda>ps. Ok (bt_collect ps)) = Ok m"
    by (rule collected_roundtrip [OF assms(1)])
  then show ?thesis by (simp add: index_amounts_from_json_def index_amounts_to_json_def)
qed

lemma asset_amounts_roundtrip:
  assumes "bt_wf m" "amounts_fit m"
  shows "asset_amounts_from_json (asset_amounts_to_json m) column = Ok m"
proof -
  let ?enc = "\<lambda>(asset, amount). (asset, JString (int_text amount))"
  have "inj_on (\<lambda>e. fst (?enc e)) (set m)"
    using bt_wf_distinct [OF assms(1)] by (fastforce simp: inj_on_def bt_keys_def distinct_map)
  moreover have "asset_amount column (?enc e) = Ok e" if "e \<in> set m" for e
  proof -
    have "in_i128 (snd e)" using that assms(2) by (auto simp: amounts_fit_def bt_values_def)
    then show ?thesis by (simp add: asset_amount_def json_amount_def split_beta)
  qed
  ultimately have "rbind (rmap_list (asset_amount column) (bt_collect (map ?enc m))) (\<lambda>ps. Ok (bt_collect ps)) = Ok m"
    by (rule collected_roundtrip [OF assms(1)])
  then show ?thesis by (simp add: asset_amounts_from_json_def asset_amounts_to_json_def)
qed

section \<open>Tables with a primary key\<close>

locale keyed_table =
  fixes at :: "'k \<Rightarrow> 'r \<Rightarrow> bool" and key :: "'r \<Rightarrow> 'k"
  assumes at_key: "at k r \<longleftrightarrow> key r = k"
begin

lemma at_eq: "at k = (\<lambda>r. key r = k)"
  using at_key by blast

lemma find_upsert:
  assumes "key row = k" "\<And>r. key r = k \<Longrightarrow> key (change r) = k"
  shows "List.find (at k') (upsert_row (at k) change row rows) =
    (if k' = k then Some (case List.find (at k) rows of None \<Rightarrow> row | Some r \<Rightarrow> change r)
     else List.find (at k') rows)"
  unfolding at_eq by (induction rows) (auto simp: assms)

lemma find_delete:
  "List.find (at k') (delete_rows (at k) rows) = (if k' = k then None else List.find (at k') rows)"
  unfolding at_eq by (induction rows) (auto simp: delete_rows_def)

lemma find_update:
  assumes "\<And>r. key (change r) = key r"
  shows "List.find (at k) (update_rows p change rows) =
    map_option (\<lambda>r. if p r then change r else r) (List.find (at k) rows)"
  unfolding at_eq by (induction rows) (auto simp: update_rows_def assms)

lemma keys_upsert:
  assumes "key row = k" "\<And>r. key r = k \<Longrightarrow> key (change r) = k"
  shows "map key (upsert_row (at k) change row rows) = (if k \<in> key ` set rows then map key rows else map key rows @ [k])"
  by (induction rows) (auto simp: at_key assms)

lemma distinct_upsert:
  assumes "key row = k" "\<And>r. key r = k \<Longrightarrow> key (change r) = k" "distinct (map key rows)"
  shows "distinct (map key (upsert_row (at k) change row rows))"
  using assms(3) by (simp add: keys_upsert [OF assms(1,2)] image_iff)

lemma distinct_update:
  assumes "\<And>r. key (change r) = key r"
  shows "map key (update_rows p change rows) = map key rows"
  by (simp add: update_rows_def assms)

lemma distinct_delete: "distinct (map key rows) \<Longrightarrow> distinct (map key (delete_rows p rows))"
  by (simp add: delete_rows_def distinct_map_filter)

lemma count_at:
  assumes "distinct (map key rows)"
  shows "count_rows (\<lambda>r. at k r \<and> p r) rows = (case List.find (at k) rows of Some r \<Rightarrow> if p r then 1 else 0 | None \<Rightarrow> 0)"
  using assms
proof (induction rows)
  case (Cons r rows)
  have "filter (\<lambda>r. at k r \<and> p r) rows = []" if "key r = k"
    using Cons.prems that by (force simp: at_key filter_empty_conv image_iff)
  with Cons show ?case by (auto simp: count_rows_def at_key)
qed (simp add: count_rows_def)

end

interpretation ut: keyed_table "\<lambda>(pool, account). at_user pool account" "\<lambda>r. (uw_pool r, uw_account r)"
  by unfold_locales (auto simp: at_user_def)

interpretation ct: keyed_table at_cursor cw_name
  by unfold_locales (simp add: at_cursor_def)

interpretation rt: keyed_table "\<lambda>(pool, account, code) r. aw_pool r = pool \<and> aw_account r = account \<and> aw_auction_type r = code"
  "\<lambda>r. (aw_pool r, aw_account r, aw_auction_type r)"
  by unfold_locales auto

section \<open>The store's operations as steps\<close>

datatype store_op =
    SetCursor string cursor
  | UpsertUser tracked_user
  | DeleteUser string string
  | FlagRecheck string string nat
  | FlagExposedTo string nat side nat
  | ClearRecheck string string nat
  | RecordCreation creation_record
  | AttachCreationTx int string
  | UpsertAuction tracked_auction
  | DeleteAuctionRow string string auction_type
  | RecordFill fill_record
  | AttachFillTx int string
  | SetFillPlan string string auction_type "(nat \<times> fill_percent) option"

fun run_op :: "store_op \<Rightarrow> tables \<Rightarrow> tables" where
  "run_op (SetCursor name cursor) db = set_cursor name cursor db"
| "run_op (UpsertUser user) db = upsert_user user db"
| "run_op (DeleteUser pool account) db = snd (delete_user pool account db)"
| "run_op (FlagRecheck pool account ledger) db = flag_recheck pool account ledger db"
| "run_op (FlagExposedTo pool index side ledger) db = snd (flag_exposed_to pool index side ledger db)"
| "run_op (ClearRecheck pool account flagged_at) db = snd (clear_recheck pool account flagged_at db)"
| "run_op (RecordCreation creation) db = snd (record_creation creation db)"
| "run_op (AttachCreationTx i tx_hash) db = snd (attach_creation_tx i tx_hash db)"
| "run_op (UpsertAuction auction) db = snd (upsert_auction auction db)"
| "run_op (DeleteAuctionRow pool account ty) db = snd (delete_auction pool account ty db)"
| "run_op (RecordFill fill) db = snd (record_fill fill db)"
| "run_op (AttachFillTx i tx_hash) db = snd (attach_fill_tx i tx_hash db)"
| "run_op (SetFillPlan pool account ty plan) db = snd (set_fill_plan pool account ty plan db)"

abbreviation run_ops :: "store_op list \<Rightarrow> tables \<Rightarrow> tables" where
  "run_ops ops db \<equiv> fold run_op ops db"

text \<open>What the types of the arguments give: ledgers are \<open>u32\<close>, amounts \<open>i128\<close>, maps are maps.\<close>

definition index_amounts_fit :: "(nat, int) btree \<Rightarrow> bool" where
  "index_amounts_fit m \<longleftrightarrow> bt_wf m \<and> amounts_fit m \<and> (\<forall>k \<in> set (bt_keys m). k \<le> u32_max)"

definition user_fits :: "tracked_user \<Rightarrow> bool" where
  "user_fits u \<longleftrightarrow> in_i128 (tu_health_factor u) \<and> index_amounts_fit (tu_collateral u)
     \<and> index_amounts_fit (tu_liabilities u) \<and> tu_updated_ledger u \<le> u32_max"

definition percent_fits :: "fill_percent \<Rightarrow> bool" where
  "percent_fits p \<longleftrightarrow> 1 \<le> fp_get p \<and> fp_get p \<le> 100"

definition auction_fits :: "tracked_auction \<Rightarrow> bool" where
  "auction_fits a \<longleftrightarrow> ta_start_ledger a \<le> u32_max \<and> ta_updated_ledger a \<le> u32_max
     \<and> (\<forall>l. ta_fill_ledger a = Some l \<longrightarrow> l \<le> u32_max) \<and> (\<forall>p. ta_percent a = Some p \<longrightarrow> percent_fits p)
     \<and> bt_wf (ta_bid a) \<and> amounts_fit (ta_bid a) \<and> bt_wf (ta_lot a) \<and> amounts_fit (ta_lot a)"

fun op_fits :: "store_op \<Rightarrow> bool" where
  "op_fits (SetCursor name cursor) = (cu_ledger cursor \<le> u32_max)"
| "op_fits (UpsertUser user) = user_fits user"
| "op_fits (FlagRecheck pool account ledger) = (ledger \<le> u32_max)"
| "op_fits (FlagExposedTo pool index side ledger) = (ledger \<le> u32_max)"
| "op_fits (UpsertAuction auction) = auction_fits auction"
| "op_fits (SetFillPlan pool account ty plan) = (\<forall>l p. plan = Some (l, p) \<longrightarrow> l \<le> u32_max \<and> percent_fits p)"
| "op_fits _ = True"

inductive store_reachable :: "tables \<Rightarrow> bool" where
  empty: "store_reachable \<lparr>tb_cursors = [], tb_users = [], tb_auctions = [], tb_creations = [], tb_fills = [],
     tb_creation_seq = 1, tb_fill_seq = 1\<rparr>"
| step: "store_reachable db \<Longrightarrow> op_fits op \<Longrightarrow> store_reachable (run_op op db)"

text \<open>
  Well-formed tables: keys are unique, every row reads back, and no two fills share a
  transaction.
\<close>

definition readable :: "('r \<Rightarrow> 'a store_result) \<Rightarrow> 'r \<Rightarrow> bool" where
  "readable f r \<longleftrightarrow> (\<exists>x. f r = Ok x)"

definition users_ok :: "user_row list \<Rightarrow> bool" where
  "users_ok rows \<longleftrightarrow> distinct (map (\<lambda>r. (uw_pool r, uw_account r)) rows) \<and> (\<forall>r \<in> set rows. readable user_of_row r)"

definition auctions_ok :: "auction_row list \<Rightarrow> bool" where
  "auctions_ok rows \<longleftrightarrow> distinct (map (\<lambda>r. (aw_pool r, aw_account r, aw_auction_type r)) rows)
     \<and> (\<forall>r \<in> set rows. readable auction_of_row r)"

definition cursors_ok :: "cursor_row list \<Rightarrow> bool" where
  "cursors_ok rows \<longleftrightarrow> distinct (map cw_name rows) \<and> (\<forall>r \<in> set rows. 0 \<le> cw_ledger r \<and> cw_ledger r \<le> int u32_max)"

definition ids_ok :: "int list \<Rightarrow> int \<Rightarrow> bool" where
  "ids_ok ids seq \<longleftrightarrow> distinct ids \<and> (\<forall>i \<in> set ids. i < seq)"

definition hashes_ok :: "fill_row list \<Rightarrow> bool" where
  "hashes_ok rows \<longleftrightarrow> distinct (List.map_filter fw_tx_hash rows)"

definition tables_ok :: "tables \<Rightarrow> bool" where
  "tables_ok db \<longleftrightarrow> cursors_ok (tb_cursors db) \<and> users_ok (tb_users db) \<and> auctions_ok (tb_auctions db)
     \<and> ids_ok (map nw_id (tb_creations db)) (tb_creation_seq db)
     \<and> ids_ok (map fw_id (tb_fills db)) (tb_fill_seq db) \<and> hashes_ok (tb_fills db)"

subsection \<open>Every operation keeps the tables well formed\<close>

lemma upsert_row_all:
  assumes "\<forall>r \<in> set rows. P r" "P row" "\<And>r. P r \<Longrightarrow> P (change r)"
  shows "\<forall>r \<in> set (upsert_row at change row rows). P r"
  using assms(1) by (induction rows) (auto simp: assms(2,3))

lemma update_rows_all:
  "\<forall>r \<in> set rows. P r \<Longrightarrow> (\<And>r. P r \<Longrightarrow> P (change r)) \<Longrightarrow> \<forall>r \<in> set (update_rows at change rows). P r"
  by (auto simp: update_rows_def)

lemma delete_rows_all: "\<forall>r \<in> set rows. P r \<Longrightarrow> \<forall>r \<in> set (delete_rows at rows). P r"
  by (auto simp: delete_rows_def)

lemma decimal_Ok [simp]: "in_i128 i \<Longrightarrow> decimal (Some (int_text i)) column = Ok i"
  by (simp add: decimal_def)

lemma ledger_column_Ok: "ledger_column v column = Ok l \<longleftrightarrow> 0 \<le> v \<and> v \<le> int u32_max \<and> l = nat v"
  by (auto simp: ledger_column_def)

lemma ledger_column_int [simp]: "n \<le> u32_max \<Longrightarrow> ledger_column (int n) column = Ok n"
  by (simp add: ledger_column_def)

lemma opt_column_Ok: "opt_column f v = Ok y \<longleftrightarrow> (case v of None \<Rightarrow> y = None | Some x \<Rightarrow> \<exists>z. f x = Ok z \<and> y = Some z)"
  by (auto simp: opt_column_def rmap_eq_Ok split: option.splits)

lemma index_amounts_read [simp]:
  "index_amounts_fit m \<Longrightarrow> index_amounts_from_json (index_amounts_to_json m) column = Ok m"
  by (simp add: index_amounts_fit_def index_amounts_roundtrip)

definition flag_fits :: "int option \<Rightarrow> bool" where
  "flag_fits flag \<longleftrightarrow> (\<forall>v. flag = Some v \<longrightarrow> 0 \<le> v \<and> v \<le> int u32_max)"

lemma flag_read: "opt_column (\<lambda>v. ledger_column v column) flag = Ok x \<longleftrightarrow> flag_fits flag \<and> x = map_option nat flag"
  by (auto simp: opt_column_Ok ledger_column_Ok flag_fits_def split: option.splits)

lemma readable_flag: "readable user_of_row r \<Longrightarrow> flag_fits (uw_recheck_ledger r)"
  by (auto simp: readable_def user_of_row_def rbind_eq_Ok flag_read)

lemma readable_user_flag:
  "readable user_of_row r \<Longrightarrow> flag_fits flag \<Longrightarrow> readable user_of_row (r\<lparr>uw_recheck_ledger := flag\<rparr>)"
  by (auto simp: readable_def user_of_row_def rbind_eq_Ok flag_read)

lemma user_of_row_flag:
  "user_of_row r = Ok u \<Longrightarrow> flag_fits flag \<Longrightarrow>
   user_of_row (r\<lparr>uw_recheck_ledger := flag\<rparr>) = Ok (u\<lparr>tu_recheck_ledger := map_option nat flag\<rparr>)"
  by (auto simp: user_of_row_def rbind_eq_Ok flag_read)

text \<open>The row \<open>upsert_user\<close> leaves for a user, over the row that was there.\<close>

definition written :: "tracked_user \<Rightarrow> user_row \<Rightarrow> user_row" where
  "written u r = r\<lparr>uw_health_factor := tu_health_factor u,
     uw_collateral := index_amounts_to_json (tu_collateral u),
     uw_liabilities := index_amounts_to_json (tu_liabilities u),
     uw_updated_ledger := int (tu_updated_ledger u)\<rparr>"

definition fresh_user :: "tracked_user \<Rightarrow> user_row" where
  "fresh_user u = \<lparr>uw_pool = tu_pool u, uw_account = tu_account u, uw_health_factor = 0,
     uw_collateral = JObject [], uw_liabilities = JObject [], uw_updated_ledger = 0, uw_recheck_ledger = None\<rparr>"

lemma upsert_user_rows:
  "upsert_user u db = db\<lparr>tb_users := upsert_row (at_user (tu_pool u) (tu_account u)) (written u)
     (written u (fresh_user u)) (tb_users db)\<rparr>"
  by (simp add: upsert_user_def written_def [abs_def] fresh_user_def)

lemma written_read:
  assumes "user_fits u" "flag_fits (uw_recheck_ledger r)" "uw_pool r = tu_pool u" "uw_account r = tu_account u"
  shows "user_of_row (written u r) = Ok (u\<lparr>tu_recheck_ledger := map_option nat (uw_recheck_ledger r)\<rparr>)"
  using assms by (simp add: user_of_row_def written_def user_fits_def rbind_eq_Ok flag_read)

lemma written_readable:
  assumes "user_fits u" "readable user_of_row r"
  shows "readable user_of_row (written u r)"
  using assms by (auto simp: readable_def user_of_row_def written_def user_fits_def rbind_eq_Ok flag_read)

lemma fresh_read:
  "user_fits u \<Longrightarrow> user_of_row (written u (fresh_user u)) = Ok (u\<lparr>tu_recheck_ledger := None\<rparr>)"
  by (subst written_read) (simp_all add: fresh_user_def flag_fits_def)

lemma written_key [simp]: "uw_pool (written u r) = uw_pool r" "uw_account (written u r) = uw_account r"
  "uw_recheck_ledger (written u r) = uw_recheck_ledger r"
  by (simp_all add: written_def)

lemma fresh_key [simp]: "uw_pool (fresh_user u) = tu_pool u" "uw_account (fresh_user u) = tu_account u"
  "uw_recheck_ledger (fresh_user u) = None"
  by (simp_all add: fresh_user_def)

lemma raise_flag_key [simp]: "uw_pool (raise_flag l r) = uw_pool r" "uw_account (raise_flag l r) = uw_account r"
  by (simp_all add: raise_flag_def)

lemma greatest_fits: "flag_fits flag \<Longrightarrow> l \<le> u32_max \<Longrightarrow> flag_fits (greatest flag (int l))"
  by (auto simp: flag_fits_def greatest_def split: option.splits)

lemma users_ok_upsert:
  assumes "users_ok rows" "user_fits u"
  shows "users_ok (upsert_row (at_user (tu_pool u) (tu_account u)) (written u) (written u (fresh_user u)) rows)"
proof -
  have "readable user_of_row (written u (fresh_user u))" using fresh_read [OF assms(2)] by (simp add: readable_def)
  then show ?thesis
    using assms ut.distinct_upsert [of "written u (fresh_user u)" "(tu_pool u, tu_account u)" "written u" rows]
      upsert_row_all [of rows "readable user_of_row" "written u (fresh_user u)" "written u"] written_readable
    by (simp add: users_ok_def)
qed

lemma users_ok_update:
  assumes "users_ok rows" "\<And>r. uw_pool (change r) = uw_pool r \<and> uw_account (change r) = uw_account r"
    and "\<And>r. readable user_of_row r \<Longrightarrow> readable user_of_row (change r)"
  shows "users_ok (update_rows p change rows)"
  using assms ut.distinct_update [of change p rows] update_rows_all [of rows "readable user_of_row" change p]
  by (simp add: users_ok_def)

lemma users_ok_raise: "users_ok rows \<Longrightarrow> l \<le> u32_max \<Longrightarrow> users_ok (update_rows p (raise_flag l) rows)"
  by (rule users_ok_update) (auto simp: raise_flag_def intro!: readable_user_flag greatest_fits readable_flag)

lemma users_ok_clear: "users_ok rows \<Longrightarrow> users_ok (update_rows p (\<lambda>r. r\<lparr>uw_recheck_ledger := None\<rparr>) rows)"
  by (rule users_ok_update) (auto intro!: readable_user_flag simp: flag_fits_def)

lemma users_ok_delete: "users_ok rows \<Longrightarrow> users_ok (delete_rows p rows)"
  using ut.distinct_delete [of rows p] delete_rows_all [of rows "readable user_of_row" p] by (simp add: users_ok_def)

lemma percent_code: "percent_fits p \<Longrightarrow> percent_to_code p = Ok (int (fp_get p))"
  by (simp add: percent_fits_def percent_to_code_def)

lemma percent_read: "percent_fits p \<Longrightarrow> percent_from_code (int (fp_get p)) = Ok p"
  by (cases p) (simp add: percent_fits_def percent_from_code_def fill_percent_try_from_def)

lemma auction_type_read [simp]: "auction_type_from_code (int (auction_type_code t)) = Ok t"
  by (simp add: auction_type_from_code_def)

lemma percents_code:
  "(\<forall>p. op = Some p \<longrightarrow> percent_fits p) \<Longrightarrow>
   opt_column percent_to_code op = Ok (map_option (\<lambda>p. int (fp_get p)) op)
   \<and> percent_allowed (map_option (\<lambda>p. int (fp_get p)) op)
   \<and> opt_column percent_from_code (map_option (\<lambda>p. int (fp_get p)) op) = Ok op"
  by (cases op) (simp_all add: opt_column_def percent_code percent_read percent_allowed_def percent_fits_def)

lemma ledgers_read:
  "(\<forall>l. ol = Some l \<longrightarrow> l \<le> u32_max) \<Longrightarrow> opt_column (\<lambda>v. ledger_column v c) (map_option int ol) = Ok ol"
  by (cases ol) (simp_all add: opt_column_def)

lemma auction_row_read:
  assumes "auction_fits a"
  shows "auction_of_row (auction_row_of a (map_option (\<lambda>p. int (fp_get p)) (ta_percent a))) = Ok a"
  using assms percents_code [of "ta_percent a"] ledgers_read [of "ta_fill_ledger a"]
  by (simp add: auction_fits_def auction_of_row_def auction_row_of_def asset_amounts_roundtrip rbind_eq_Ok)

lemma upsert_auction_fits:
  assumes "auction_fits a"
  defines "row \<equiv> auction_row_of a (map_option (\<lambda>p. int (fp_get p)) (ta_percent a))"
  shows "upsert_auction a db = (Ok (), db\<lparr>tb_auctions :=
     upsert_row (at_auction (ta_pool a) (ta_account a) (ta_auction_type a)) (\<lambda>_. row) row (tb_auctions db)\<rparr>)"
  using assms percents_code [of "ta_percent a"] by (simp add: upsert_auction_def auction_fits_def)

lemma at_auction_key:
  "at_auction pool account ty = (\<lambda>r. aw_pool r = pool \<and> aw_account r = account \<and> aw_auction_type r = int (auction_type_code ty))"
  by (simp add: at_auction_def fun_eq_iff)

lemma auction_row_key [simp]: "aw_pool (auction_row_of a p) = ta_pool a" "aw_account (auction_row_of a p) = ta_account a"
  "aw_auction_type (auction_row_of a p) = int (auction_type_code (ta_auction_type a))"
  by (simp_all add: auction_row_of_def)

lemma auctions_ok_upsert:
  assumes "auctions_ok (tb_auctions db)" "auction_fits a"
  shows "auctions_ok (tb_auctions (snd (upsert_auction a db)))"
proof -
  let ?row = "auction_row_of a (map_option (\<lambda>p. int (fp_get p)) (ta_percent a))"
  have "readable auction_of_row ?row" using auction_row_read [OF assms(2)] by (simp add: readable_def)
  then show ?thesis
    using assms rt.distinct_upsert [of ?row "(ta_pool a, ta_account a, int (auction_type_code (ta_auction_type a)))" "\<lambda>_. ?row"]
      upsert_row_all [of "tb_auctions db" "readable auction_of_row" ?row "\<lambda>_. ?row"]
    by (simp add: auctions_ok_def upsert_auction_fits at_auction_key)
qed

lemma auctions_ok_delete: "auctions_ok rows \<Longrightarrow> auctions_ok (delete_rows p rows)"
  using rt.distinct_delete [of rows p] delete_rows_all [of rows "readable auction_of_row" p] by (simp add: auctions_ok_def)

lemma auctions_ok_plan:
  assumes "auctions_ok (tb_auctions db)" "\<forall>l p. plan = Some (l, p) \<longrightarrow> l \<le> u32_max \<and> percent_fits p"
  shows "auctions_ok (tb_auctions (snd (set_fill_plan pool account ty plan db)))"
proof -
  let ?l = "map_option (\<lambda>(l, _). int l) plan" and ?p = "map_option (\<lambda>(_, p). int (fp_get p)) plan"
  let ?change = "\<lambda>r. r\<lparr>aw_fill_ledger := ?l, aw_percent := ?p\<rparr>"
  have enc: "opt_column (\<lambda>(_, p). percent_to_code p) plan = Ok ?p" "percent_allowed ?p"
    using assms(2) by (cases plan; force simp: opt_column_def percent_code percent_allowed_def percent_fits_def)+
  have "opt_column (\<lambda>v. ledger_column v ''fill_ledger'') ?l = Ok (map_option fst plan)"
    using assms(2) by (cases plan) (force simp: opt_column_def)+
  moreover have "opt_column percent_from_code ?p = Ok (map_option snd plan)"
    using assms(2) by (cases plan) (force simp: opt_column_def percent_read)+
  ultimately have "readable auction_of_row (?change r)" if "readable auction_of_row r" for r
    using that by (auto simp: readable_def auction_of_row_def rbind_eq_Ok)
  then have "auctions_ok (update_rows (at_auction pool account ty) ?change (tb_auctions db))"
    using assms(1) rt.distinct_update [of ?change "at_auction pool account ty" "tb_auctions db"]
      update_rows_all [of "tb_auctions db" "readable auction_of_row" ?change "at_auction pool account ty"]
    by (simp add: auctions_ok_def)
  then show ?thesis using assms(1) enc by (simp add: set_fill_plan_def Let_def)
qed

lemma cursors_ok_set:
  assumes "cursors_ok (tb_cursors db)" "cu_ledger c \<le> u32_max"
  shows "cursors_ok (tb_cursors (set_cursor name c db))"
  using assms ct.distinct_upsert [of "\<lparr>cw_name = name, cw_ledger = int (cu_ledger c), cw_paging_token = cu_paging_token c\<rparr>"
      name "\<lambda>r. r\<lparr>cw_ledger := int (cu_ledger c), cw_paging_token := cu_paging_token c\<rparr>" "tb_cursors db"]
    upsert_row_all [of "tb_cursors db" "\<lambda>r. 0 \<le> cw_ledger r \<and> cw_ledger r \<le> int u32_max"
      "\<lparr>cw_name = name, cw_ledger = int (cu_ledger c), cw_paging_token = cu_paging_token c\<rparr>"
      "\<lambda>r. r\<lparr>cw_ledger := int (cu_ledger c), cw_paging_token := cu_paging_token c\<rparr>" "at_cursor name"]
  by (simp add: cursors_ok_def set_cursor_def)

lemma ids_ok_append: "ids_ok ids seq \<Longrightarrow> ids_ok (ids @ [seq]) (seq + 1) \<and> ids_ok ids (seq + 1)"
  by (auto simp: ids_ok_def)

lemma hashes_append: "fw_tx_hash r = None \<Longrightarrow> hashes_ok rows \<Longrightarrow> hashes_ok (rows @ [r])"
  by (simp add: hashes_ok_def map_filter_def)

lemma hashes_attach:
  assumes "hashes_ok rows" "distinct (map fw_id rows)" "\<forall>r \<in> set rows. fw_tx_hash r \<noteq> Some h"
  shows "hashes_ok (update_rows (unsent_fill i) (\<lambda>r. r\<lparr>fw_tx_hash := Some h\<rparr>) rows)"
  using assms
proof (induction rows)
  case (Cons r rows)
  have keep: "update_rows (unsent_fill i) (\<lambda>r. r\<lparr>fw_tx_hash := Some h\<rparr>) rows = rows" if "fw_id r = i"
    using Cons.prems(2) that by (force simp: update_rows_def unsent_fill_def image_iff intro!: map_idI)
  have hs: "set (List.map_filter fw_tx_hash (update_rows (unsent_fill i) (\<lambda>r. r\<lparr>fw_tx_hash := Some h\<rparr>) rows))
      \<subseteq> insert h (set (List.map_filter fw_tx_hash rows))"
    by (auto simp: update_rows_def map_filter_def split: if_splits)
  have nh: "h \<notin> set (List.map_filter fw_tx_hash rows)" using Cons.prems(3) by (auto simp: map_filter_def)
  show ?case
  proof (cases "unsent_fill i r")
    case True
    then have "update_rows (unsent_fill i) (\<lambda>r. r\<lparr>fw_tx_hash := Some h\<rparr>) (r # rows) = r\<lparr>fw_tx_hash := Some h\<rparr> # rows"
      using keep by (simp add: update_rows_def unsent_fill_def)
    then show ?thesis using Cons.prems(1) nh by (simp add: hashes_ok_def map_filter_simps split: option.splits)
  next
    case False
    then show ?thesis
      using Cons hs by (auto simp: hashes_ok_def update_rows_def map_filter_simps split: option.splits)
  qed
qed (simp add: update_rows_def hashes_ok_def map_filter_simps)

lemma update_ids:
  "map nw_id (update_rows p (\<lambda>r. r\<lparr>nw_tx_hash := h\<rparr>) cs) = map nw_id cs"
  "map fw_id (update_rows q (\<lambda>r. r\<lparr>fw_tx_hash := h\<rparr>) fs) = map fw_id fs"
  by (simp_all add: update_rows_def)

lemma record_creation_ok:
  assumes "tables_ok db"
  shows "tables_ok (snd (record_creation c db))"
  using assms ids_ok_append [of "map nw_id (tb_creations db)" "tb_creation_seq db"]
  by (simp add: record_creation_def tables_ok_def Let_def split: sum.split)

lemma record_fill_ok:
  assumes "tables_ok db"
  shows "tables_ok (snd (record_fill f db))"
  using assms ids_ok_append [of "map fw_id (tb_fills db)" "tb_fill_seq db"]
  by (simp add: record_fill_def tables_ok_def Let_def hashes_append split: sum.split)

lemma attach_fill_ok:
  assumes "tables_ok db"
  shows "tables_ok (snd (attach_fill_tx i h db))"
  using assms hashes_attach [of "tb_fills db" h i] ids_ok_def [of "map fw_id (tb_fills db)"]
  by (simp add: attach_fill_tx_def tables_ok_def update_ids)

lemma upsert_auction_others:
  "tb_users (snd (upsert_auction a db)) = tb_users db" "tb_cursors (snd (upsert_auction a db)) = tb_cursors db"
  "tb_creations (snd (upsert_auction a db)) = tb_creations db" "tb_fills (snd (upsert_auction a db)) = tb_fills db"
  "tb_creation_seq (snd (upsert_auction a db)) = tb_creation_seq db" "tb_fill_seq (snd (upsert_auction a db)) = tb_fill_seq db"
  by (simp_all add: upsert_auction_def split: sum.split)

lemma set_fill_plan_others:
  "tb_users (snd (set_fill_plan p a t plan db)) = tb_users db" "tb_cursors (snd (set_fill_plan p a t plan db)) = tb_cursors db"
  "tb_creations (snd (set_fill_plan p a t plan db)) = tb_creations db" "tb_fills (snd (set_fill_plan p a t plan db)) = tb_fills db"
  "tb_creation_seq (snd (set_fill_plan p a t plan db)) = tb_creation_seq db"
  "tb_fill_seq (snd (set_fill_plan p a t plan db)) = tb_fill_seq db"
  by (simp_all add: set_fill_plan_def Let_def split: sum.split)

lemma run_op_ok:
  assumes "tables_ok db" "op_fits op"
  shows "tables_ok (run_op op db)"
proof (cases op)
  case (SetCursor name c)
  then show ?thesis using assms cursors_ok_set by (simp add: tables_ok_def) (simp add: set_cursor_def)
next
  case (UpsertAuction a)
  then show ?thesis using assms auctions_ok_upsert by (simp add: tables_ok_def upsert_auction_others)
next
  case (SetFillPlan p a t plan)
  then show ?thesis using assms auctions_ok_plan by (simp add: tables_ok_def set_fill_plan_others)
qed (use assms in \<open>simp_all add: record_creation_ok record_fill_ok attach_fill_ok\<close>,
    use assms in \<open>simp_all add: tables_ok_def upsert_user_rows delete_user_def flag_recheck_def flag_exposed_to_def
      clear_recheck_def attach_creation_tx_def delete_auction_def Let_def update_ids
      users_ok_upsert users_ok_raise users_ok_clear users_ok_delete auctions_ok_delete\<close>)

lemma store_reachable_ok: "store_reachable db \<Longrightarrow> tables_ok db"
proof (induction rule: store_reachable.induct)
  case empty
  then show ?case
    by (simp add: tables_ok_def cursors_ok_def users_ok_def auctions_ok_def ids_ok_def hashes_ok_def map_filter_simps)
next
  case (step db op)
  then show ?case using run_op_ok by blast
qed

section \<open>What the store promises\<close>

lemma find_user_after_upsert:
  "List.find (at_user pool account) (tb_users (upsert_user u db)) =
     (if pool = tu_pool u \<and> account = tu_account u then
        Some (written u (case List.find (at_user pool account) (tb_users db) of None \<Rightarrow> fresh_user u | Some r \<Rightarrow> r))
      else List.find (at_user pool account) (tb_users db))"
  using ut.find_upsert [of "written u (fresh_user u)" "(tu_pool u, tu_account u)" "written u" "(pool, account)" "tb_users db"]
  by (auto simp: upsert_user_rows split: option.splits)

lemma find_user_after_delete:
  "List.find (at_user pool account) (tb_users (snd (delete_user p a db))) =
     (if pool = p \<and> account = a then None else List.find (at_user pool account) (tb_users db))"
  using ut.find_delete [of "(pool, account)" "(p, a)" "tb_users db"] by (simp add: delete_user_def)

lemma find_auction_after_upsert:
  assumes "auction_fits a"
  shows "List.find (at_auction pool account ty) (tb_auctions (snd (upsert_auction a db))) =
     (if pool = ta_pool a \<and> account = ta_account a \<and> ty = ta_auction_type a then
        Some (auction_row_of a (map_option (\<lambda>p. int (fp_get p)) (ta_percent a)))
      else List.find (at_auction pool account ty) (tb_auctions db))"
  using rt.find_upsert [of "auction_row_of a (map_option (\<lambda>p. int (fp_get p)) (ta_percent a))"
      "(ta_pool a, ta_account a, int (auction_type_code (ta_auction_type a)))"
      "\<lambda>_. auction_row_of a (map_option (\<lambda>p. int (fp_get p)) (ta_percent a))"
      "(pool, account, int (auction_type_code ty))" "tb_auctions db"]
  by (auto simp: upsert_auction_fits [OF assms] at_auction_key split: option.splits)

lemma find_auction_after_delete:
  "List.find (at_auction pool account ty) (tb_auctions (snd (delete_auction p a t db))) =
     (if pool = p \<and> account = a \<and> ty = t then None else List.find (at_auction pool account ty) (tb_auctions db))"
  using rt.find_delete [of "(pool, account, int (auction_type_code ty))" "(p, a, int (auction_type_code t))" "tb_auctions db"]
  by (auto simp: delete_auction_def at_auction_key)

lemma find_in: "List.find p rows = Some r \<Longrightarrow> r \<in> set rows \<and> p r"
  by (auto simp: find_Some_iff)

text \<open>The flag a user's row carries, and what it is after each kind of operation.\<close>

definition recheck_of :: "string \<Rightarrow> string \<Rightarrow> tables \<Rightarrow> nat option" where
  "recheck_of pool account db =
     Option.bind (List.find (at_user pool account) (tb_users db)) (\<lambda>r. map_option nat (uw_recheck_ledger r))"

lemma store_user_after_upsert:
  assumes "users_ok (tb_users db)" "user_fits u"
  shows "store_user pool account (upsert_user u db) =
     (if pool = tu_pool u \<and> account = tu_account u then Ok (Some (u\<lparr>tu_recheck_ledger := recheck_of pool account db\<rparr>))
      else store_user pool account db)"
proof (cases "pool = tu_pool u \<and> account = tu_account u")
  case True
  show ?thesis
  proof (cases "List.find (at_user pool account) (tb_users db)")
    case None
    then show ?thesis using True fresh_read [OF assms(2)]
      by (simp add: store_user_def find_user_after_upsert opt_column_def recheck_of_def)
  next
    case (Some r)
    then have "readable user_of_row r" "uw_pool r = pool" "uw_account r = account"
      using find_in [OF Some] assms(1) by (auto simp: users_ok_def at_user_def)
    then show ?thesis using True Some written_read [OF assms(2) readable_flag, of r]
      by (simp add: store_user_def find_user_after_upsert opt_column_def recheck_of_def)
  qed
qed (auto simp: store_user_def find_user_after_upsert)

text \<open>
  C28. What is written is what is read. In every state the operations can bring the tables to, a
  borrower written reads back as it was written, through the decimal and JSON columns, except
  that its recheck flag is the one the row already had; an auction reads back exactly; and a
  deleted row is gone, with every other row untouched.
\<close>

theorem store_reads_back:
  assumes "store_reachable db" "user_fits u" "auction_fits a"
  shows "store_user pool account (upsert_user u db) =
       (if pool = tu_pool u \<and> account = tu_account u
        then Ok (Some (u\<lparr>tu_recheck_ledger := recheck_of pool account db\<rparr>)) else store_user pool account db)
   \<and> store_user pool account (snd (delete_user p b db)) =
       (if pool = p \<and> account = b then Ok None else store_user pool account db)
   \<and> store_auction pool account ty (snd (upsert_auction a db)) =
       (if pool = ta_pool a \<and> account = ta_account a \<and> ty = ta_auction_type a
        then Ok (Some a) else store_auction pool account ty db)
   \<and> store_auction pool account ty (snd (delete_auction p b t db)) =
       (if pool = p \<and> account = b \<and> ty = t then Ok None else store_auction pool account ty db)"
proof -
  have ok: "users_ok (tb_users db)" using store_reachable_ok [OF assms(1)] by (simp add: tables_ok_def)
  show ?thesis
    using store_user_after_upsert [OF ok assms(2)] auction_row_read [OF assms(3)]
    by (simp add: store_user_def [of _ _ "snd (delete_user p b db)"] find_user_after_delete store_auction_def
        find_auction_after_upsert [OF assms(3)] find_auction_after_delete opt_column_def store_user_def [of _ _ db])
qed

text \<open>
  C3. The tables are well typed. In every state the operations can bring them to, keys are
  unique, no two fills name the same transaction, and every query answers: no row the bot
  wrote can make a read fail.
\<close>

theorem reachable_reads_succeed:
  assumes "store_reachable db"
  shows "tables_ok db
   \<and> (\<exists>x. store_user pool account db = Ok x) \<and> (\<exists>x. store_auction pool account ty db = Ok x)
   \<and> (\<exists>x. store_cursor name db = Ok x)
   \<and> (\<exists>x. users_below_health pool threshold limit after db = Ok x)
   \<and> (\<exists>x. users_stale pool updated_before limit db = Ok x)
   \<and> (\<exists>x. users_needing_recheck pool limit db = Ok x) \<and> (\<exists>x. open_auctions pool db = Ok x)"
proof -
  note ok = store_reachable_ok [OF assms]
  have all: "\<exists>ys. rmap_list f xs = Ok ys" if "\<forall>x \<in> set xs. readable f x" for f :: "'r \<Rightarrow> 'a store_result" and xs
    using that by (induction xs) (auto simp: readable_def rbind_eq_Ok)
  have one: "\<exists>y. opt_column f (List.find p xs) = Ok y" if "\<forall>x \<in> set xs. readable f x" for f :: "'r \<Rightarrow> 'a store_result" and p xs
    using that find_in [of p xs] by (cases "List.find p xs") (auto simp: opt_column_def readable_def)
  from ok have u: "\<forall>r \<in> set (tb_users db). readable user_of_row r" and a: "\<forall>r \<in> set (tb_auctions db). readable auction_of_row r"
    and c: "\<forall>r \<in> set (tb_cursors db). 0 \<le> cw_ledger r \<and> cw_ledger r \<le> int u32_max"
    by (auto simp: tables_ok_def users_ok_def auctions_ok_def cursors_ok_def)
  have "\<exists>x. store_cursor name db = Ok x"
    unfolding store_cursor_def by (rule one) (use c in \<open>auto simp: readable_def ledger_column_def\<close>)
  moreover have "\<exists>x. users_below_health pool threshold limit after db = Ok x" "\<exists>x. users_stale pool updated_before limit db = Ok x"
    "\<exists>x. users_needing_recheck pool limit db = Ok x"
    unfolding users_below_health_def users_stale_def users_needing_recheck_def
    using u by (auto intro!: all dest!: in_set_takeD)
  moreover have "\<exists>x. open_auctions pool db = Ok x"
    unfolding open_auctions_def using a by (auto intro!: all)
  ultimately show ?thesis
    using ok one [OF u] one [OF a] by (simp add: store_user_def store_auction_def)
qed

subsection \<open>Flags\<close>

lemma find_user_update:
  assumes "\<And>r. uw_pool (change r) = uw_pool r \<and> uw_account (change r) = uw_account r"
  shows "List.find (at_user pool account) (update_rows p change rows) =
    map_option (\<lambda>r. if p r then change r else r) (List.find (at_user pool account) rows)"
  using ut.find_update [of change "(pool, account)" p rows] assms by simp

lemma recheck_of_Some:
  assumes "tables_ok db"
  shows "recheck_of pool account db = Some f \<longleftrightarrow>
     (\<exists>r. List.find (at_user pool account) (tb_users db) = Some r \<and> uw_recheck_ledger r = Some (int f))"
proof -
  have "flag_fits (uw_recheck_ledger r)" if "List.find (at_user pool account) (tb_users db) = Some r" for r
    using find_in [OF that] assms by (auto simp: tables_ok_def users_ok_def intro!: readable_flag)
  then show ?thesis
    by (auto simp: recheck_of_def flag_fits_def bind_eq_Some_conv)
qed

lemma upsert_keeps_flag: "recheck_of pool account db = Some f \<Longrightarrow> recheck_of pool account (upsert_user u db) = Some f"
  by (auto simp: recheck_of_def find_user_after_upsert bind_eq_Some_conv split: option.splits)

lemma raise_flag_recheck:
  assumes "recheck_of pool account db = Some f" "tables_ok db"
  shows "recheck_of pool account (db\<lparr>tb_users := update_rows p (raise_flag l) (tb_users db)\<rparr>) = Some f
   \<or> l > f \<and> recheck_of pool account (db\<lparr>tb_users := update_rows p (raise_flag l) (tb_users db)\<rparr>) = Some l"
proof -
  obtain r where r: "List.find (at_user pool account) (tb_users db) = Some r" "uw_recheck_ledger r = Some (int f)"
    using assms by (auto simp: recheck_of_Some)
  show ?thesis
    by (cases "p r") (auto simp: recheck_of_def find_user_update r raise_flag_def greatest_def max_def)
qed

lemma flag_recheck_reaches:
  "recheck_of pool account db = Some f \<Longrightarrow> tables_ok db \<Longrightarrow>
   recheck_of pool account (flag_recheck pool account l db) = Some (max f l)"
  by (auto simp: recheck_of_Some dest: find_in)
    (auto simp: recheck_of_def flag_recheck_def find_user_update raise_flag_def greatest_def max_def dest: find_in)

lemma other_ops_keep_users:
  "tb_users (set_cursor name c db) = tb_users db" "tb_users (snd (record_creation cr db)) = tb_users db"
  "tb_users (snd (attach_creation_tx i h db)) = tb_users db" "tb_users (snd (delete_auction p a t db)) = tb_users db"
  "tb_users (snd (record_fill f db)) = tb_users db" "tb_users (snd (attach_fill_tx i h db)) = tb_users db"
  by (simp_all add: set_cursor_def record_creation_def attach_creation_tx_def delete_auction_def record_fill_def
      attach_fill_tx_def Let_def split: sum.split)

lemma recheck_of_cong: "tb_users db' = tb_users db \<Longrightarrow> recheck_of pool account db' = recheck_of pool account db"
  by (simp add: recheck_of_def)

text \<open>Operations that neither delete a user's row nor clear its flag.\<close>

definition leaves_flag :: "string \<Rightarrow> string \<Rightarrow> store_op \<Rightarrow> bool" where
  "leaves_flag pool account op \<longleftrightarrow> op \<noteq> DeleteUser pool account \<and> (\<forall>l. op \<noteq> ClearRecheck pool account l)"

definition raises_to :: "string \<Rightarrow> string \<Rightarrow> nat \<Rightarrow> store_op \<Rightarrow> bool" where
  "raises_to pool account l op \<longleftrightarrow> op = FlagRecheck pool account l \<or> (\<exists>i s. op = FlagExposedTo pool i s l)"

lemma flag_step:
  assumes ok: "tables_ok db" and f: "recheck_of pool account db = Some f" and lf: "leaves_flag pool account op"
  shows "recheck_of pool account (run_op op db) = Some f
    \<or> (\<exists>l > f. raises_to pool account l op \<and> recheck_of pool account (run_op op db) = Some l)"
proof (cases op)
  case (DeleteUser p a)
  then show ?thesis using f lf by (auto simp: recheck_of_def find_user_after_delete leaves_flag_def)
next
  case (FlagRecheck p a l)
  show ?thesis
  proof (cases "p = pool \<and> a = account")
    case True
    then show ?thesis using FlagRecheck flag_recheck_reaches [OF f ok, of l] by (auto simp: raises_to_def max_def)
  next
    case False
    obtain r where r: "List.find (at_user pool account) (tb_users db) = Some r" "uw_recheck_ledger r = Some (int f)"
      using f by (auto simp: recheck_of_Some [OF ok])
    then have "\<not> at_user p a r" using False find_in [OF r(1)] by (auto simp: at_user_def)
    then show ?thesis using FlagRecheck r by (simp add: recheck_of_def flag_recheck_def find_user_update)
  qed
next
  case (FlagExposedTo p i s l)
  obtain r where r: "List.find (at_user pool account) (tb_users db) = Some r" "uw_recheck_ledger r = Some (int f)"
    using f by (auto simp: recheck_of_Some [OF ok])
  show ?thesis
  proof (cases "p = pool")
    case True
    then show ?thesis
      using FlagExposedTo raise_flag_recheck [OF f ok, of "exposed p i s" l] by (auto simp: raises_to_def flag_exposed_to_def)
  next
    case False
    then have "\<not> exposed p i s r" using find_in [OF r(1)] by (auto simp: at_user_def exposed_def)
    then show ?thesis using FlagExposedTo r by (simp add: recheck_of_def flag_exposed_to_def find_user_update)
  qed
next
  case (ClearRecheck p a l)
  obtain r where r: "List.find (at_user pool account) (tb_users db) = Some r" "uw_recheck_ledger r = Some (int f)"
    using f by (auto simp: recheck_of_Some [OF ok])
  have "\<not> at_user p a r" using ClearRecheck lf find_in [OF r(1)] by (auto simp: at_user_def leaves_flag_def)
  then show ?thesis using ClearRecheck r by (simp add: recheck_of_def clear_recheck_def Let_def find_user_update)
qed (use f in \<open>simp_all add: upsert_keeps_flag recheck_of_cong [OF other_ops_keep_users(1)]
    recheck_of_cong [OF other_ops_keep_users(2)] recheck_of_cong [OF other_ops_keep_users(3)]
    recheck_of_cong [OF other_ops_keep_users(4)] recheck_of_cong [OF other_ops_keep_users(5)]
    recheck_of_cong [OF other_ops_keep_users(6)] recheck_of_cong [OF upsert_auction_others(1)]
    recheck_of_cong [OF set_fill_plan_others(1)]\<close>)

lemma flag_steps:
  assumes "tables_ok db" "recheck_of pool account db = Some f"
    and "list_all op_fits ops" "list_all (leaves_flag pool account) ops"
  shows "\<exists>f'. recheck_of pool account (run_ops ops db) = Some f' \<and> f \<le> f'
    \<and> (\<forall>l. FlagRecheck pool account l \<in> set ops \<longrightarrow> l \<le> f')
    \<and> (f' \<noteq> f \<longrightarrow> (\<exists>op \<in> set ops. raises_to pool account f' op))"
  using assms
proof (induction ops arbitrary: db f)
  case (Cons op ops)
  from flag_step [OF Cons.prems(1,2), of op] Cons.prems(4) obtain g where g: "recheck_of pool account (run_op op db) = Some g"
    "f \<le> g" "g \<noteq> f \<longrightarrow> raises_to pool account g op" by auto
  have reach: "l \<le> g" if "op = FlagRecheck pool account l" for l
    using g(1) that flag_recheck_reaches [OF Cons.prems(2,1), of l] by auto
  have "tables_ok (run_op op db)" using run_op_ok [OF Cons.prems(1)] Cons.prems(3) by simp
  from Cons.IH [OF this g(1)] Cons.prems(3,4) obtain f' where
    "recheck_of pool account (run_ops ops (run_op op db)) = Some f'" "g \<le> f'"
    "\<forall>l. FlagRecheck pool account l \<in> set ops \<longrightarrow> l \<le> f'"
    "f' \<noteq> g \<longrightarrow> (\<exists>op \<in> set ops. raises_to pool account f' op)" by auto
  then show ?case using g(2,3) reach by (intro exI [of _ f']) fastforce
qed simp

lemma clear_recheck_exact:
  assumes "tables_ok db" "recheck_of pool account db = Some f'"
  shows "fst (clear_recheck pool account f db) = (f' = f)
    \<and> recheck_of pool account (snd (clear_recheck pool account f db)) = (if f' = f then None else Some f')"
proof -
  obtain r where r: "List.find (at_user pool account) (tb_users db) = Some r" "uw_recheck_ledger r = Some (int f')"
    using assms by (auto simp: recheck_of_Some)
  have "distinct (map (\<lambda>r. (uw_pool r, uw_account r)) (tb_users db))" using assms(1) by (simp add: tables_ok_def users_ok_def)
  from ut.count_at [OF this, of "(pool, account)" "\<lambda>r. uw_recheck_ledger r = Some (int f)"] r find_in [OF r(1)]
  show ?thesis by (auto simp: clear_recheck_def Let_def recheck_of_def find_user_update)
qed


subsection \<open>The health scan\<close>

lemma filter_after:
  assumes "sorted_wrt (<) (map k L)" "n < length L"
  shows "filter (\<lambda>r. k (L ! n) < (k r :: 'a::linorder)) L = drop (Suc n) L"
  using assms
proof (induction L arbitrary: n)
  case (Cons x L)
  show ?case
  proof (cases n)
    case 0
    then show ?thesis using Cons.prems(1) by (auto simp: filter_id_conv)
  next
    case (Suc m)
    then have "k x < k (L ! m)" using Cons.prems by simp
    then show ?thesis using Suc Cons.IH [of m] Cons.prems by (auto dest: order.asym)
  qed
qed simp

lemma rmap_list_take: "rmap_list f xs = Ok ys \<Longrightarrow> rmap_list f (take n xs) = Ok (take n ys)"
  by (simp add: rmap_list_Ok min_def)

lemma rmap_list_drop: "rmap_list f xs = Ok ys \<Longrightarrow> rmap_list f (drop n xs) = Ok (drop n ys)"
  by (auto simp: rmap_list_Ok)

definition user_key :: "tracked_user \<Rightarrow> int \<times> string" where
  "user_key u = (tu_health_factor u, tu_account u)"

lemma user_of_row_key: "user_of_row r = Ok u \<Longrightarrow> user_key u = health_key r \<and> tu_pool u = uw_pool r"
  by (auto simp: user_of_row_def rbind_eq_Ok user_key_def health_key_def decimal_def ok_or_eq_Ok parse_i128_def
      checked_i128_eq_Some bind_eq_Some_conv)

text \<open>The scan's rows, all of them, in its order.\<close>

definition scan_rows :: "string \<Rightarrow> int \<Rightarrow> tables \<Rightarrow> user_row list" where
  "scan_rows pool threshold db =
     sort_key health_key (filter (\<lambda>r. uw_pool r = pool \<and> uw_health_factor r < threshold) (tb_users db))"

lemma users_below_health_scan:
  "users_below_health pool threshold limit after db = rmap_list user_of_row (take limit (filter
     (\<lambda>r. case after of None \<Rightarrow> True | Some key \<Rightarrow> key < health_key r) (scan_rows pool threshold db)))"
  by (simp add: users_below_health_def scan_rows_def filter_sort conj_ac)

lemma scan_rows_sorted:
  assumes "users_ok (tb_users db)"
  shows "sorted_wrt (<) (map health_key (scan_rows pool threshold db))"
proof -
  have "distinct (tb_users db)" "inj_on (\<lambda>r. (uw_pool r, uw_account r)) (set (tb_users db))"
    using assms by (simp_all add: users_ok_def distinct_map)
  then have "distinct (map health_key (scan_rows pool threshold db))"
    by (auto simp: scan_rows_def distinct_map health_key_def inj_on_def)
  then show ?thesis by (simp add: strict_sorted_iff scan_rows_def)
qed

lemma find_user_iff:
  assumes "users_ok (tb_users db)"
  shows "List.find (at_user pool account) (tb_users db) = Some r \<longleftrightarrow> r \<in> set (tb_users db) \<and> at_user pool account r"
proof
  assume r: "r \<in> set (tb_users db) \<and> at_user pool account r"
  then obtain s where s: "List.find (at_user pool account) (tb_users db) = Some s"
    by (cases "List.find (at_user pool account) (tb_users db)") (auto simp: find_None_iff)
  have "inj_on (\<lambda>r. (uw_pool r, uw_account r)) (set (tb_users db))"
    using assms by (simp add: users_ok_def distinct_map)
  then have "s = r" using find_in [OF s] r by (auto simp: at_user_def inj_on_def)
  with s show "List.find (at_user pool account) (tb_users db) = Some r" by simp
qed (rule find_in)

lemma store_user_row:
  assumes "users_ok (tb_users db)"
  shows "store_user pool account db = Ok (Some u) \<longleftrightarrow>
    (\<exists>r \<in> set (tb_users db). at_user pool account r \<and> user_of_row r = Ok u)"
proof -
  have "store_user pool account db = Ok (Some u) \<longleftrightarrow>
    (\<exists>r. List.find (at_user pool account) (tb_users db) = Some r \<and> user_of_row r = Ok u)"
    by (cases "List.find (at_user pool account) (tb_users db)") (auto simp: store_user_def opt_column_Ok)
  then show ?thesis by (auto simp: find_user_iff [OF assms])
qed

text \<open>
  C33. A walk of the unhealthy borrowers misses nobody and meets nobody twice. There is one
  list, ordered by health factor and then account, of exactly the pool's borrowers below the
  threshold; the first page is its beginning, and a page asked for after any borrower of the list
  begins with the next one.
\<close>

theorem health_scan_exact:
  assumes "store_reachable db"
  shows "\<exists>us. sorted_wrt (<) (map user_key us)
    \<and> (\<forall>u. u \<in> set us \<longleftrightarrow> store_user pool (tu_account u) db = Ok (Some u) \<and> tu_health_factor u < threshold)
    \<and> (\<forall>limit. users_below_health pool threshold limit None db = Ok (take limit us))
    \<and> (\<forall>n < length us. \<forall>limit. users_below_health pool threshold limit (Some (user_key (us ! n))) db
          = Ok (take limit (drop (Suc n) us)))"
proof -
  have ok: "users_ok (tb_users db)" using store_reachable_ok [OF assms] by (simp add: tables_ok_def)
  let ?L = "scan_rows pool threshold db"
  have "\<forall>r \<in> set ?L. readable user_of_row r" using ok by (auto simp: scan_rows_def users_ok_def)
  then have "rmap_list user_of_row ?L = Ok (map (\<lambda>r. projr (user_of_row r)) ?L)"
    by (intro rmap_list_Ok_map) (auto simp: readable_def)
  then obtain us where us: "rmap_list user_of_row ?L = Ok us" by blast
  then have len: "length us = length ?L" and nth: "\<And>i. i < length ?L \<Longrightarrow> user_of_row (?L ! i) = Ok (us ! i)"
    by (auto simp: rmap_list_Ok)
  have keys: "map user_key us = map health_key ?L"
    by (rule nth_equalityI) (use len nth user_of_row_key in auto)
  have sorted: "sorted_wrt (<) (map health_key ?L)" by (rule scan_rows_sorted [OF ok])
  have mem: "u \<in> set us \<longleftrightarrow> (\<exists>r \<in> set ?L. user_of_row r = Ok u)" for u
    using len nth by (metis (no_types, lifting) Inr_inject in_set_conv_nth)
  have "u \<in> set us \<longleftrightarrow> store_user pool (tu_account u) db = Ok (Some u) \<and> tu_health_factor u < threshold" for u
    unfolding mem store_user_row [OF ok] using user_of_row_key [of _ u]
    by (fastforce simp: scan_rows_def at_user_def user_key_def health_key_def)
  moreover have "users_below_health pool threshold limit (Some (user_key (us ! n))) db = Ok (take limit (drop (Suc n) us))"
    if "n < length us" for n limit
  proof -
    have "user_key (us ! n) = health_key (?L ! n)" using nth [of n] user_of_row_key that len by simp
    then show ?thesis
      using rmap_list_take [OF rmap_list_drop [OF us], of limit "Suc n"] filter_after [OF sorted, of n] that len
      by (simp add: users_below_health_scan)
  qed
  ultimately show ?thesis
    using sorted keys rmap_list_take [OF us] by (intro exI [of _ us]) (simp add: users_below_health_scan)
qed

section \<open>A concrete store\<close>

definition empty_tables :: tables where
  "empty_tables = \<lparr>tb_cursors = [], tb_users = [], tb_auctions = [], tb_creations = [], tb_fills = [],
     tb_creation_seq = 1, tb_fill_seq = 1\<rparr>"

definition sample_user :: tracked_user where
  "sample_user = \<lparr>tu_pool = ''P'', tu_account = ''A'', tu_health_factor = 9000000, tu_collateral = [(0, 500)],
     tu_liabilities = [(2, 70), (10, 10 ^ 30)], tu_updated_ledger = 7, tu_recheck_ledger = None\<rparr>"

definition sample_row_auction :: tracked_auction where
  "sample_row_auction = \<lparr>ta_pool = ''P'', ta_account = ''A'', ta_auction_type = UserLiquidation, ta_start_ledger = 9,
     ta_fill_ledger = None, ta_percent = Some (FillPercent 40), ta_bid = [(''USDC'', 3)], ta_lot = [(''XLM'', 5)],
     ta_updated_ledger = 9\<rparr>"

lemma sample_user_fits: "user_fits sample_user"
  by (simp add: user_fits_def sample_user_def index_amounts_fit_def amounts_fit_def i128_defs u32_max_def)

lemma sample_auction_fits: "auction_fits sample_row_auction"
  by (simp add: auction_fits_def sample_row_auction_def amounts_fit_def i128_defs u32_max_def percent_fits_def)

lemma empty_reachable: "store_reachable empty_tables"
  using store_reachable.empty by (simp add: empty_tables_def)

definition sample_store :: tables where
  "sample_store = run_ops [UpsertUser sample_user, FlagRecheck ''P'' ''A'' 10] empty_tables"

lemma sample_store_reachable: "store_reachable sample_store"
  using store_reachable.step [OF store_reachable.step [OF empty_reachable, of "UpsertUser sample_user"], of "FlagRecheck ''P'' ''A'' 10"]
    sample_user_fits by (simp add: sample_store_def u32_max_def)

lemma sample_user_reads [simp]: "tu_pool sample_user = ''P''" "tu_account sample_user = ''A''"
  "tu_health_factor sample_user = 9000000"
  by (simp_all add: sample_user_def)

lemma sample_row:
  "List.find (at_user ''P'' ''A'') (tb_users sample_store) = Some (raise_flag 10 (written sample_user (fresh_user sample_user)))"
proof -
  have "List.find (at_user ''P'' ''A'') (tb_users (upsert_user sample_user empty_tables)) = Some (written sample_user (fresh_user sample_user))"
    by (simp add: find_user_after_upsert) (simp add: empty_tables_def)
  then show ?thesis
    by (simp add: sample_store_def flag_recheck_def find_user_update) (simp add: at_user_def)
qed

lemma sample_flag: "recheck_of ''P'' ''A'' sample_store = Some 10"
  by (simp add: recheck_of_def sample_row raise_flag_def greatest_def)

theorem store_reads_back_witness:
  "store_user ''P'' ''A'' (upsert_user sample_user sample_store) = Ok (Some (sample_user\<lparr>tu_recheck_ledger := Some 10\<rparr>))
   \<and> store_auction ''P'' ''A'' UserLiquidation (snd (upsert_auction sample_row_auction sample_store)) = Ok (Some sample_row_auction)"
  using store_reads_back [OF sample_store_reachable sample_user_fits sample_auction_fits, of "''P''" "''A''"] sample_flag
  by (simp add: sample_row_auction_def)

theorem reachable_reads_succeed_witness:
  "\<exists>x. users_needing_recheck ''P'' 5 sample_store = Ok x"
  using reachable_reads_succeed [OF sample_store_reachable] by blast


theorem health_scan_exact_witness:
  "\<exists>us. sample_user\<lparr>tu_recheck_ledger := Some 10\<rparr> \<in> set us
     \<and> users_below_health ''P'' 10000000 3 None sample_store = Ok (take 3 us)"
proof -
  have "user_of_row (written sample_user (fresh_user sample_user)) = Ok (sample_user\<lparr>tu_recheck_ledger := None\<rparr>)"
    by (rule fresh_read [OF sample_user_fits])
  from user_of_row_flag [OF this, of "Some 10"]
  have "store_user ''P'' ''A'' sample_store = Ok (Some (sample_user\<lparr>tu_recheck_ledger := Some 10\<rparr>))"
    by (simp add: store_user_def sample_row opt_column_def raise_flag_def greatest_def flag_fits_def u32_max_def)
  then show ?thesis
    using health_scan_exact [OF sample_store_reachable, of "''P''" 10000000] by fastforce
qed

end
