(* ===== verification/Auction.thy ===== *)
theory Auction
  imports Fixed
begin

text \<open>
  \<open>src/math/auction.rs\<close>: the Dutch auction. Over the first 200 blocks the lot ramps up
  for the whole bid, over the next 200 the bid ramps down for the whole lot.
  \<open>scale_auction\<close> splits an auction into what a fill exchanges and what is left.
\<close>

section \<open>Definitions\<close>

definition PER_BLOCK_SCALAR :: int where
  "PER_BLOCK_SCALAR = 50000"

definition RAMP_BLOCKS :: nat where
  "RAMP_BLOCKS = 200"

definition RAMP_END_BLOCKS :: nat where
  "RAMP_END_BLOCKS = 400"

record auction_data =
  ad_bid :: "(string, int) btree"
  ad_lot :: "(string, int) btree"
  ad_block :: nat

text \<open>\<open>AuctionData::is_empty\<close>.\<close>

definition auction_is_empty :: "auction_data \<Rightarrow> bool" where
  "auction_is_empty self \<longleftrightarrow> ad_bid self = [] \<and> ad_lot self = []"

record scaled_auction =
  sa_to_fill :: auction_data
  sa_remaining :: "auction_data option"

definition bid_modifier :: "nat \<Rightarrow> int" where
  "bid_modifier block_delta =
     (if block_delta \<le> RAMP_BLOCKS then SCALAR_7
      else if block_delta < RAMP_END_BLOCKS
      then SCALAR_7 - int (block_delta - RAMP_BLOCKS) * PER_BLOCK_SCALAR
      else 0)"

definition lot_modifier :: "nat \<Rightarrow> int" where
  "lot_modifier block_delta =
     (if block_delta \<le> RAMP_BLOCKS then int block_delta * PER_BLOCK_SCALAR else SCALAR_7)"

text \<open>
  The body of either loop of \<open>scale_auction\<close>, over the map being scaled: \<open>rnd\<close> is
  \<open>mul_ceil\<close> on the bid side and \<open>mul_floor\<close> on the lot side.
\<close>

definition scale_side ::
  "(int \<Rightarrow> int \<Rightarrow> int \<Rightarrow> int math_result) \<Rightarrow> int \<Rightarrow> int \<Rightarrow> string \<times> int
   \<Rightarrow> (string, int) btree \<times> (string, int) btree
   \<Rightarrow> ((string, int) btree \<times> (string, int) btree) math_result" where
  "scale_side rnd percent_scaled scale = (\<lambda>(asset, amount) (to_fill, remaining).
     rbind (rnd amount percent_scaled SCALAR_7) (\<lambda>to_fill_base.
     rbind (ok_or Overflow (checked_sub amount to_fill_base)) (\<lambda>remaining_base.
     let remaining = (if 0 < remaining_base then bt_insert asset remaining_base remaining else remaining) in
     rbind (rnd to_fill_base scale SCALAR_7) (\<lambda>scaled.
     let to_fill = (if 0 < scaled then bt_insert asset scaled to_fill else to_fill) in
     Ok (to_fill, remaining)))))"

definition scale_auction :: "auction_data \<Rightarrow> nat \<Rightarrow> nat \<Rightarrow> scaled_auction math_result" where
  "scale_auction auction fill_block percent_filled =
     (if percent_filled = 0 \<or> 100 < percent_filled
      then Err (InvalidInput ''percent_filled must be 1..=100'')
      else
        rbind (ok_or (InvalidInput ''fill_block precedes the auction block'')
                (checked_sub_unsigned fill_block (ad_block auction))) (\<lambda>block_delta.
        let bid_scale = bid_modifier block_delta; lot_scale = lot_modifier block_delta in
        rbind (ok_or Overflow (checked_mul (int percent_filled) 100000)) (\<lambda>percent_scaled.
        rbind (rfold (scale_side mul_ceil percent_scaled bid_scale) (ad_bid auction) ([], []))
          (\<lambda>(fill_bid, rest_bid).
        rbind (rfold (scale_side mul_floor percent_scaled lot_scale) (ad_lot auction) ([], []))
          (\<lambda>(fill_lot, rest_lot).
        let to_fill = \<lparr>ad_bid = fill_bid, ad_lot = fill_lot, ad_block = ad_block auction\<rparr>;
            remaining = \<lparr>ad_bid = rest_bid, ad_lot = rest_lot, ad_block = ad_block auction\<rparr>
        in Ok \<lparr>sa_to_fill = to_fill,
               sa_remaining = (if auction_is_empty remaining then None else Some remaining)\<rparr>)))))"

lemmas auction_evals [eval_simps] = PER_BLOCK_SCALAR_def RAMP_BLOCKS_def RAMP_END_BLOCKS_def
  auction_is_empty_def bid_modifier_def lot_modifier_def scale_side_def scale_auction_def

section \<open>The modifiers\<close>

lemmas ramp_defs = PER_BLOCK_SCALAR_def RAMP_BLOCKS_def RAMP_END_BLOCKS_def SCALAR_7_def

lemma modifier_range:
  "0 \<le> bid_modifier d \<and> bid_modifier d \<le> SCALAR_7" "0 \<le> lot_modifier d \<and> lot_modifier d \<le> SCALAR_7"
  by (auto simp: bid_modifier_def lot_modifier_def ramp_defs)

lemma bid_modifier_antimono: "d \<le> e \<Longrightarrow> bid_modifier e \<le> bid_modifier d"
  by (auto simp: bid_modifier_def ramp_defs)

lemma lot_modifier_mono: "d \<le> e \<Longrightarrow> lot_modifier d \<le> lot_modifier e"
  by (auto simp: lot_modifier_def ramp_defs)

lemma bid_modifier_zero_iff: "bid_modifier d = 0 \<longleftrightarrow> RAMP_END_BLOCKS \<le> d"
  by (auto simp: bid_modifier_def ramp_defs)

lemma lot_modifier_full_iff: "lot_modifier d = SCALAR_7 \<longleftrightarrow> RAMP_BLOCKS \<le> d"
  by (auto simp: lot_modifier_def ramp_defs)

section \<open>One entry of a scaled side\<close>

text \<open>A share of an amount, the share being at most one whole at 7 decimals.\<close>

lemma share_bounds:
  assumes "0 \<le> a" "0 \<le> s" "s \<le> SCALAR_7"
  shows "0 \<le> a * s div SCALAR_7 \<and> a * s div SCALAR_7 \<le> a"
    and "0 \<le> cdiv (a * s) SCALAR_7 \<and> cdiv (a * s) SCALAR_7 \<le> a"
proof -
  have "a * s \<le> a * SCALAR_7" using assms by (simp add: mult_left_mono)
  moreover from this have "a * s div SCALAR_7 \<le> a * SCALAR_7 div SCALAR_7" by (rule zdiv_mono1) simp
  moreover have "0 \<le> a * s" using assms by simp
  ultimately show "0 \<le> a * s div SCALAR_7 \<and> a * s div SCALAR_7 \<le> a"
    and "0 \<le> cdiv (a * s) SCALAR_7 \<and> cdiv (a * s) SCALAR_7 \<le> a"
    by (simp_all add: fdiv_nonneg cdiv_nonneg cdiv_le_iff SCALAR_7_def)
qed

definition ceil_share :: "int \<Rightarrow> int \<Rightarrow> int" where
  "ceil_share a s = cdiv (a * s) SCALAR_7"

definition floor_share :: "int \<Rightarrow> int \<Rightarrow> int" where
  "floor_share a s = a * s div SCALAR_7"

lemmas share_defs = ceil_share_def floor_share_def

text \<open>
  What both rounding helpers share on the domain of an auction: they never fail and take a
  part between nothing and the whole. The loop lemmas are proved once from this.
\<close>

locale share_rounding =
  fixes rnd :: "int \<Rightarrow> int \<Rightarrow> int \<Rightarrow> int math_result" and share :: "int \<Rightarrow> int \<Rightarrow> int"
  assumes rnd_eq: "0 \<le> a \<Longrightarrow> in_i128 a \<Longrightarrow> 0 \<le> s \<Longrightarrow> s \<le> SCALAR_7 \<Longrightarrow> rnd a s SCALAR_7 = Ok (share a s)"
    and share_nonneg: "0 \<le> a \<Longrightarrow> 0 \<le> s \<Longrightarrow> s \<le> SCALAR_7 \<Longrightarrow> 0 \<le> share a s"
    and share_le: "0 \<le> a \<Longrightarrow> 0 \<le> s \<Longrightarrow> s \<le> SCALAR_7 \<Longrightarrow> share a s \<le> a"
    and share_whole: "share a SCALAR_7 = a"
begin

definition filled :: "int \<Rightarrow> int \<Rightarrow> int \<Rightarrow> int option" where
  "filled p m a = (let x = share (share a p) m in if 0 < x then Some x else None)"

definition left_over :: "int \<Rightarrow> int \<Rightarrow> int option" where
  "left_over p a = (let x = a - share a p in if 0 < x then Some x else None)"

lemma scale_side_eq:
  assumes "0 \<le> a" "in_i128 a" "0 \<le> p" "p \<le> SCALAR_7" "0 \<le> m" "m \<le> SCALAR_7"
  shows "scale_side rnd p m (k, a) (tf, rm) = Ok
    (case filled p m a of None \<Rightarrow> tf | Some x \<Rightarrow> bt_insert k x tf,
     case left_over p a of None \<Rightarrow> rm | Some x \<Rightarrow> bt_insert k x rm)"
proof -
  have b: "0 \<le> share a p" "share a p \<le> a" using assms by (simp_all add: share_nonneg share_le)
  then have "in_i128 (share a p)" "in_i128 (a - share a p)"
    using assms(1,2) by (auto intro: in_i128_nonneg_le)
  with assms b show ?thesis
    by (simp add: scale_side_def rnd_eq filled_def left_over_def Let_def)
qed

lemma scale_loop:
  assumes "0 \<le> p" "p \<le> SCALAR_7" "0 \<le> m" "m \<le> SCALAR_7"
  shows "\<forall>v \<in> set (bt_values es). 0 \<le> v \<and> in_i128 v \<Longrightarrow> bt_wf es \<Longrightarrow> bt_wf tf \<Longrightarrow> bt_wf rm \<Longrightarrow>
    \<exists>tf' rm'. rfold (scale_side rnd p m) es (tf, rm) = Ok (tf', rm') \<and> bt_wf tf' \<and> bt_wf rm'
      \<and> (\<forall>k. bt_get tf' k = (case bt_get es k of None \<Rightarrow> bt_get tf k
            | Some a \<Rightarrow> (case filled p m a of None \<Rightarrow> bt_get tf k | Some x \<Rightarrow> Some x)))
      \<and> (\<forall>k. bt_get rm' k = (case bt_get es k of None \<Rightarrow> bt_get rm k
            | Some a \<Rightarrow> (case left_over p a of None \<Rightarrow> bt_get rm k | Some x \<Rightarrow> Some x)))"
proof (induction es arbitrary: tf rm)
  case (Cons e es)
  obtain k a where e: "e = (k, a)" by (cases e)
  let ?tf = "case filled p m a of None \<Rightarrow> tf | Some x \<Rightarrow> bt_insert k x tf"
  let ?rm = "case left_over p a of None \<Rightarrow> rm | Some x \<Rightarrow> bt_insert k x rm"
  have step: "scale_side rnd p m e (tf, rm) = Ok (?tf, ?rm)"
    using Cons.prems(1) assms by (simp add: e scale_side_eq)
  have wf: "bt_wf ?tf" "bt_wf ?rm" using Cons.prems(3,4) by (simp_all split: option.split)
  have "k \<notin> set (bt_keys es)" using Cons.prems(2) e by auto
  then have none: "bt_get es k = None" by (simp add: bt_get_eq_None_iff)
  have "\<forall>v \<in> set (bt_values es). 0 \<le> v \<and> in_i128 v" "bt_wf es" using Cons.prems(1,2) e by auto
  from Cons.IH [OF this wf] obtain tf' rm' where
    "rfold (scale_side rnd p m) es (?tf, ?rm) = Ok (tf', rm')" "bt_wf tf'" "bt_wf rm'"
    "\<forall>k'. bt_get tf' k' = (case bt_get es k' of None \<Rightarrow> bt_get ?tf k'
            | Some a \<Rightarrow> (case filled p m a of None \<Rightarrow> bt_get ?tf k' | Some x \<Rightarrow> Some x))"
    "\<forall>k'. bt_get rm' k' = (case bt_get es k' of None \<Rightarrow> bt_get ?rm k'
            | Some a \<Rightarrow> (case left_over p a of None \<Rightarrow> bt_get ?rm k' | Some x \<Rightarrow> Some x))"
    by blast
  with step none show ?case by (auto simp: e split: option.splits)
qed simp

end

interpretation bid: share_rounding mul_ceil ceil_share
proof unfold_locales
  fix a s :: int
  assume b: "0 \<le> a" "0 \<le> s" "s \<le> SCALAR_7"
  from share_bounds(2) [OF b] show "0 \<le> ceil_share a s" "ceil_share a s \<le> a"
    by (simp_all add: ceil_share_def)
  assume "in_i128 a"
  with share_bounds(2) [OF b] show "mul_ceil a s SCALAR_7 = Ok (ceil_share a s)"
    by (simp add: ceil_share_def fixed_Ok_iff in_i128_nonneg_le)
qed (simp add: ceil_share_def cdiv_def SCALAR_7_def)

interpretation lot: share_rounding mul_floor floor_share
proof unfold_locales
  fix a s :: int
  assume b: "0 \<le> a" "0 \<le> s" "s \<le> SCALAR_7"
  from share_bounds(1) [OF b] show "0 \<le> floor_share a s" "floor_share a s \<le> a"
    by (simp_all add: floor_share_def)
  assume "in_i128 a"
  with share_bounds(1) [OF b] show "mul_floor a s SCALAR_7 = Ok (floor_share a s)"
    by (simp add: floor_share_def fixed_Ok_iff in_i128_nonneg_le)
qed (simp add: floor_share_def SCALAR_7_def)

section \<open>The whole scaling\<close>

text \<open>Amounts the contract stores: never negative, always an \<open>i128\<close>.\<close>

definition amounts_ok :: "(string, int) btree \<Rightarrow> bool" where
  "amounts_ok m \<longleftrightarrow> bt_wf m \<and> (\<forall>v \<in> set (bt_values m). 0 \<le> v \<and> in_i128 v)"

definition auction_ok :: "auction_data \<Rightarrow> bool" where
  "auction_ok a \<longleftrightarrow> amounts_ok (ad_bid a) \<and> amounts_ok (ad_lot a)"

definition percent_scale :: "nat \<Rightarrow> int" where
  "percent_scale percent = int percent * 100000"

text \<open>The entry a scaled side has for an amount: absent when nothing is left of it.\<close>

definition positive :: "int \<Rightarrow> int option" where
  "positive x = (if 0 < x then Some x else None)"

lemma percent_scale_range: "percent \<le> 100 \<Longrightarrow> 0 \<le> percent_scale percent \<and> percent_scale percent \<le> SCALAR_7"
  by (simp add: percent_scale_def SCALAR_7_def)

lemma filled_eq:
  "bid.filled p m a = positive (ceil_share (ceil_share a p) m)"
  "lot.filled p m a = positive (floor_share (floor_share a p) m)"
  "bid.left_over p a = positive (a - ceil_share a p)"
  "lot.left_over p a = positive (a - floor_share a p)"
  by (simp_all add: bid.filled_def lot.filled_def bid.left_over_def lot.left_over_def positive_def Let_def)

lemma bid_loop:
  assumes "amounts_ok m" "percent \<le> 100"
  shows "\<exists>tf rm. rfold (scale_side mul_ceil (percent_scale percent) (bid_modifier d)) m ([], []) = Ok (tf, rm)
    \<and> bt_wf tf \<and> bt_wf rm
    \<and> (\<forall>k. bt_get tf k = Option.bind (bt_get m k)
          (\<lambda>a. positive (ceil_share (ceil_share a (percent_scale percent)) (bid_modifier d))))
    \<and> (\<forall>k. bt_get rm k = Option.bind (bt_get m k) (\<lambda>a. positive (a - ceil_share a (percent_scale percent))))"
  using bid.scale_loop [of "percent_scale percent" "bid_modifier d" m "[]" "[]"]
    percent_scale_range [OF assms(2)] modifier_range(1) [of d] assms(1)
  by (fastforce simp: amounts_ok_def filled_eq split: option.splits)

lemma lot_loop:
  assumes "amounts_ok m" "percent \<le> 100"
  shows "\<exists>tf rm. rfold (scale_side mul_floor (percent_scale percent) (lot_modifier d)) m ([], []) = Ok (tf, rm)
    \<and> bt_wf tf \<and> bt_wf rm
    \<and> (\<forall>k. bt_get tf k = Option.bind (bt_get m k)
          (\<lambda>a. positive (floor_share (floor_share a (percent_scale percent)) (lot_modifier d))))
    \<and> (\<forall>k. bt_get rm k = Option.bind (bt_get m k) (\<lambda>a. positive (a - floor_share a (percent_scale percent))))"
  using lot.scale_loop [of "percent_scale percent" "lot_modifier d" m "[]" "[]"]
    percent_scale_range [OF assms(2)] modifier_range(2) [of d] assms(1)
  by (fastforce simp: amounts_ok_def filled_eq split: option.splits)

text \<open>What a fill exchanges of one amount, and what it leaves, on either side.\<close>

definition bid_fill :: "nat \<Rightarrow> nat \<Rightarrow> int \<Rightarrow> int option" where
  "bid_fill percent delta a =
     positive (ceil_share (ceil_share a (percent_scale percent)) (bid_modifier delta))"

definition lot_fill :: "nat \<Rightarrow> nat \<Rightarrow> int \<Rightarrow> int option" where
  "lot_fill percent delta a =
     positive (floor_share (floor_share a (percent_scale percent)) (lot_modifier delta))"

definition bid_rest :: "nat \<Rightarrow> int \<Rightarrow> int option" where
  "bid_rest percent a = positive (a - ceil_share a (percent_scale percent))"

definition lot_rest :: "nat \<Rightarrow> int \<Rightarrow> int option" where
  "lot_rest percent a = positive (a - floor_share a (percent_scale percent))"

lemmas side_defs = bid_fill_def lot_fill_def bid_rest_def lot_rest_def

definition scaled_as :: "auction_data \<Rightarrow> nat \<Rightarrow> nat \<Rightarrow> scaled_auction \<Rightarrow> bool" where
  "scaled_as a fill_block percent s \<longleftrightarrow>
     (let delta = fill_block - ad_block a; tf = sa_to_fill s in
      ad_block tf = ad_block a \<and> bt_wf (ad_bid tf) \<and> bt_wf (ad_lot tf)
      \<and> (\<forall>k. bt_get (ad_bid tf) k = Option.bind (bt_get (ad_bid a) k) (bid_fill percent delta))
      \<and> (\<forall>k. bt_get (ad_lot tf) k = Option.bind (bt_get (ad_lot a) k) (lot_fill percent delta))
      \<and> (case sa_remaining s of
           None \<Rightarrow> (\<forall>k. Option.bind (bt_get (ad_bid a) k) (bid_rest percent) = None)
             \<and> (\<forall>k. Option.bind (bt_get (ad_lot a) k) (lot_rest percent) = None)
         | Some rm \<Rightarrow> ad_block rm = ad_block a \<and> bt_wf (ad_bid rm) \<and> bt_wf (ad_lot rm)
             \<and> \<not> auction_is_empty rm
             \<and> (\<forall>k. bt_get (ad_bid rm) k = Option.bind (bt_get (ad_bid a) k) (bid_rest percent))
             \<and> (\<forall>k. bt_get (ad_lot rm) k = Option.bind (bt_get (ad_lot a) k) (lot_rest percent))))"

lemma scale_auction_total:
  assumes "auction_ok a" "1 \<le> percent" "percent \<le> 100" "ad_block a \<le> fill_block"
  shows "\<exists>s. scale_auction a fill_block percent = Ok s \<and> scaled_as a fill_block percent s"
proof -
  let ?d = "fill_block - ad_block a"
  from assms(1) have ok: "amounts_ok (ad_bid a)" "amounts_ok (ad_lot a)" by (simp_all add: auction_ok_def)
  obtain tb rb where bid:
    "rfold (scale_side mul_ceil (percent_scale percent) (bid_modifier ?d)) (ad_bid a) ([], []) = Ok (tb, rb)"
    "bt_wf tb" "bt_wf rb"
    "\<forall>k. bt_get tb k = Option.bind (bt_get (ad_bid a) k) (bid_fill percent ?d)"
    "\<forall>k. bt_get rb k = Option.bind (bt_get (ad_bid a) k) (bid_rest percent)"
    using bid_loop [OF ok(1) assms(3)] unfolding side_defs by meson
  obtain tl rl where lot:
    "rfold (scale_side mul_floor (percent_scale percent) (lot_modifier ?d)) (ad_lot a) ([], []) = Ok (tl, rl)"
    "bt_wf tl" "bt_wf rl"
    "\<forall>k. bt_get tl k = Option.bind (bt_get (ad_lot a) k) (lot_fill percent ?d)"
    "\<forall>k. bt_get rl k = Option.bind (bt_get (ad_lot a) k) (lot_rest percent)"
    using lot_loop [OF ok(2) assms(3)] unfolding side_defs by meson
  have ps: "checked_mul (int percent) 100000 = Some (percent_scale percent)"
    using percent_scale_range [OF assms(3)] by (simp add: percent_scale_def scalar_defs i128_defs)
  have sub: "checked_sub_unsigned fill_block (ad_block a) = Some ?d" using assms(4) by simp
  have empties: "m = [] \<longleftrightarrow> (\<forall>k. bt_get m k = None)" if "bt_wf m" for m :: "(string, int) btree"
    using bt.entries_remove_Nil [OF that] .
  show ?thesis
    using assms(2,3) bid lot empties [OF bid(3)] empties [OF lot(3)]
    by (simp add: scale_auction_def sub ps scaled_as_def auction_is_empty_def Let_def)
qed

lemma scale_auction_Ok:
  assumes "scale_auction a fill_block percent = Ok s" and "auction_ok a"
  shows "1 \<le> percent \<and> percent \<le> 100 \<and> ad_block a \<le> fill_block \<and> scaled_as a fill_block percent s"
proof -
  have r: "1 \<le> percent" "percent \<le> 100" "ad_block a \<le> fill_block"
    using assms(1) by (auto simp: scale_auction_def split: if_splits)
  from scale_auction_total [OF assms(2) r] assms(1) r show ?thesis by auto
qed

lemma positive_Some [simp]: "positive x = Some y \<longleftrightarrow> 0 < x \<and> y = x"
  by (auto simp: positive_def)

lemma positive_None [simp]: "positive x = None \<longleftrightarrow> x \<le> 0"
  by (auto simp: positive_def)

lemma amounts_okD: "amounts_ok m \<Longrightarrow> bt_get m k = Some a \<Longrightarrow> 0 \<le> a \<and> in_i128 a"
  unfolding amounts_ok_def bt_values_def using bt_get_in_set by force

lemma amounts_okI:
  "bt_wf m \<Longrightarrow> (\<And>k a. bt_get m k = Some a \<Longrightarrow> 0 \<le> a \<and> in_i128 a) \<Longrightarrow> amounts_ok m"
  unfolding amounts_ok_def bt_values_def using bt_in_set_get by force

text \<open>What a fill takes of one amount is part of it.\<close>

lemma fill_part:
  assumes "0 \<le> a" "percent \<le> 100"
  shows "bid_fill percent d a = Some x \<Longrightarrow> 0 < x \<and> x \<le> a"
    and "lot_fill percent d a = Some x \<Longrightarrow> 0 < x \<and> x \<le> a"
proof -
  note p = percent_scale_range [OF assms(2)] and m = modifier_range [of d]
  have c: "0 \<le> ceil_share a (percent_scale percent)" "ceil_share a (percent_scale percent) \<le> a"
    using p assms(1) by (simp_all add: bid.share_nonneg bid.share_le)
  have f: "0 \<le> floor_share a (percent_scale percent)" "floor_share a (percent_scale percent) \<le> a"
    using p assms(1) by (simp_all add: lot.share_nonneg lot.share_le)
  show "bid_fill percent d a = Some x \<Longrightarrow> 0 < x \<and> x \<le> a"
    using bid.share_le [OF c(1), of "bid_modifier d"] m(1) c(2) by (auto simp: bid_fill_def)
  show "lot_fill percent d a = Some x \<Longrightarrow> 0 < x \<and> x \<le> a"
    using lot.share_le [OF f(1), of "lot_modifier d"] m(2) f(2) by (auto simp: lot_fill_def)
qed

lemma scaled_part:
  assumes "scaled_as a fb percent s" "auction_ok a" "percent \<le> 100"
  shows "bt_get (ad_bid (sa_to_fill s)) k = Some x \<Longrightarrow> \<exists>y. bt_get (ad_bid a) k = Some y \<and> 0 < x \<and> x \<le> y"
    and "bt_get (ad_lot (sa_to_fill s)) k = Some x \<Longrightarrow> \<exists>y. bt_get (ad_lot a) k = Some y \<and> 0 < x \<and> x \<le> y"
proof -
  have ok: "amounts_ok (ad_bid a)" "amounts_ok (ad_lot a)" using assms(2) by (simp_all add: auction_ok_def)
  show "\<exists>y. bt_get (ad_bid a) k = Some y \<and> 0 < x \<and> x \<le> y"
    if "bt_get (ad_bid (sa_to_fill s)) k = Some x"
  proof -
    from that obtain y where y: "bt_get (ad_bid a) k = Some y" "bid_fill percent (fb - ad_block a) y = Some x"
      using assms(1) by (auto simp: scaled_as_def Let_def bind_eq_Some_conv)
    with fill_part(1) [OF _ assms(3) y(2)] amounts_okD [OF ok(1) y(1)] show ?thesis by blast
  qed
  show "\<exists>y. bt_get (ad_lot a) k = Some y \<and> 0 < x \<and> x \<le> y"
    if "bt_get (ad_lot (sa_to_fill s)) k = Some x"
  proof -
    from that obtain y where y: "bt_get (ad_lot a) k = Some y" "lot_fill percent (fb - ad_block a) y = Some x"
      using assms(1) by (auto simp: scaled_as_def Let_def bind_eq_Some_conv)
    with fill_part(2) [OF _ assms(3) y(2)] amounts_okD [OF ok(2) y(1)] show ?thesis by blast
  qed
qed

lemma scaled_to_fill_ok:
  assumes "scaled_as a fb percent s" "auction_ok a" "percent \<le> 100"
  shows "auction_ok (sa_to_fill s)"
proof -
  have wf: "bt_wf (ad_bid (sa_to_fill s))" "bt_wf (ad_lot (sa_to_fill s))"
    using assms(1) by (simp_all add: scaled_as_def Let_def)
  have ok: "amounts_ok (ad_bid a)" "amounts_ok (ad_lot a)" using assms(2) by (simp_all add: auction_ok_def)
  have "amounts_ok (ad_bid (sa_to_fill s))" "amounts_ok (ad_lot (sa_to_fill s))"
    using wf scaled_part [OF assms] amounts_okD [OF ok(1)] amounts_okD [OF ok(2)]
    by (meson amounts_okI in_i128_nonneg_le less_imp_le)+
  then show ?thesis by (simp add: auction_ok_def)
qed

section \<open>Properties\<close>

text \<open>
  C7. The ramps have the shape the contract's have, for every block delta: both modifiers
  stay between nothing and one whole, the lot's never falls and the bid's never rises, at
  most one of them is off its end at any block, the lot is whole exactly from block 200
  on, and the bid is gone exactly from block 400 on.
\<close>

theorem ramps_shape:
  "0 \<le> bid_modifier d \<and> bid_modifier d \<le> SCALAR_7 \<and> 0 \<le> lot_modifier d \<and> lot_modifier d \<le> SCALAR_7
   \<and> (bid_modifier d = SCALAR_7 \<or> lot_modifier d = SCALAR_7)
   \<and> bid_modifier (d + n) \<le> bid_modifier d \<and> lot_modifier d \<le> lot_modifier (d + n)
   \<and> (lot_modifier d = SCALAR_7 \<longleftrightarrow> 200 \<le> d) \<and> (bid_modifier d = 0 \<longleftrightarrow> 400 \<le> d)"
  using modifier_range [of d] bid_modifier_antimono [of d "d + n"] lot_modifier_mono [of d "d + n"]
    bid_modifier_zero_iff [of d] lot_modifier_full_iff [of d]
  by (auto simp: RAMP_BLOCKS_def RAMP_END_BLOCKS_def) (simp add: bid_modifier_def RAMP_BLOCKS_def)

text \<open>
  C8. Scaling is total and exact on what the contract stores: it succeeds exactly for a
  percent of 1 to 100 at a block not before the auction's, the exchanged and remaining
  entries are the contract's two-step shares, an asset appears only with a positive
  amount and never with more than the auction holds, and every amount splits into the part
  the fill accounts for and the part left behind.
\<close>

theorem scale_auction_exact:
  assumes "auction_ok a"
  shows "((\<exists>s. scale_auction a fill_block percent = Ok s)
      \<longleftrightarrow> 1 \<le> percent \<and> percent \<le> 100 \<and> ad_block a \<le> fill_block)
    \<and> (\<forall>s. scale_auction a fill_block percent = Ok s \<longrightarrow>
      scaled_as a fill_block percent s \<and> auction_ok (sa_to_fill s)
      \<and> (\<forall>k x. bt_get (ad_bid (sa_to_fill s)) k = Some x \<longrightarrow> (\<exists>y. bt_get (ad_bid a) k = Some y \<and> 0 < x \<and> x \<le> y))
      \<and> (\<forall>k x. bt_get (ad_lot (sa_to_fill s)) k = Some x \<longrightarrow> (\<exists>y. bt_get (ad_lot a) k = Some y \<and> 0 < x \<and> x \<le> y)))"
proof -
  have "(\<exists>s. scale_auction a fill_block percent = Ok s)
      \<longleftrightarrow> 1 \<le> percent \<and> percent \<le> 100 \<and> ad_block a \<le> fill_block"
    using scale_auction_total [OF assms] scale_auction_Ok [OF _ assms] by blast
  moreover have "scaled_as a fill_block percent s \<and> auction_ok (sa_to_fill s)
      \<and> (\<forall>k x. bt_get (ad_bid (sa_to_fill s)) k = Some x \<longrightarrow> (\<exists>y. bt_get (ad_bid a) k = Some y \<and> 0 < x \<and> x \<le> y))
      \<and> (\<forall>k x. bt_get (ad_lot (sa_to_fill s)) k = Some x \<longrightarrow> (\<exists>y. bt_get (ad_lot a) k = Some y \<and> 0 < x \<and> x \<le> y))"
    if "scale_auction a fill_block percent = Ok s" for s
  proof -
    have ok: "percent \<le> 100" "scaled_as a fill_block percent s"
      using scale_auction_Ok [OF that assms] by auto
    from scaled_part [OF ok(2) assms ok(1)] scaled_to_fill_ok [OF ok(2) assms ok(1)] ok(2)
    show ?thesis by blast
  qed
  ultimately show ?thesis by blast
qed

definition sample_auction :: auction_data where
  "sample_auction = \<lparr>ad_bid = [(''USDC'', 1001)], ad_lot = [(''BTC'', 7), (''XLM'', 2003)], ad_block = 1000\<rparr>"

lemma sample_auction_ok: "auction_ok sample_auction"
  by (simp add: sample_auction_def auction_ok_def amounts_ok_def i128_defs)

theorem scale_auction_exact_witness:
  "scale_auction sample_auction 1100 50 = Ok
     \<lparr>sa_to_fill = \<lparr>ad_bid = [(''USDC'', 501)], ad_lot = [(''BTC'', 1), (''XLM'', 500)], ad_block = 1000\<rparr>,
      sa_remaining = Some \<lparr>ad_bid = [(''USDC'', 500)], ad_lot = [(''BTC'', 4), (''XLM'', 1002)], ad_block = 1000\<rparr>\<rparr>
   \<and> auction_ok \<lparr>ad_bid = [(''USDC'', 501)], ad_lot = [(''BTC'', 1), (''XLM'', 500)], ad_block = 1000\<rparr>"
proof -
  have ev: "scale_auction sample_auction 1100 50 = Ok
     \<lparr>sa_to_fill = \<lparr>ad_bid = [(''USDC'', 501)], ad_lot = [(''BTC'', 1), (''XLM'', 500)], ad_block = 1000\<rparr>,
      sa_remaining = Some \<lparr>ad_bid = [(''USDC'', 500)], ad_lot = [(''BTC'', 4), (''XLM'', 1002)], ad_block = 1000\<rparr>\<rparr>"
    by (simp add: sample_auction_def eval_simps Let_def less_char_def)
  from scale_auction_exact [OF sample_auction_ok, of 1100 50] ev show ?thesis by simp
qed

text \<open>
  A fill of 100 percent always closes the auction, and from 400 blocks on it is free:
  the bid is absent, and every asset of the lot is handed over whole.
\<close>

lemma full_fill_closes_and_free_fill_is_free:
  assumes "auction_ok a" and "scale_auction a fill_block 100 = Ok s"
  shows "sa_remaining s = None
    \<and> (ad_block a + RAMP_END_BLOCKS \<le> fill_block \<longrightarrow> ad_bid (sa_to_fill s) = []
        \<and> (\<forall>k. bt_get (ad_lot (sa_to_fill s)) k = Option.bind (bt_get (ad_lot a) k) positive))"
proof -
  note ok = scale_auction_Ok [OF assms(2,1)]
  have whole: "percent_scale 100 = SCALAR_7" by (simp add: percent_scale_def SCALAR_7_def)
  have rest: "bid_rest 100 x = None" "lot_rest 100 x = None" for x
    by (simp_all add: bid_rest_def lot_rest_def whole bid.share_whole lot.share_whole)
  have "sa_remaining s = None"
  proof (rule ccontr)
    assume "sa_remaining s \<noteq> None"
    then obtain rm where "sa_remaining s = Some rm" by blast
    with ok have "\<not> auction_is_empty rm" "bt_wf (ad_bid rm)" "bt_wf (ad_lot rm)"
      "\<forall>k. bt_get (ad_bid rm) k = None" "\<forall>k. bt_get (ad_lot rm) k = None"
      by (auto simp: scaled_as_def Let_def rest split: Option.bind_splits)
    then show False using bt.entries_remove_Nil by (auto simp: auction_is_empty_def)
  qed
  moreover have "ad_bid (sa_to_fill s) = [] \<and>
      (\<forall>k. bt_get (ad_lot (sa_to_fill s)) k = Option.bind (bt_get (ad_lot a) k) positive)"
    if late: "ad_block a + RAMP_END_BLOCKS \<le> fill_block"
  proof -
    let ?d = "fill_block - ad_block a"
    have m: "bid_modifier ?d = 0" "lot_modifier ?d = SCALAR_7"
      using late by (simp_all add: bid_modifier_zero_iff lot_modifier_full_iff RAMP_END_BLOCKS_def RAMP_BLOCKS_def)
    have "bid_fill 100 ?d x = None" "lot_fill 100 ?d x = positive x" for x
      by (simp_all add: bid_fill_def lot_fill_def m whole lot.share_whole ceil_share_def cdiv_def)
    then have "lot_fill 100 ?d = positive" "bid_fill 100 ?d = (\<lambda>x. None)" by (simp_all add: fun_eq_iff)
    with ok bt.entries_remove_Nil [of "ad_bid (sa_to_fill s)"] show ?thesis
      by (auto simp: scaled_as_def Let_def split: Option.bind_splits)
  qed
  ultimately show ?thesis by blast
qed

end
