(* ===== verification/Xdr_Decode.thy ===== *)
theory Xdr_Decode
  imports Sc_Val Auction
begin

text \<open>
  \<open>src/chain/xdr/keys.rs\<close> and \<open>src/chain/xdr/decode.rs\<close>: the ledger keys of a pool's storage and
  the decoders of its entries. A ledger entry is its contract value, an account with its
  sequence number, or something else.
\<close>

unbundle bit_operations_syntax

section \<open>Definitions\<close>

subsection \<open>Keys\<close>

datatype durability = Persistent | Temporary

text \<open>The key under which the contract's instance is kept is a constant of its own, \<open>None\<close>.\<close>

datatype ledger_key =
    ContractDataKey string "scval option" durability
  | AccountKey string

definition contract_data :: "xdr_lib \<Rightarrow> string \<Rightarrow> scval option \<Rightarrow> durability \<Rightarrow> ledger_key xdr_result" where
  "contract_data lib pool key durability =
     rbind (sc_address lib pool) (\<lambda>contract. Ok (ContractDataKey contract key durability))"

definition key_instance :: "xdr_lib \<Rightarrow> string \<Rightarrow> ledger_key xdr_result" where
  "key_instance lib pool = contract_data lib pool None Persistent"

definition key_reserve_list :: "xdr_lib \<Rightarrow> string \<Rightarrow> ledger_key xdr_result" where
  "key_reserve_list lib pool = rbind (symbol ''ResList'') (\<lambda>key. contract_data lib pool (Some key) Persistent)"

definition key_reserve_config :: "xdr_lib \<Rightarrow> string \<Rightarrow> string \<Rightarrow> ledger_key xdr_result" where
  "key_reserve_config lib pool asset =
     rbind (symbol ''ResConfig'') (\<lambda>s. rbind (address lib asset) (\<lambda>a. rbind (sc_vec [s, a]) (\<lambda>key.
     contract_data lib pool (Some key) Persistent)))"

definition key_reserve_data :: "xdr_lib \<Rightarrow> string \<Rightarrow> string \<Rightarrow> ledger_key xdr_result" where
  "key_reserve_data lib pool asset =
     rbind (symbol ''ResData'') (\<lambda>s. rbind (address lib asset) (\<lambda>a. rbind (sc_vec [s, a]) (\<lambda>key.
     contract_data lib pool (Some key) Persistent)))"

definition key_positions :: "xdr_lib \<Rightarrow> string \<Rightarrow> string \<Rightarrow> ledger_key xdr_result" where
  "key_positions lib pool user =
     rbind (symbol ''Positions'') (\<lambda>s. rbind (address lib user) (\<lambda>a. rbind (sc_vec [s, a]) (\<lambda>key.
     contract_data lib pool (Some key) Persistent)))"

definition key_auction :: "xdr_lib \<Rightarrow> string \<Rightarrow> string \<Rightarrow> auction_type \<Rightarrow> ledger_key xdr_result" where
  "key_auction lib pool user auction_type =
     rbind (symbol ''auct_type'') (\<lambda>k1.
     rbind (symbol ''user'') (\<lambda>k2.
     rbind (address lib user) (\<lambda>a.
     rbind (sc_map lib [(k1, ScU32 (auction_type_code auction_type)), (k2, a)]) (\<lambda>auction_key.
     rbind (symbol ''Auction'') (\<lambda>s.
     rbind (sc_vec [s, auction_key]) (\<lambda>key.
     contract_data lib pool (Some key) Temporary))))))"

subsection \<open>The decoded types\<close>

datatype pool_status = AdminActive | Active | AdminOnIce | OnIce | AdminFrozen | Frozen | Setup

fun pool_status_code :: "pool_status \<Rightarrow> nat" where
  "pool_status_code AdminActive = 0"
| "pool_status_code Active = 1"
| "pool_status_code AdminOnIce = 2"
| "pool_status_code OnIce = 3"
| "pool_status_code AdminFrozen = 4"
| "pool_status_code Frozen = 5"
| "pool_status_code Setup = 6"

definition pool_status_try_from :: "nat \<Rightarrow> pool_status xdr_result" where
  "pool_status_try_from v =
     (if v = 0 then Ok AdminActive
      else if v = 1 then Ok Active
      else if v = 2 then Ok AdminOnIce
      else if v = 3 then Ok OnIce
      else if v = 4 then Ok AdminFrozen
      else if v = 5 then Ok Frozen
      else if v = 6 then Ok Setup
      else Err (XdrShape ''pool status 0..=6''))"

record pool_config =
  po_oracle :: string
  po_bstop_rate :: nat
  po_status :: pool_status
  po_max_positions :: nat
  po_min_collateral :: int

record pool_instance =
  pi_admin :: string
  pi_backstop :: string
  pi_blnd_token :: string
  pi_name :: string
  pi_config :: pool_config

record price_data =
  pd_price :: int
  pd_timestamp :: nat

datatype ledger_entry_data = ContractData scval | AccountEntry int | OtherEntry string

subsection \<open>Fields\<close>

definition contract_value :: "ledger_entry_data \<Rightarrow> scval xdr_result" where
  "contract_value entry = (case entry of ContractData val \<Rightarrow> Ok val | _ \<Rightarrow> Err (XdrShape ''contract data''))"

text \<open>\<open>(i128::from(parts.hi) << 64) | i128::from(parts.lo)\<close>.\<close>

definition as_i128_parts :: "64 word \<Rightarrow> 64 word \<Rightarrow> int" where
  "as_i128_parts hi lo = push_bit 64 (sint hi) OR uint lo"

fun symbol_entry :: "scval \<times> scval \<Rightarrow> (string \<times> scval) xdr_result" where
  "symbol_entry (ScSymbol name, val) = Ok (name, val)"
| "symbol_entry _ = Err (XdrShape ''symbol key'')"

definition struct_fields :: "scval \<Rightarrow> (string, scval) btree xdr_result" where
  "struct_fields value =
     (case value of
        ScMap (Some entries) \<Rightarrow> rbind (rmap_list symbol_entry entries) (\<lambda>pairs. Ok (bt_collect pairs))
      | _ \<Rightarrow> Err (XdrShape ''struct map''))"

definition field :: "(string, scval) btree \<Rightarrow> string \<Rightarrow> scval xdr_result" where
  "field flds name = ok_or (XdrMissingField name) (bt_get flds name)"

definition u32_field :: "(string, scval) btree \<Rightarrow> string \<Rightarrow> nat xdr_result" where
  "u32_field flds name =
     rbind (field flds name) (\<lambda>v. case v of ScU32 n \<Rightarrow> Ok n | _ \<Rightarrow> Err (XdrShape ''u32''))"

definition u64_field :: "(string, scval) btree \<Rightarrow> string \<Rightarrow> nat xdr_result" where
  "u64_field flds name =
     rbind (field flds name) (\<lambda>v. case v of ScU64 n \<Rightarrow> Ok n | _ \<Rightarrow> Err (XdrShape ''u64''))"

definition i128_field :: "(string, scval) btree \<Rightarrow> string \<Rightarrow> int xdr_result" where
  "i128_field flds name =
     rbind (field flds name) (\<lambda>v. case v of ScI128 hi lo \<Rightarrow> Ok (as_i128_parts hi lo) | _ \<Rightarrow> Err (XdrShape ''i128''))"

definition bool_field :: "(string, scval) btree \<Rightarrow> string \<Rightarrow> bool xdr_result" where
  "bool_field flds name =
     rbind (field flds name) (\<lambda>v. case v of ScBool b \<Rightarrow> Ok b | _ \<Rightarrow> Err (XdrShape ''bool''))"

definition address_field :: "(string, scval) btree \<Rightarrow> string \<Rightarrow> string xdr_result" where
  "address_field flds name =
     rbind (field flds name) (\<lambda>v. case v of ScAddress a \<Rightarrow> Ok a | _ \<Rightarrow> Err (XdrShape ''address''))"

fun index_entry :: "scval \<times> scval \<Rightarrow> (nat \<times> int) xdr_result" where
  "index_entry (ScU32 index, ScI128 hi lo) = Ok (index, as_i128_parts hi lo)"
| "index_entry _ = Err (XdrShape ''u32 to i128 entry'')"

definition index_map :: "scval \<Rightarrow> (nat, int) btree xdr_result" where
  "index_map value =
     (case value of
        ScMap (Some entries) \<Rightarrow> rbind (rmap_list index_entry entries) (\<lambda>pairs. Ok (bt_collect pairs))
      | _ \<Rightarrow> Err (XdrShape ''index map''))"

fun address_entry :: "scval \<times> scval \<Rightarrow> (string \<times> int) xdr_result" where
  "address_entry (ScAddress asset, ScI128 hi lo) = Ok (asset, as_i128_parts hi lo)"
| "address_entry _ = Err (XdrShape ''address to i128 entry'')"

definition address_map :: "scval \<Rightarrow> (string, int) btree xdr_result" where
  "address_map value =
     (case value of
        ScMap (Some entries) \<Rightarrow> rbind (rmap_list address_entry entries) (\<lambda>pairs. Ok (bt_collect pairs))
      | _ \<Rightarrow> Err (XdrShape ''address map''))"

subsection \<open>Entries\<close>

definition decode_pool_instance :: "ledger_entry_data \<Rightarrow> pool_instance xdr_result" where
  "decode_pool_instance entry =
     rbind (contract_value entry) (\<lambda>val.
     case val of
       ScContractInstance entries \<Rightarrow>
         let storage = bt_collect (List.map_filter
               (\<lambda>(k, v). case k of ScSymbol name \<Rightarrow> Some (name, v) | _ \<Rightarrow> None)
               (case entries of None \<Rightarrow> [] | Some es \<Rightarrow> es)) in
         rbind (field storage ''Config'') (\<lambda>config.
         rbind (struct_fields config) (\<lambda>config_fields.
         rbind (field storage ''Name'') (\<lambda>name.
         rbind (case name of ScString text \<Rightarrow> Ok text | _ \<Rightarrow> Err (XdrShape ''string'')) (\<lambda>name.
         rbind (address_field storage ''Admin'') (\<lambda>admin.
         rbind (address_field storage ''Backstop'') (\<lambda>backstop.
         rbind (address_field storage ''BLNDTkn'') (\<lambda>blnd_token.
         rbind (address_field config_fields ''oracle'') (\<lambda>oracle.
         rbind (u32_field config_fields ''bstop_rate'') (\<lambda>bstop_rate.
         rbind (u32_field config_fields ''status'') (\<lambda>code.
         rbind (pool_status_try_from code) (\<lambda>status.
         rbind (u32_field config_fields ''max_positions'') (\<lambda>max_positions.
         rbind (i128_field config_fields ''min_collateral'') (\<lambda>min_collateral.
         Ok \<lparr>pi_admin = admin, pi_backstop = backstop, pi_blnd_token = blnd_token, pi_name = name,
             pi_config = \<lparr>po_oracle = oracle, po_bstop_rate = bstop_rate, po_status = status,
               po_max_positions = max_positions, po_min_collateral = min_collateral\<rparr>\<rparr>)))))))))))))
     | _ \<Rightarrow> Err (XdrShape ''contract instance''))"

definition address_item :: "scval \<Rightarrow> string xdr_result" where
  "address_item item = (case item of ScAddress a \<Rightarrow> Ok a | _ \<Rightarrow> Err (XdrShape ''address''))"

definition decode_reserve_list :: "ledger_entry_data \<Rightarrow> string list xdr_result" where
  "decode_reserve_list entry =
     rbind (contract_value entry) (\<lambda>val.
     case val of
       ScVec (Some items) \<Rightarrow> rmap_list address_item items
     | _ \<Rightarrow> Err (XdrShape ''vector of addresses''))"

definition reserve_config_value :: "scval \<Rightarrow> reserve_config xdr_result" where
  "reserve_config_value value =
     rbind (struct_fields value) (\<lambda>flds.
     rbind (u32_field flds ''index'') (\<lambda>index.
     rbind (u32_field flds ''decimals'') (\<lambda>decimals.
     rbind (u32_field flds ''c_factor'') (\<lambda>c_factor.
     rbind (u32_field flds ''l_factor'') (\<lambda>l_factor.
     rbind (u32_field flds ''util'') (\<lambda>util.
     rbind (u32_field flds ''max_util'') (\<lambda>max_util.
     rbind (u32_field flds ''r_base'') (\<lambda>r_base.
     rbind (u32_field flds ''r_one'') (\<lambda>r_one.
     rbind (u32_field flds ''r_two'') (\<lambda>r_two.
     rbind (u32_field flds ''r_three'') (\<lambda>r_three.
     rbind (u32_field flds ''reactivity'') (\<lambda>reactivity.
     rbind (i128_field flds ''supply_cap'') (\<lambda>supply_cap.
     rbind (bool_field flds ''enabled'') (\<lambda>enabled.
     Ok \<lparr>rc_index = index, rc_decimals = decimals, rc_c_factor = c_factor, rc_l_factor = l_factor,
         rc_util = util, rc_max_util = max_util, rc_r_base = r_base, rc_r_one = r_one, rc_r_two = r_two,
         rc_r_three = r_three, rc_reactivity = reactivity, rc_supply_cap = supply_cap,
         rc_enabled = enabled\<rparr>))))))))))))))"

definition reserve_data_value :: "scval \<Rightarrow> reserve_data xdr_result" where
  "reserve_data_value value =
     rbind (struct_fields value) (\<lambda>flds.
     rbind (i128_field flds ''d_rate'') (\<lambda>d_rate.
     rbind (i128_field flds ''b_rate'') (\<lambda>b_rate.
     rbind (i128_field flds ''ir_mod'') (\<lambda>ir_mod.
     rbind (i128_field flds ''b_supply'') (\<lambda>b_supply.
     rbind (i128_field flds ''d_supply'') (\<lambda>d_supply.
     rbind (i128_field flds ''backstop_credit'') (\<lambda>backstop_credit.
     rbind (u64_field flds ''last_time'') (\<lambda>last_time.
     Ok \<lparr>rd_d_rate = d_rate, rd_b_rate = b_rate, rd_ir_mod = ir_mod, rd_b_supply = b_supply,
         rd_d_supply = d_supply, rd_backstop_credit = backstop_credit, rd_last_time = last_time\<rparr>))))))))"

definition reserve_value :: "scval \<Rightarrow> reserve xdr_result" where
  "reserve_value value =
     rbind (struct_fields value) (\<lambda>flds.
     rbind (address_field flds ''asset'') (\<lambda>asset.
     rbind (rbind (field flds ''config'') reserve_config_value) (\<lambda>config.
     rbind (rbind (field flds ''data'') reserve_data_value) (\<lambda>data.
     rbind (i128_field flds ''scalar'') (\<lambda>scalar.
     Ok \<lparr>rs_asset = asset, rs_config = config, rs_data = data, rs_scalar = scalar\<rparr>)))))"

definition positions_value :: "scval \<Rightarrow> positions xdr_result" where
  "positions_value value =
     rbind (struct_fields value) (\<lambda>flds.
     rbind (rbind (field flds ''collateral'') index_map) (\<lambda>collateral.
     rbind (rbind (field flds ''liabilities'') index_map) (\<lambda>liabilities.
     rbind (rbind (field flds ''supply'') index_map) (\<lambda>supply.
     Ok \<lparr>ps_collateral = collateral, ps_liabilities = liabilities, ps_supply = supply\<rparr>))))"

definition auction_value :: "scval \<Rightarrow> auction_data xdr_result" where
  "auction_value value =
     rbind (struct_fields value) (\<lambda>flds.
     rbind (rbind (field flds ''bid'') address_map) (\<lambda>bid.
     rbind (rbind (field flds ''lot'') address_map) (\<lambda>lot.
     rbind (u32_field flds ''block'') (\<lambda>block.
     Ok \<lparr>ad_bid = bid, ad_lot = lot, ad_block = block\<rparr>))))"

definition decode_reserve_config :: "ledger_entry_data \<Rightarrow> reserve_config xdr_result" where
  "decode_reserve_config entry = rbind (contract_value entry) reserve_config_value"

definition decode_reserve_data :: "ledger_entry_data \<Rightarrow> reserve_data xdr_result" where
  "decode_reserve_data entry = rbind (contract_value entry) reserve_data_value"

definition decode_positions :: "ledger_entry_data \<Rightarrow> positions xdr_result" where
  "decode_positions entry = rbind (contract_value entry) positions_value"

definition decode_auction :: "ledger_entry_data \<Rightarrow> auction_data xdr_result" where
  "decode_auction entry = rbind (contract_value entry) auction_value"

definition decode_price_data :: "scval \<Rightarrow> price_data option xdr_result" where
  "decode_price_data value =
     (if value = ScVoid then Ok None
      else
        rbind (struct_fields value) (\<lambda>flds.
        rbind (i128_field flds ''price'') (\<lambda>price.
        rbind (u64_field flds ''timestamp'') (\<lambda>timestamp.
        Ok (Some \<lparr>pd_price = price, pd_timestamp = timestamp\<rparr>)))))"

definition decode_decimals :: "scval \<Rightarrow> nat xdr_result" where
  "decode_decimals value = (case value of ScU32 n \<Rightarrow> Ok n | _ \<Rightarrow> Err (XdrShape ''u32''))"

section \<open>Lemmas\<close>

subsection \<open>The two halves of an \<open>i128\<close>\<close>

lemma halves_join: "push_bit 64 (drop_bit 64 v) OR take_bit 64 v = (v :: int)"
  by (rule bit_eqI) (auto simp: bit_simps)

lemma as_i128_parts_val:
  assumes "in_i128 v"
  shows "as_i128_parts (word_of_int (drop_bit 64 v)) (word_of_int v) = v"
proof -
  have "- (2 ^ 63) \<le> v div 2 ^ 64 \<and> v div 2 ^ 64 < 2 ^ 63"
    using assms by (auto simp: i128_defs)
  then have "signed_take_bit 63 (drop_bit 64 v) = drop_bit 64 v"
    by (simp add: signed_take_bit_int_eq_self_iff drop_bit_eq_div)
  then show ?thesis
    by (simp add: as_i128_parts_def sint_sbintrunc' signed_take_bit_take_bit unsigned_of_int halves_join)
qed

lemma i128_val_parts: "i128_val (as_i128_parts hi lo) = ScI128 hi lo"
proof -
  have "drop_bit 64 (push_bit 64 (sint hi) OR uint lo) = sint hi"
    by (rule bit_eqI) (auto simp: bit_simps bit_uint_iff dest: bit_imp_le_length)
  moreover have "(word_of_int (push_bit 64 (sint hi) OR uint lo) :: 64 word) = lo"
    by (rule bit_word_eqI) (auto simp: bit_simps bit_uint_iff)
  ultimately show ?thesis by (simp add: i128_val_def as_i128_parts_def)
qed

end
