(* ===== verification/Pool_Events.thy ===== *)
theory Pool_Events
  imports Xdr_Decode
begin

text \<open>
  \<open>src/chain/xdr/events.rs\<close>: the pool events the bot acts on, how they are decoded from a
  contract event's topics and data, and the accounts each of them names.
\<close>

unbundle bit_operations_syntax

section \<open>Definitions\<close>

datatype pool_event =
    Supply string string int int
  | Withdraw string string int int
  | SupplyCollateral string string int int
  | WithdrawCollateral string string int int
  | Borrow string string int int
  | Repay string string int int
  | FlashLoan string string string int int
  | NewAuction auction_type string nat auction_data
  | FillAuction auction_type string string int auction_data
  | DeleteAuction auction_type string
  | BadDebt string string int
  | DefaultedDebt string int
  | DebtSetoff string int int
  | CollateralOrphaned string string int
  | OrphanSettled string int
  | SetReserve string nat
  | SetStatus pool_status

fun affected_accounts :: "pool_event \<Rightarrow> string list" where
  "affected_accounts (Supply asset from amount b_tokens) = [from]"
| "affected_accounts (Withdraw asset from amount b_tokens) = [from]"
| "affected_accounts (SupplyCollateral asset from amount b_tokens) = [from]"
| "affected_accounts (WithdrawCollateral asset from amount b_tokens) = [from]"
| "affected_accounts (Borrow asset from amount d_tokens) = [from]"
| "affected_accounts (Repay asset from amount d_tokens) = [from]"
| "affected_accounts (FlashLoan asset from contract amount d_tokens) = [from]"
| "affected_accounts (NewAuction auction_type user percent auction) = [user]"
| "affected_accounts (DeleteAuction auction_type user) = [user]"
| "affected_accounts (CollateralOrphaned user asset b_tokens) = [user]"
| "affected_accounts (BadDebt user asset d_tokens) = [user]"
| "affected_accounts (FillAuction auction_type user filler fill_percent filled) = [user, filler]"
| "affected_accounts (DefaultedDebt asset d_tokens) = []"
| "affected_accounts (DebtSetoff asset b_tokens_burned d_tokens_repaid) = []"
| "affected_accounts (OrphanSettled asset b_tokens) = []"
| "affected_accounts (SetReserve asset index) = []"
| "affected_accounts (SetStatus status) = []"

definition as_address :: "scval \<Rightarrow> string xdr_result" where
  "as_address value = (case value of ScAddress a \<Rightarrow> Ok a | _ \<Rightarrow> Err (XdrShape ''address''))"

definition as_u32 :: "scval \<Rightarrow> nat xdr_result" where
  "as_u32 value = (case value of ScU32 n \<Rightarrow> Ok n | _ \<Rightarrow> Err (XdrShape ''u32''))"

definition as_i128 :: "scval \<Rightarrow> int xdr_result" where
  "as_i128 value =
     (case value of ScI128 hi lo \<Rightarrow> Ok (push_bit 64 (sint hi) OR uint lo) | _ \<Rightarrow> Err (XdrShape ''i128''))"

definition event_data :: "scval \<Rightarrow> nat \<Rightarrow> scval list xdr_result" where
  "event_data value expected =
     (case value of
        ScVec (Some items) \<Rightarrow> if length items = expected then Ok items else Err (XdrShape ''event data vector'')
      | _ \<Rightarrow> Err (XdrShape ''event data vector''))"

definition topic :: "scval list \<Rightarrow> nat \<Rightarrow> scval xdr_result" where
  "topic topics index = (if index < length topics then Ok (topics ! index) else Err (XdrShape ''another topic''))"

definition require_topics :: "scval list \<Rightarrow> nat \<Rightarrow> string \<Rightarrow> unit xdr_result" where
  "require_topics topics expected message =
     (if length topics = expected then Ok () else Err (XdrShape message))"

definition topic_address :: "scval list \<Rightarrow> nat \<Rightarrow> string xdr_result" where
  "topic_address topics index = rbind (topic topics index) as_address"

definition topic_auction_type :: "scval list \<Rightarrow> nat \<Rightarrow> auction_type xdr_result" where
  "topic_auction_type topics index = rbind (rbind (topic topics index) as_u32) auction_type_try_from"

definition two_sided :: "scval list \<Rightarrow> scval \<Rightarrow> string \<Rightarrow> (string \<times> string \<times> int \<times> int) xdr_result" where
  "two_sided topics value message =
     rbind (require_topics topics 3 message) (\<lambda>_.
     rbind (topic_address topics 1) (\<lambda>asset.
     rbind (topic_address topics 2) (\<lambda>from.
     rbind (event_data value 2) (\<lambda>items.
     rbind (as_i128 (items ! 0)) (\<lambda>amount.
     rbind (as_i128 (items ! 1)) (\<lambda>tokens.
     Ok (asset, from, amount, tokens)))))))"

definition decode_position_event :: "string \<Rightarrow> scval list \<Rightarrow> scval \<Rightarrow> pool_event option xdr_result" where
  "decode_position_event name topics value =
     (if name = ''supply'' then
        rbind (two_sided topics value ''supply with 3 topics'') (\<lambda>(asset, from, amount, b_tokens).
        Ok (Some (Supply asset from amount b_tokens)))
      else if name = ''withdraw'' then
        rbind (two_sided topics value ''withdraw with 3 topics'') (\<lambda>(asset, from, amount, b_tokens).
        Ok (Some (Withdraw asset from amount b_tokens)))
      else if name = ''supply_collateral'' then
        rbind (two_sided topics value ''supply_collateral with 3 topics'') (\<lambda>(asset, from, amount, b_tokens).
        Ok (Some (SupplyCollateral asset from amount b_tokens)))
      else if name = ''withdraw_collateral'' then
        rbind (two_sided topics value ''withdraw_collateral with 3 topics'') (\<lambda>(asset, from, amount, b_tokens).
        Ok (Some (WithdrawCollateral asset from amount b_tokens)))
      else if name = ''borrow'' then
        rbind (two_sided topics value ''borrow with 3 topics'') (\<lambda>(asset, from, amount, d_tokens).
        Ok (Some (Borrow asset from amount d_tokens)))
      else if name = ''repay'' then
        rbind (two_sided topics value ''repay with 3 topics'') (\<lambda>(asset, from, amount, d_tokens).
        Ok (Some (Repay asset from amount d_tokens)))
      else if name = ''flash_loan'' then
        rbind (require_topics topics 4 ''flash_loan with 4 topics'') (\<lambda>_.
        rbind (event_data value 2) (\<lambda>items.
        rbind (topic_address topics 1) (\<lambda>asset.
        rbind (topic_address topics 2) (\<lambda>from.
        rbind (topic_address topics 3) (\<lambda>contract.
        rbind (as_i128 (items ! 0)) (\<lambda>amount.
        rbind (as_i128 (items ! 1)) (\<lambda>d_tokens.
        Ok (Some (FlashLoan asset from contract amount d_tokens)))))))))
      else Ok None)"

definition decode_auction_event :: "string \<Rightarrow> scval list \<Rightarrow> scval \<Rightarrow> pool_event option xdr_result" where
  "decode_auction_event name topics value =
     (if name = ''new_auction'' then
        rbind (require_topics topics 3 ''new_auction with 3 topics'') (\<lambda>_.
        rbind (event_data value 2) (\<lambda>items.
        rbind (topic_auction_type topics 1) (\<lambda>auction_type.
        rbind (topic_address topics 2) (\<lambda>user.
        rbind (as_u32 (items ! 0)) (\<lambda>percent.
        rbind (auction_value (items ! 1)) (\<lambda>auction.
        Ok (Some (NewAuction auction_type user percent auction))))))))
      else if name = ''fill_auction'' then
        rbind (require_topics topics 3 ''fill_auction with 3 topics'') (\<lambda>_.
        rbind (event_data value 3) (\<lambda>items.
        rbind (topic_auction_type topics 1) (\<lambda>auction_type.
        rbind (topic_address topics 2) (\<lambda>user.
        rbind (as_address (items ! 0)) (\<lambda>filler.
        rbind (as_i128 (items ! 1)) (\<lambda>fill_percent.
        rbind (auction_value (items ! 2)) (\<lambda>filled.
        Ok (Some (FillAuction auction_type user filler fill_percent filled)))))))))
      else if name = ''delete_auction'' then
        rbind (require_topics topics 3 ''delete_auction with 3 topics'') (\<lambda>_.
        if value \<noteq> ScVoid then Err (XdrShape ''delete_auction with void data'')
        else
          rbind (topic_auction_type topics 1) (\<lambda>auction_type.
          rbind (topic_address topics 2) (\<lambda>user.
          Ok (Some (DeleteAuction auction_type user)))))
      else Ok None)"

definition decode_admin_event :: "string \<Rightarrow> scval list \<Rightarrow> scval \<Rightarrow> pool_event option xdr_result" where
  "decode_admin_event name topics value =
     (if name = ''bad_debt'' then
        rbind (require_topics topics 3 ''bad_debt with 3 topics'') (\<lambda>_.
        rbind (topic_address topics 1) (\<lambda>user.
        rbind (topic_address topics 2) (\<lambda>asset.
        rbind (as_i128 value) (\<lambda>d_tokens.
        Ok (Some (BadDebt user asset d_tokens))))))
      else if name = ''defaulted_debt'' then
        rbind (require_topics topics 2 ''defaulted_debt with 2 topics'') (\<lambda>_.
        rbind (topic_address topics 1) (\<lambda>asset.
        rbind (as_i128 value) (\<lambda>d_tokens.
        Ok (Some (DefaultedDebt asset d_tokens)))))
      else if name = ''debt_setoff'' then
        rbind (require_topics topics 2 ''debt_setoff with 2 topics'') (\<lambda>_.
        rbind (event_data value 2) (\<lambda>items.
        rbind (topic_address topics 1) (\<lambda>asset.
        rbind (as_i128 (items ! 0)) (\<lambda>b_tokens_burned.
        rbind (as_i128 (items ! 1)) (\<lambda>d_tokens_repaid.
        Ok (Some (DebtSetoff asset b_tokens_burned d_tokens_repaid)))))))
      else if name = ''collateral_orphaned'' then
        rbind (require_topics topics 3 ''collateral_orphaned with 3 topics'') (\<lambda>_.
        rbind (topic_address topics 1) (\<lambda>user.
        rbind (topic_address topics 2) (\<lambda>asset.
        rbind (as_i128 value) (\<lambda>b_tokens.
        Ok (Some (CollateralOrphaned user asset b_tokens))))))
      else if name = ''orphan_settled'' then
        rbind (require_topics topics 2 ''orphan_settled with 2 topics'') (\<lambda>_.
        rbind (topic_address topics 1) (\<lambda>asset.
        rbind (as_i128 value) (\<lambda>b_tokens.
        Ok (Some (OrphanSettled asset b_tokens)))))
      else if name = ''set_reserve'' then
        rbind (require_topics topics 1 ''set_reserve with 1 topic'') (\<lambda>_.
        rbind (event_data value 2) (\<lambda>items.
        rbind (as_address (items ! 0)) (\<lambda>asset.
        rbind (as_u32 (items ! 1)) (\<lambda>index.
        Ok (Some (SetReserve asset index))))))
      else if name = ''set_status'' then
        if length topics \<noteq> 1 \<and> length topics \<noteq> 2 then Err (XdrShape ''set_status with 1 or 2 topics'')
        else
          rbind (as_u32 value) (\<lambda>code.
          rbind (pool_status_try_from code) (\<lambda>status.
          Ok (Some (SetStatus status))))
      else Ok None)"

definition decode_pool_event :: "scval list \<Rightarrow> scval \<Rightarrow> pool_event option xdr_result" where
  "decode_pool_event topics value =
     (case topics of
        ScSymbol name # _ \<Rightarrow>
          rbind (decode_position_event name topics value) (\<lambda>event.
          case event of
            Some event \<Rightarrow> Ok (Some event)
          | None \<Rightarrow>
              rbind (decode_auction_event name topics value) (\<lambda>event.
              case event of
                Some event \<Rightarrow> Ok (Some event)
              | None \<Rightarrow> decode_admin_event name topics value))
      | _ \<Rightarrow> Ok None)"

section \<open>The wire format\<close>

text \<open>
  What the pool emits for an event, in the contract's field order. An amount is split into its
  halves, an auction is a struct of two address maps and a block.
\<close>

definition asset_amounts :: "(string, int) btree \<Rightarrow> scval" where
  "asset_amounts m = ScMap (Some (map (\<lambda>(asset, amount). (ScAddress asset, i128_val amount)) m))"

definition auction_struct :: "auction_data \<Rightarrow> scval" where
  "auction_struct a = ScMap (Some [(ScSymbol ''bid'', asset_amounts (ad_bid a)),
     (ScSymbol ''block'', ScU32 (ad_block a)), (ScSymbol ''lot'', asset_amounts (ad_lot a))])"

abbreviation event_vec :: "scval list \<Rightarrow> scval" where
  "event_vec items \<equiv> ScVec (Some items)"

fun event_name :: "pool_event \<Rightarrow> string" where
  "event_name (Supply _ _ _ _) = ''supply''"
| "event_name (Withdraw _ _ _ _) = ''withdraw''"
| "event_name (SupplyCollateral _ _ _ _) = ''supply_collateral''"
| "event_name (WithdrawCollateral _ _ _ _) = ''withdraw_collateral''"
| "event_name (Borrow _ _ _ _) = ''borrow''"
| "event_name (Repay _ _ _ _) = ''repay''"
| "event_name (FlashLoan _ _ _ _ _) = ''flash_loan''"
| "event_name (NewAuction _ _ _ _) = ''new_auction''"
| "event_name (FillAuction _ _ _ _ _) = ''fill_auction''"
| "event_name (DeleteAuction _ _) = ''delete_auction''"
| "event_name (BadDebt _ _ _) = ''bad_debt''"
| "event_name (DefaultedDebt _ _) = ''defaulted_debt''"
| "event_name (DebtSetoff _ _ _) = ''debt_setoff''"
| "event_name (CollateralOrphaned _ _ _) = ''collateral_orphaned''"
| "event_name (OrphanSettled _ _) = ''orphan_settled''"
| "event_name (SetReserve _ _) = ''set_reserve''"
| "event_name (SetStatus _) = ''set_status''"

fun emitted_topics :: "pool_event \<Rightarrow> scval list" where
  "emitted_topics (Supply asset from _ _) = [ScAddress asset, ScAddress from]"
| "emitted_topics (Withdraw asset from _ _) = [ScAddress asset, ScAddress from]"
| "emitted_topics (SupplyCollateral asset from _ _) = [ScAddress asset, ScAddress from]"
| "emitted_topics (WithdrawCollateral asset from _ _) = [ScAddress asset, ScAddress from]"
| "emitted_topics (Borrow asset from _ _) = [ScAddress asset, ScAddress from]"
| "emitted_topics (Repay asset from _ _) = [ScAddress asset, ScAddress from]"
| "emitted_topics (FlashLoan asset from contract _ _) = [ScAddress asset, ScAddress from, ScAddress contract]"
| "emitted_topics (NewAuction ty user _ _) = [ScU32 (auction_type_code ty), ScAddress user]"
| "emitted_topics (FillAuction ty user _ _ _) = [ScU32 (auction_type_code ty), ScAddress user]"
| "emitted_topics (DeleteAuction ty user) = [ScU32 (auction_type_code ty), ScAddress user]"
| "emitted_topics (BadDebt user asset _) = [ScAddress user, ScAddress asset]"
| "emitted_topics (DefaultedDebt asset _) = [ScAddress asset]"
| "emitted_topics (DebtSetoff asset _ _) = [ScAddress asset]"
| "emitted_topics (CollateralOrphaned user asset _) = [ScAddress user, ScAddress asset]"
| "emitted_topics (OrphanSettled asset _) = [ScAddress asset]"
| "emitted_topics (SetReserve _ _) = []"
| "emitted_topics (SetStatus _) = []"

fun emitted_data :: "pool_event \<Rightarrow> scval" where
  "emitted_data (Supply _ _ amount tokens) = event_vec [i128_val amount, i128_val tokens]"
| "emitted_data (Withdraw _ _ amount tokens) = event_vec [i128_val amount, i128_val tokens]"
| "emitted_data (SupplyCollateral _ _ amount tokens) = event_vec [i128_val amount, i128_val tokens]"
| "emitted_data (WithdrawCollateral _ _ amount tokens) = event_vec [i128_val amount, i128_val tokens]"
| "emitted_data (Borrow _ _ amount tokens) = event_vec [i128_val amount, i128_val tokens]"
| "emitted_data (Repay _ _ amount tokens) = event_vec [i128_val amount, i128_val tokens]"
| "emitted_data (FlashLoan _ _ _ amount tokens) = event_vec [i128_val amount, i128_val tokens]"
| "emitted_data (NewAuction _ _ percent auction) = event_vec [ScU32 percent, auction_struct auction]"
| "emitted_data (FillAuction _ _ filler percent filled) =
     event_vec [ScAddress filler, i128_val percent, auction_struct filled]"
| "emitted_data (DeleteAuction _ _) = ScVoid"
| "emitted_data (BadDebt _ _ tokens) = i128_val tokens"
| "emitted_data (DefaultedDebt _ tokens) = i128_val tokens"
| "emitted_data (DebtSetoff _ burned repaid) = event_vec [i128_val burned, i128_val repaid]"
| "emitted_data (CollateralOrphaned _ _ tokens) = i128_val tokens"
| "emitted_data (OrphanSettled _ tokens) = i128_val tokens"
| "emitted_data (SetReserve asset index) = event_vec [ScAddress asset, ScU32 index]"
| "emitted_data (SetStatus status) = ScU32 (pool_status_code status)"

text \<open>Every amount of an event is an \<open>i128\<close> and its maps are maps.\<close>

definition wire_amounts :: "(string, int) btree \<Rightarrow> bool" where
  "wire_amounts m \<longleftrightarrow> bt_wf m \<and> (\<forall>v \<in> set (bt_values m). in_i128 v)"

definition wire_auction :: "auction_data \<Rightarrow> bool" where
  "wire_auction a \<longleftrightarrow> wire_amounts (ad_bid a) \<and> wire_amounts (ad_lot a)"

fun wire_ok :: "pool_event \<Rightarrow> bool" where
  "wire_ok (NewAuction _ _ _ auction) = wire_auction auction"
| "wire_ok (FillAuction _ _ _ percent filled) = (in_i128 percent \<and> wire_auction filled)"
| "wire_ok (Supply _ _ amount tokens) = (in_i128 amount \<and> in_i128 tokens)"
| "wire_ok (Withdraw _ _ amount tokens) = (in_i128 amount \<and> in_i128 tokens)"
| "wire_ok (SupplyCollateral _ _ amount tokens) = (in_i128 amount \<and> in_i128 tokens)"
| "wire_ok (WithdrawCollateral _ _ amount tokens) = (in_i128 amount \<and> in_i128 tokens)"
| "wire_ok (Borrow _ _ amount tokens) = (in_i128 amount \<and> in_i128 tokens)"
| "wire_ok (Repay _ _ amount tokens) = (in_i128 amount \<and> in_i128 tokens)"
| "wire_ok (FlashLoan _ _ _ amount tokens) = (in_i128 amount \<and> in_i128 tokens)"
| "wire_ok (BadDebt _ _ tokens) = in_i128 tokens"
| "wire_ok (DefaultedDebt _ tokens) = in_i128 tokens"
| "wire_ok (DebtSetoff _ burned repaid) = (in_i128 burned \<and> in_i128 repaid)"
| "wire_ok (CollateralOrphaned _ _ tokens) = in_i128 tokens"
| "wire_ok (OrphanSettled _ tokens) = in_i128 tokens"
| "wire_ok _ = True"

section \<open>Lemmas\<close>

lemma as_i128_val [simp]: "in_i128 v \<Longrightarrow> as_i128 (i128_val v) = Ok v"
  using as_i128_parts_val [of v] by (simp add: as_i128_def i128_val_def as_i128_parts_def)

lemma address_map_amounts:
  assumes "wire_amounts m"
  shows "address_map (asset_amounts m) = Ok m"
proof -
  have "rmap_list address_entry (map (\<lambda>(asset, amount). (ScAddress asset, i128_val amount)) m) = Ok (map (\<lambda>e. e) m)"
    using assms as_i128_parts_val
    by (intro rmap_list_map) (force simp: i128_val_def wire_amounts_def bt_values_def)
  then show ?thesis
    using assms by (simp add: address_map_def asset_amounts_def wire_amounts_def)
qed

lemma auction_value_struct [simp]: "wire_auction a \<Longrightarrow> auction_value (auction_struct a) = Ok a"
  by (simp add: auction_value_def auction_struct_def struct_fields_def field_def u32_field_def
      wire_auction_def address_map_amounts ok_or_def)

lemma pool_status_roundtrip [simp]: "pool_status_try_from (pool_status_code s) = Ok s"
  by (cases s) (simp_all add: pool_status_try_from_def)

lemmas event_ops = two_sided_def topic_address_def topic_auction_type_def topic_def require_topics_def
  event_data_def as_address_def as_u32_def

lemmas event_decoders = decode_position_event_def decode_auction_event_def decode_admin_event_def

text \<open>The events this decoder models are those with one of these names.\<close>

definition event_names :: "string list" where
  "event_names = [''supply'', ''withdraw'', ''supply_collateral'', ''withdraw_collateral'', ''borrow'', ''repay'',
     ''flash_loan'', ''new_auction'', ''fill_auction'', ''delete_auction'', ''bad_debt'', ''defaulted_debt'',
     ''debt_setoff'', ''collateral_orphaned'', ''orphan_settled'', ''set_reserve'', ''set_status'']"

lemma decode_emitted:
  "wire_ok e \<Longrightarrow> decode_pool_event (ScSymbol (event_name e) # emitted_topics e) (emitted_data e) = Ok (Some e)"
  by (cases e) (simp_all add: decode_pool_event_def event_decoders event_ops)

lemma decode_position_name: "decode_position_event name topics value = Ok (Some e) \<Longrightarrow> name = event_name e"
  by (auto simp: decode_position_event_def rbind_eq_Ok split: if_splits)

lemma decode_auction_name: "decode_auction_event name topics value = Ok (Some e) \<Longrightarrow> name = event_name e"
  by (auto simp: decode_auction_event_def rbind_eq_Ok split: if_splits)

lemma decode_admin_name: "decode_admin_event name topics value = Ok (Some e) \<Longrightarrow> name = event_name e"
  by (auto simp: decode_admin_event_def rbind_eq_Ok split: if_splits)

subsection \<open>What a decoded event says of its encoding\<close>

lemma as_address_Ok [result_simps]: "as_address v = Ok a \<longleftrightarrow> v = ScAddress a"
  by (auto simp: as_address_def split: scval.splits)

lemma as_u32_Ok [result_simps]: "as_u32 v = Ok n \<longleftrightarrow> v = ScU32 n"
  by (auto simp: as_u32_def split: scval.splits)

lemma as_i128_Ok [result_simps]: "as_i128 v = Ok n \<Longrightarrow> v = i128_val n"
  by (auto simp: as_i128_def i128_val_parts [unfolded as_i128_parts_def] split: scval.splits)

lemma event_data_Ok [result_simps]: "event_data v n = Ok items \<longleftrightarrow> v = event_vec items \<and> length items = n"
  by (auto simp: event_data_def split: scval.splits option.splits)

lemma pool_status_try_from_Ok: "pool_status_try_from v = Ok s \<longleftrightarrow> v = pool_status_code s"
  by (cases s) (auto simp: pool_status_try_from_def)

lemma topic_reads [result_simps]:
  "topic_address ts i = Ok a \<longleftrightarrow> i < length ts \<and> ts ! i = ScAddress a"
  "topic_auction_type ts i = Ok ty \<longleftrightarrow> i < length ts \<and> ts ! i = ScU32 (auction_type_code ty)"
  "require_topics ts n m = Ok () \<longleftrightarrow> length ts = n"
  by (auto simp: topic_address_def topic_auction_type_def topic_def require_topics_def rbind_eq_Ok
      as_address_Ok as_u32_Ok auction_type_try_from_Ok)

lemma length_eq_numeral:
  "length xs = 2 \<longleftrightarrow> (\<exists>a b. xs = [a, b])" "length xs = 3 \<longleftrightarrow> (\<exists>a b c. xs = [a, b, c])"
  "length xs = 4 \<longleftrightarrow> (\<exists>a b c d. xs = [a, b, c, d])"
  by (auto simp: length_Suc_conv numeral_eq_Suc)

lemmas event_inversions = rbind_eq_Ok as_address_Ok as_u32_Ok event_data_Ok topic_reads
  pool_status_try_from_Ok length_eq_numeral length_Suc_conv

text \<open>An event that carries no auction determines its data; a status may come with one topic more.\<close>

fun carries_auction :: "pool_event \<Rightarrow> bool" where
  "carries_auction (NewAuction _ _ _ _) = True"
| "carries_auction (FillAuction _ _ _ _ _) = True"
| "carries_auction _ = False"

definition shaped :: "pool_event \<Rightarrow> scval list \<Rightarrow> scval \<Rightarrow> bool" where
  "shaped e ts v \<longleftrightarrow>
     (case e of SetStatus _ \<Rightarrow> length ts \<le> 1 | _ \<Rightarrow> ts = emitted_topics e)
     \<and> (carries_auction e \<or> v = emitted_data e)"

lemma two_sided_Ok:
  "two_sided (s # ts) v m = Ok (asset, from, amount, tokens) \<Longrightarrow>
     ts = [ScAddress asset, ScAddress from] \<and> v = event_vec [i128_val amount, i128_val tokens]"
  by (auto simp: two_sided_def event_inversions dest!: as_i128_Ok)

lemma decode_position_shaped:
  "decode_position_event name (s # ts) v = Ok (Some e) \<Longrightarrow> shaped e ts v"
  by (auto simp: decode_position_event_def event_inversions shaped_def dest!: two_sided_Ok as_i128_Ok split: if_splits)

lemma decode_auction_shaped:
  "decode_auction_event name (s # ts) v = Ok (Some e) \<Longrightarrow> shaped e ts v"
  by (auto simp: decode_auction_event_def event_inversions shaped_def split: if_splits)

lemma decode_admin_shaped:
  "decode_admin_event name (s # ts) v = Ok (Some e) \<Longrightarrow> shaped e ts v"
  by (auto simp: decode_admin_event_def event_inversions shaped_def dest!: as_i128_Ok split: if_splits)

lemma decode_none:
  "decode_position_event name ts v = Ok None \<longleftrightarrow> name \<notin> set (take 7 event_names)"
  "decode_auction_event name ts v = Ok None \<longleftrightarrow> name \<notin> set (take 3 (drop 7 event_names))"
  "decode_admin_event name ts v = Ok None \<longleftrightarrow> name \<notin> set (drop 10 event_names)"
  by (auto simp: event_decoders event_names_def rbind_eq_Ok split: if_splits)

lemma decode_other [simp]:
  "name \<notin> set (take 7 event_names) \<Longrightarrow> decode_position_event name ts v = Ok None"
  "name \<notin> set (take 3 (drop 7 event_names)) \<Longrightarrow> decode_auction_event name ts v = Ok None"
  by (simp_all add: decode_none)

lemma decode_pool_cases:
  "decode_pool_event (ScSymbol name # ts) v = Ok (Some e) \<Longrightarrow>
     decode_position_event name (ScSymbol name # ts) v = Ok (Some e)
     \<or> decode_auction_event name (ScSymbol name # ts) v = Ok (Some e)
     \<or> decode_admin_event name (ScSymbol name # ts) v = Ok (Some e)"
  by (auto simp: decode_pool_event_def rbind_eq_Ok split: option.splits)

lemma decode_pool_symbol: "decode_pool_event ts v = Ok (Some e) \<Longrightarrow> \<exists>name rest. ts = ScSymbol name # rest"
  by (auto simp: decode_pool_event_def split: list.splits scval.splits)

lemma event_names_split:
  "set event_names = set (take 7 event_names) \<union> set (take 3 (drop 7 event_names)) \<union> set (drop 10 event_names)"
  by (simp add: event_names_def insert_commute)

lemma decode_pool_None: "decode_pool_event (ScSymbol name # ts) v = Ok None \<longleftrightarrow> name \<notin> set event_names"
  by (auto simp: decode_pool_event_def rbind_eq_Ok event_names_split decode_none split: option.splits)

lemma decode_pool_not_symbol: "(\<nexists>name rest. ts = ScSymbol name # rest) \<Longrightarrow> decode_pool_event ts v = Ok None"
  by (auto simp: decode_pool_event_def split: list.splits scval.splits)

text \<open>
  C6. The decoder of pool events and the contract's wire format agree. An event the pool emits
  is decoded to itself; whatever is decoded to an event was emitted under that event's name with
  exactly its topics (a status may carry one more) and, unless the event carries an auction map,
  exactly its data; and a contract event is passed over, never failed on, precisely when its
  first topic is none of the seventeen names.
\<close>

theorem pool_event_codec:
  "(wire_ok e \<longrightarrow> decode_pool_event (ScSymbol (event_name e) # emitted_topics e) (emitted_data e) = Ok (Some e))
   \<and> (decode_pool_event topics value = Ok (Some e) \<longrightarrow>
        (\<exists>ts. topics = ScSymbol (event_name e) # ts \<and> shaped e ts value))
   \<and> (decode_pool_event topics value = Ok None \<longleftrightarrow> (\<forall>name \<in> set event_names. take 1 topics \<noteq> [ScSymbol name]))"
proof (intro conjI impI)
  show "wire_ok e \<Longrightarrow> decode_pool_event (ScSymbol (event_name e) # emitted_topics e) (emitted_data e) = Ok (Some e)"
    by (rule decode_emitted)
  show "\<exists>ts. topics = ScSymbol (event_name e) # ts \<and> shaped e ts value"
    if dec: "decode_pool_event topics value = Ok (Some e)"
  proof -
    obtain name ts where t: "topics = ScSymbol name # ts" using decode_pool_symbol [OF dec] by blast
    have "name = event_name e \<and> shaped e ts value"
      using decode_pool_cases [OF dec [unfolded t]]
      by (auto dest: decode_position_name decode_auction_name decode_admin_name
          intro: decode_position_shaped decode_auction_shaped decode_admin_shaped)
    with t show ?thesis by blast
  qed
  show "decode_pool_event topics value = Ok None \<longleftrightarrow> (\<forall>name \<in> set event_names. take 1 topics \<noteq> [ScSymbol name])"
  proof (cases "\<exists>name rest. topics = ScSymbol name # rest")
    case True
    then show ?thesis by (auto simp: decode_pool_None)
  next
    case False
    then show ?thesis by (cases topics) (auto simp: decode_pool_not_symbol)
  qed
qed

definition sample_new_auction :: pool_event where
  "sample_new_auction = NewAuction UserLiquidation ''GUSER'' 50
     \<lparr>ad_bid = [(''CUSDC'', 10 ^ 20)], ad_lot = [(''CEURC'', 7), (''CXLM'', - 5)], ad_block = 9\<rparr>"

lemma sample_new_auction_wire: "wire_ok sample_new_auction"
  by (simp add: sample_new_auction_def wire_auction_def wire_amounts_def i128_defs less_char_def)

theorem pool_event_codec_witness:
  "decode_pool_event (ScSymbol ''new_auction'' # emitted_topics sample_new_auction) (emitted_data sample_new_auction)
     = Ok (Some sample_new_auction)
   \<and> decode_pool_event [ScSymbol ''set_status'', ScAddress ''GADMIN''] (ScU32 4) = Ok (Some (SetStatus AdminFrozen))
   \<and> shaped (SetStatus AdminFrozen) [ScAddress ''GADMIN''] (ScU32 4)
   \<and> decode_pool_event [ScSymbol ''gulp''] ScVoid = Ok None"
proof -
  have dec: "decode_pool_event [ScSymbol ''set_status'', ScAddress ''GADMIN''] (ScU32 4) = Ok (Some (SetStatus AdminFrozen))"
    by (simp add: decode_pool_event_def event_decoders event_ops pool_status_try_from_def)
  show ?thesis
    using pool_event_codec [of sample_new_auction "[ScSymbol ''gulp'']" ScVoid] sample_new_auction_wire
      pool_event_codec [of "SetStatus AdminFrozen" "[ScSymbol ''set_status'', ScAddress ''GADMIN'']" "ScU32 4"] dec
    by (simp add: sample_new_auction_def event_names_def)
qed

end
