(* ===== verification/Ledger_Poller.thy ===== *)
theory Ledger_Poller
  imports Store Effects Pool_Events
begin

text \<open>
  \<open>src/ledger.rs\<close>: the poller that follows one pool's events. It reads the chain's head,
  pages the events since its cursor, sends each decoded event and then the ledger's tick
  downstream, and writes the cursor only once the tracker has acknowledged the tick.

  The world (\<open>feed\<close>) answers the RPC queries, the store's cursor, the channel and the
  acknowledgement. The log holds what the poller did to the outside, in order. Heartbeats, metrics and log lines are
  left out.
\<close>

section \<open>Definitions\<close>

record ledger_tick =
  lt_sequence :: nat
  lt_close_time :: nat

datatype poller_message =
    PollerEvent string nat pool_event
  | PollerTick string ledger_tick
  | PollerGap string nat nat

record poller_config =
  pc_poll_interval :: nat
  pc_page_limit :: nat
  pc_min_backoff :: nat
  pc_max_backoff :: nat

text \<open>\<open>PollerConfig::new\<close>; durations in milliseconds.\<close>

definition poller_config_new :: "nat \<Rightarrow> poller_config" where
  "poller_config_new poll_interval = \<lparr>pc_poll_interval = poll_interval, pc_page_limit = 200,
     pc_min_backoff = 1000, pc_max_backoff = 30000\<rparr>"

definition LIVENESS_INTERVALS :: nat where
  "LIVENESS_INTERVALS = 5"

definition liveness_deadline :: "poller_config \<Rightarrow> nat" where
  "liveness_deadline self = pc_poll_interval self * LIVENESS_INTERVALS + pc_max_backoff self"

definition RPC_FAILING_AFTER :: nat where
  "RPC_FAILING_AFTER = 5"

datatype ledger_error =
    LedgerChain chain_error
  | LedgerStore string
  | LedgerClosed
  | NotApplied nat

definition MAX_PAGES :: nat where
  "MAX_PAGES = 10000"

record drain_outcome =
  dr_drained :: bool
  dr_pages :: nat
  dr_stall_reason :: "string option"

text \<open>The answers of \<open>getHealth\<close>, \<open>getLatestLedger\<close> and \<open>getEvents\<close>, as far as they are read.\<close>

record health =
  he_oldest_ledger :: nat

record latest_ledger =
  ll_sequence :: nat
  ll_close_time :: nat

record chain_event =
  ce_contract_id :: string
  ce_ledger :: nat
  ce_in_successful_contract_call :: bool
  ce_topics :: "scval list"
  ce_value :: scval

record events_page =
  ep_events :: "chain_event list"
  ep_cursor :: "string option"

record event_query =
  eq_start_ledger :: "nat option"
  eq_cursor :: "string option"
  eq_contract_ids :: "string list"
  eq_limit :: nat

text \<open>
  The world. \<open>fe_send\<close> says whether the channel
  took the message, \<open>fe_ack\<close> whether the tick was acknowledged.
\<close>

record 'w feed =
  fe_health :: "'w \<Rightarrow> health chain_result \<times> 'w"
  fe_latest_ledger :: "'w \<Rightarrow> latest_ledger chain_result \<times> 'w"
  fe_events :: "event_query \<Rightarrow> 'w \<Rightarrow> events_page chain_result \<times> 'w"
  fe_cursor :: "string \<Rightarrow> 'w \<Rightarrow> (string, cursor option) result \<times> 'w"
  fe_set_cursor :: "string \<Rightarrow> cursor \<Rightarrow> 'w \<Rightarrow> (string, unit) result \<times> 'w"
  fe_send :: "poller_message \<Rightarrow> 'w \<Rightarrow> bool \<times> 'w"
  fe_ack :: "'w \<Rightarrow> bool \<times> 'w"

datatype deed =
    Fetched events_page
  | Sent "poller_message"
  | Acknowledged nat
  | CursorSet nat
  | ReportedFailing nat

type_synonym ('w, 'a) poll = "('w, deed, ledger_error, 'a) act"

text \<open>\<open>?\<close> on a chain or a store result.\<close>

definition chain_op :: "('w \<Rightarrow> 'a chain_result \<times> 'w) \<Rightarrow> ('w, 'a) poll" where
  "chain_op f = io_op (\<lambda>w. case f w of (r, w) \<Rightarrow> (case r of Inl e \<Rightarrow> Err (LedgerChain e) | Inr x \<Rightarrow> Ok x, w))"

definition store_op :: "('w \<Rightarrow> (string, 'a) result \<times> 'w) \<Rightarrow> ('w, 'a) poll" where
  "store_op f = io_op (\<lambda>w. case f w of (r, w) \<Rightarrow> (case r of Inl e \<Rightarrow> Err (LedgerStore e) | Inr x \<Rightarrow> Ok x, w))"

text \<open>\<open>send\<close>.\<close>

definition poller_send :: "'w feed \<Rightarrow> poller_message \<Rightarrow> ('w, unit) poll" where
  "poller_send feed message = (\<lambda>(w, log).
     case fe_send feed message w of
       (True, w) \<Rightarrow> Some (Ok (), w, log @ [Sent message])
     | (False, w) \<Rightarrow> Some (Err LedgerClosed, w, log))"

text \<open>One page of events, with what came back in the log.\<close>

definition fetch_page :: "'w feed \<Rightarrow> event_query \<Rightarrow> ('w, events_page) poll" where
  "fetch_page feed query = (\<lambda>(w, log).
     case fe_events feed query w of
       (Inl e, w) \<Rightarrow> Some (Err (LedgerChain e), w, log)
     | (Inr page, w) \<Rightarrow> Some (Ok page, w, log @ [Fetched page]))"

text \<open>The loop over one page's events.\<close>

fun send_events :: "'w feed \<Rightarrow> string \<Rightarrow> chain_event list \<Rightarrow> ('w, unit) poll" where
  "send_events feed pool [] = io_lift (Ok ())"
| "send_events feed pool (event # rest) =
     (if ce_contract_id event \<noteq> pool \<or> \<not> ce_in_successful_contract_call event then send_events feed pool rest
      else
        case decode_pool_event (ce_topics event) (ce_value event) of
          Inr (Some decoded) \<Rightarrow>
            io_bind (poller_send feed (PollerEvent pool (ce_ledger event) decoded)) (\<lambda>_. send_events feed pool rest)
        | _ \<Rightarrow> send_events feed pool rest)"

text \<open>What \<open>drain_events\<close> makes of a page it has sent: an answer, or the cursor to go on from.\<close>

definition page_verdict ::
  "poller_config \<Rightarrow> string option \<Rightarrow> nat \<Rightarrow> events_page \<Rightarrow> drain_outcome + string" where
  "page_verdict config request_cursor pages page =
     (if length (ep_events page) < pc_page_limit config then
        Inl \<lparr>dr_drained = True, dr_pages = pages, dr_stall_reason = None\<rparr>
      else if MAX_PAGES \<le> pages then
        Inl \<lparr>dr_drained = False, dr_pages = pages, dr_stall_reason = Some ''page cap reached''\<rparr>
      else
        case ep_cursor page of
          Some next \<Rightarrow>
            if Some next = request_cursor then
              Inl \<lparr>dr_drained = False, dr_pages = pages, dr_stall_reason = Some ''cursor did not advance''\<rparr>
            else Inr next
        | None \<Rightarrow>
            Inl \<lparr>dr_drained = False, dr_pages = pages, dr_stall_reason = Some ''full page returned no cursor''\<rparr>)"

text \<open>The loop of \<open>drain_events\<close>, after \<open>pages\<close> pages.\<close>

function drain_loop ::
  "'w feed \<Rightarrow> string \<Rightarrow> poller_config \<Rightarrow> nat \<Rightarrow> string option \<Rightarrow> nat \<Rightarrow> ('w, drain_outcome) poll" where
  "drain_loop feed pool config start request_cursor pages s =
     (case fetch_page feed \<lparr>
              eq_start_ledger = (if request_cursor = None then Some start else None),
              eq_cursor = request_cursor, eq_contract_ids = [pool], eq_limit = pc_page_limit config\<rparr> s of
        None \<Rightarrow> None
      | Some (Inl e, s) \<Rightarrow> Some (Err e, s)
      | Some (Inr page, s) \<Rightarrow>
          (case send_events feed pool (ep_events page) s of
             None \<Rightarrow> None
           | Some (Inl e, s) \<Rightarrow> Some (Err e, s)
           | Some (Inr _, s) \<Rightarrow>
               (case page_verdict config request_cursor (Suc pages) page of
                  Inl outcome \<Rightarrow> Some (Ok outcome, s)
                | Inr next \<Rightarrow> drain_loop feed pool config start (Some next) (Suc pages) s)))"
  by pat_completeness auto

termination
  by (relation "measure (\<lambda>(_, _, _, _, _, pages, _). MAX_PAGES - pages)")
    (auto simp: page_verdict_def split: if_splits option.splits)

declare drain_loop.simps [simp del]

definition drain_events ::
  "'w feed \<Rightarrow> string \<Rightarrow> poller_config \<Rightarrow> nat \<Rightarrow> ('w, drain_outcome) poll" where
  "drain_events feed pool config start = drain_loop feed pool config start None 0"

text \<open>
  The part of \<open>poll_once\<close> that looks for a gap: the ledger to start at, and the cursor a
  gap is now reported for.
\<close>

definition find_start ::
  "'w feed \<Rightarrow> string \<Rightarrow> nat option \<Rightarrow> health \<Rightarrow> latest_ledger \<Rightarrow> cursor option
   \<Rightarrow> ('w, nat \<times> nat option) poll" where
  "find_start feed pool gap_reported_at health head stored =
     (case stored of
        None \<Rightarrow> io_lift (Ok (ll_sequence head, gap_reported_at))
      | Some cursor \<Rightarrow>
          let start = saturating_add_u32 (cu_ledger cursor) 1 in
          if start < he_oldest_ledger health then
            if gap_reported_at = Some (cu_ledger cursor) then
              io_lift (Ok (he_oldest_ledger health, gap_reported_at))
            else
              io_bind (poller_send feed (PollerGap pool (cu_ledger cursor) (he_oldest_ledger health))) (\<lambda>_.
              io_lift (Ok (he_oldest_ledger health, Some (cu_ledger cursor))))
          else io_lift (Ok (start, gap_reported_at)))"

text \<open>\<open>poll_once\<close> up to there.\<close>

definition locate ::
  "'w feed \<Rightarrow> string \<Rightarrow> nat option \<Rightarrow> ('w, latest_ledger \<times> nat \<times> nat option) poll" where
  "locate feed pool gap_reported_at =
     io_bind (chain_op (fe_health feed)) (\<lambda>health.
     io_bind (chain_op (fe_latest_ledger feed)) (\<lambda>head.
     io_bind (store_op (fe_cursor feed (events_cursor pool))) (\<lambda>stored.
     io_bind (find_start feed pool gap_reported_at health head stored) (\<lambda>(start, gap).
     io_lift (Ok (head, start, gap))))))"

text \<open>\<open>await_ack\<close>, with what its answer means.\<close>

definition await_ack :: "'w feed \<Rightarrow> nat \<Rightarrow> ('w, unit) poll" where
  "await_ack feed ledger = (\<lambda>(w, log).
     case fe_ack feed w of
       (True, w) \<Rightarrow> Some (Ok (), w, log @ [Acknowledged ledger])
     | (False, w) \<Rightarrow> Some (Err (NotApplied ledger), w, log))"

definition commit_cursor :: "'w feed \<Rightarrow> string \<Rightarrow> nat \<Rightarrow> ('w, unit) poll" where
  "commit_cursor feed pool ledger = (\<lambda>(w, log).
     case fe_set_cursor feed (events_cursor pool) \<lparr>cu_ledger = ledger, cu_paging_token = None\<rparr> w of
       (Inl e, w) \<Rightarrow> Some (Err (LedgerStore e), w, log)
     | (Inr _, w) \<Rightarrow> Some (Ok (), w, log @ [CursorSet ledger]))"

text \<open>The rest of \<open>poll_once\<close>, from \<open>start\<close> on.\<close>

definition deliver ::
  "'w feed \<Rightarrow> string \<Rightarrow> poller_config \<Rightarrow> latest_ledger \<Rightarrow> nat \<Rightarrow> ('w, ledger_tick option) poll" where
  "deliver feed pool config head start =
     (if ll_sequence head < start then io_lift (Ok None)
      else
        io_bind (drain_events feed pool config start) (\<lambda>outcome.
        if \<not> dr_drained outcome then io_lift (Ok None)
        else
          let tick = \<lparr>lt_sequence = ll_sequence head, lt_close_time = ll_close_time head\<rparr> in
          io_bind (poller_send feed (PollerTick pool tick)) (\<lambda>_.
          io_bind (await_ack feed (ll_sequence head)) (\<lambda>_.
          io_bind (commit_cursor feed pool (ll_sequence head)) (\<lambda>_.
          io_lift (Ok (Some tick)))))))"

text \<open>
  \<open>poll_once\<close>: its answer and the field \<open>gap_reported_at\<close>, which stays set when a later
  call fails.
\<close>

definition poll_once ::
  "'w feed \<Rightarrow> string \<Rightarrow> poller_config \<Rightarrow> nat option
   \<Rightarrow> 'w \<times> deed list \<Rightarrow> ((ledger_error, ledger_tick option) result \<times> nat option \<times> 'w \<times> deed list) option" where
  "poll_once feed pool config gap_reported_at s =
     (case locate feed pool gap_reported_at s of
        None \<Rightarrow> None
      | Some (Inl e, s) \<Rightarrow> Some (Err e, gap_reported_at, s)
      | Some (Inr (head, start, gap), s) \<Rightarrow>
          (case deliver feed pool config head start s of
             None \<Rightarrow> None
           | Some (r, s) \<Rightarrow> Some (r, gap, s)))"

text \<open>
  What \<open>run\<close> makes of one pass: to stop, or how long to wait, with the next backoff, the
  failures in a row and whether \<open>report_rpc_failing\<close> is called.
\<close>

record pace =
  pa_backoff :: nat
  pa_failures :: nat

definition start_pace :: "poller_config \<Rightarrow> pace" where
  "start_pace config = \<lparr>pa_backoff = pc_min_backoff config, pa_failures = 0\<rparr>"

definition after_pass ::
  "poller_config \<Rightarrow> (ledger_error, 'a) result \<Rightarrow> pace \<Rightarrow> (nat \<times> pace \<times> bool) option" where
  "after_pass config outcome pace =
     (case outcome of
        Inr _ \<Rightarrow> Some (pc_poll_interval config, start_pace config, False)
      | Inl LedgerClosed \<Rightarrow> None
      | Inl _ \<Rightarrow>
          let failures = saturating_add_u32 (pa_failures pace) 1 in
          Some (pa_backoff pace,
                \<lparr>pa_backoff = min (2 * pa_backoff pace) (pc_max_backoff config), pa_failures = failures\<rparr>,
                failures = RPC_FAILING_AFTER))"

text \<open>
  \<open>run\<close>: \<open>stopping\<close> reads the shutdown flag, and \<open>rest\<close> is the \<open>select!\<close> at the end
  of a turn, \<open>True\<close> when it ends the loop.
\<close>

partial_function (option) poller_run ::
  "'w feed \<Rightarrow> string \<Rightarrow> poller_config \<Rightarrow> ('w \<Rightarrow> bool) \<Rightarrow> (nat \<Rightarrow> 'w \<Rightarrow> bool \<times> 'w)
   \<Rightarrow> nat option \<Rightarrow> pace \<Rightarrow> 'w \<times> deed list \<Rightarrow> ('w \<times> deed list) option" where
  "poller_run feed pool config stopping rest gap pace s =
     (if stopping (fst s) then Some s
      else
        case poll_once feed pool config gap s of
          None \<Rightarrow> None
        | Some (outcome, gap, w, log) \<Rightarrow>
            (case after_pass config outcome pace of
               None \<Rightarrow> Some (w, log)
             | Some (wait, pace, report) \<Rightarrow>
                 (case (if report then log @ [ReportedFailing (pa_failures pace)] else log, rest wait w) of
                    (log, stop, w) \<Rightarrow>
                      if stop then Some (w, log)
                      else poller_run feed pool config stopping rest gap pace (w, log))))"

section \<open>What a pass does\<close>

text \<open>The messages one page of events turns into.\<close>

definition event_message :: "'w feed \<Rightarrow> string \<Rightarrow> chain_event \<Rightarrow> poller_message list" where
  "event_message feed pool event =
     (if ce_contract_id event = pool \<and> ce_in_successful_contract_call event then
        case decode_pool_event (ce_topics event) (ce_value event) of
          Inr (Some decoded) \<Rightarrow> [PollerEvent pool (ce_ledger event) decoded]
        | _ \<Rightarrow> []
      else [])"

definition page_messages :: "'w feed \<Rightarrow> string \<Rightarrow> chain_event list \<Rightarrow> deed list" where
  "page_messages feed pool events = map Sent (concat (map (event_message feed pool) events))"

definition page_deeds :: "'w feed \<Rightarrow> string \<Rightarrow> events_page \<Rightarrow> deed list" where
  "page_deeds feed pool page = Fetched page # page_messages feed pool (ep_events page)"

text \<open>What reading may log, whether or not it got to the end.\<close>

fun reading :: "deed \<Rightarrow> bool" where
  "reading (Fetched page) = True"
| "reading (Sent (PollerEvent pool ledger event)) = True"
| "reading _ = False"

lemma poller_send_logs:
  "logs (poller_send feed message) (\<lambda>r ev. ev = (case r of Inl _ \<Rightarrow> [] | Inr _ \<Rightarrow> [Sent message]))"
  by (rule logsI) (auto simp: poller_send_def split: prod.splits bool.splits)

lemma page_messages_reading: "list_all reading (page_messages feed pool events)"
  by (induction events)
    (auto simp: page_messages_def event_message_def split: sum.splits option.splits)

lemma send_events_logs:
  "logs (send_events feed pool events)
     (\<lambda>r ev. (r = Ok () \<longrightarrow> ev = page_messages feed pool events) \<and> list_all reading ev)"
proof (induction events)
  case Nil
  show ?case by (simp add: page_messages_def logs_lift)
next
  case (Cons event rest)
  show ?case
  proof (cases "ce_contract_id event = pool \<and> ce_in_successful_contract_call event
      \<and> (\<exists>decoded. decode_pool_event (ce_topics event) (ce_value event) = Ok (Some decoded))")
    case True
    then obtain decoded where d: "decode_pool_event (ce_topics event) (ce_value event) = Ok (Some decoded)" by blast
    have "logs (io_bind (poller_send feed (PollerEvent pool (ce_ledger event) decoded)) (\<lambda>_. send_events feed pool rest))
      (\<lambda>r ev. (r = Ok () \<longrightarrow> ev = page_messages feed pool (event # rest)) \<and> list_all reading ev)"
      by (rule logs_bind [OF poller_send_logs Cons.IH])
        (use True d in \<open>auto simp: page_messages_def event_message_def\<close>)
    then show ?thesis using True d by simp
  next
    case False
    then have "send_events feed pool (event # rest) = send_events feed pool rest"
      "page_messages feed pool (event # rest) = page_messages feed pool rest"
      by (auto simp: page_messages_def event_message_def split: sum.splits option.splits)
    then show ?thesis using Cons.IH by simp
  qed
qed

lemma fetch_page_logs:
  "logs (fetch_page feed query) (\<lambda>r ev. ev = (case r of Inl _ \<Rightarrow> [] | Inr page \<Rightarrow> [Fetched page]))"
  by (rule logsI) (auto simp: fetch_page_def split: prod.splits sum.splits)

text \<open>
  A drained range: pages read and sent in order, all but the last of them full, and the last
  short.
\<close>

definition drained_pages :: "'w feed \<Rightarrow> string \<Rightarrow> poller_config \<Rightarrow> events_page list \<Rightarrow> deed list \<Rightarrow> bool" where
  "drained_pages feed pool config pages ev \<longleftrightarrow>
     pages \<noteq> [] \<and> ev = concat (map (page_deeds feed pool) pages)
     \<and> length (ep_events (last pages)) < pc_page_limit config
     \<and> (\<forall>page \<in> set (butlast pages). pc_page_limit config \<le> length (ep_events page))"

definition drains :: "'w feed \<Rightarrow> string \<Rightarrow> poller_config \<Rightarrow> (ledger_error, drain_outcome) result \<Rightarrow> deed list \<Rightarrow> bool" where
  "drains feed pool config r ev \<longleftrightarrow> list_all reading ev
     \<and> (\<forall>out. r = Ok out \<and> dr_drained out \<longrightarrow> (\<exists>pages. drained_pages feed pool config pages ev))"

lemma page_deeds_reading: "list_all reading (page_deeds feed pool page)"
  by (simp add: page_deeds_def page_messages_reading)

lemma drained_pages_Cons:
  "pc_page_limit config \<le> length (ep_events page) \<Longrightarrow> drained_pages feed pool config pages ev \<Longrightarrow>
   drained_pages feed pool config (page # pages) (page_deeds feed pool page @ ev)"
  by (auto simp: drained_pages_def)

text \<open>The loop as a chain of calls.\<close>

lemma drain_loop_eq:
  "drain_loop feed pool config start request_cursor pages =
     io_bind (fetch_page feed \<lparr>
              eq_start_ledger = (if request_cursor = None then Some start else None),
              eq_cursor = request_cursor, eq_contract_ids = [pool], eq_limit = pc_page_limit config\<rparr>) (\<lambda>page.
     io_bind (send_events feed pool (ep_events page)) (\<lambda>_.
     case page_verdict config request_cursor (Suc pages) page of
       Inl outcome \<Rightarrow> io_lift (Ok outcome)
     | Inr next \<Rightarrow> drain_loop feed pool config start (Some next) (Suc pages)))"
proof (rule ext, subst drain_loop.simps, unfold io_bind_def, intro option.case_cong refl, goal_cases)
  case (1 s x)
  show ?case
  proof (intro prod.case_cong sum.case_cong option.case_cong refl, goal_cases)
    case (1 r s1 page y r2 s2 u)
    then show ?case by (cases "page_verdict config request_cursor (Suc pages) page") (simp_all add: io_lift_def)
  qed
qed

lemma page_verdict_next: "page_verdict config request_cursor pages page = Inr next \<Longrightarrow>
  pages < MAX_PAGES \<and> pc_page_limit config \<le> length (ep_events page)"
  by (auto simp: page_verdict_def split: if_splits option.splits)

lemma page_verdict_drained: "page_verdict config request_cursor pages page = Inl out \<Longrightarrow> dr_drained out \<Longrightarrow>
  length (ep_events page) < pc_page_limit config"
  by (auto simp: page_verdict_def split: if_splits option.splits)

lemma drain_loop_logs:
  fixes feed :: "'w feed"
  shows "logs (drain_loop feed pool config start request_cursor pages) (drains feed pool config)"
proof (induction "MAX_PAGES - pages" arbitrary: request_cursor pages rule: less_induct)
  case less
  have verdict: "logs (case page_verdict config request_cursor (Suc pages) page of
       Inl outcome \<Rightarrow> io_lift (Ok outcome)
     | Inr next \<Rightarrow> drain_loop feed pool config start (Some next) (Suc pages))
     (\<lambda>r ev. drains feed pool config r (page_deeds feed pool page @ ev))" for page
  proof (cases "page_verdict config request_cursor (Suc pages) page")
    case (Inl out)
    then have "drained_pages feed pool config [page] (page_deeds feed pool page)" if "dr_drained out"
      using page_verdict_drained [OF Inl that] by (simp add: drained_pages_def)
    then show ?thesis by (auto simp: Inl drains_def page_deeds_reading intro!: logs_lift)
  next
    case (Inr "next")
    note full = page_verdict_next [OF Inr]
    have "drains feed pool config r (page_deeds feed pool page @ ev)" if "drains feed pool config r ev" for r ev
    proof -
      have "\<exists>pages. drained_pages feed pool config pages (page_deeds feed pool page @ ev)"
        if "drained_pages feed pool config pages ev" for pages
        using drained_pages_Cons [OF conjunct2 [OF full] that] by blast
      with that show ?thesis by (auto simp: drains_def page_deeds_reading)
    qed
    moreover have "logs (drain_loop feed pool config start (Some next) (Suc pages)) (drains feed pool config)"
      using full by (intro less.hyps) linarith
    ultimately show ?thesis by (simp add: Inr logs_mono)
  qed
  show ?case
  proof (subst drain_loop_eq, rule logs_seq [OF fetch_page_logs])
    fix page and ev :: "deed list"
    assume "ev = (case (Ok page :: (ledger_error, events_page) result) of Inl _ \<Rightarrow> [] | Inr page \<Rightarrow> [Fetched page])"
    then have ev: "ev = [Fetched page]" by simp
    show "logs (io_bind (send_events feed pool (ep_events page)) (\<lambda>_.
       case page_verdict config request_cursor (Suc pages) page of
         Inl outcome \<Rightarrow> io_lift (Ok outcome)
       | Inr next \<Rightarrow> drain_loop feed pool config start (Some next) (Suc pages))) (\<lambda>r ev'. drains feed pool config r (ev @ ev'))"
      by (rule logs_bind [OF send_events_logs verdict]) (auto simp: ev drains_def page_deeds_def)
  qed (auto simp: drains_def)
qed

text \<open>Paging is bounded, so a pass always returns.\<close>

lemma poller_send_returns: "returns (poller_send feed message)"
  by (auto simp: returns_def poller_send_def split: prod.splits bool.splits)

lemma send_events_returns: "returns (send_events feed pool events)"
proof (induction events)
  case (Cons event rest)
  then show ?case
    by (auto intro!: returns_bind poller_send_returns split: sum.split option.split)
qed (simp add: returns_lift)

lemma fetch_page_returns: "returns (fetch_page feed query)"
  by (auto simp: returns_def fetch_page_def split: prod.splits sum.splits)

lemma drain_loop_returns: "returns (drain_loop feed pool config start request_cursor pages)"
proof (induction "MAX_PAGES - pages" arbitrary: request_cursor pages rule: less_induct)
  case less
  have "returns (case page_verdict config request_cursor (Suc pages) page of
       Inl outcome \<Rightarrow> io_lift (Ok outcome)
     | Inr next \<Rightarrow> drain_loop feed pool config start (Some next) (Suc pages))" for page
  proof (cases "page_verdict config request_cursor (Suc pages) page")
    case (Inr "next")
    have "MAX_PAGES - Suc pages < MAX_PAGES - pages" using page_verdict_next [OF Inr] by linarith
    then show ?thesis using less.hyps [of "Suc pages"] by (simp add: Inr)
  qed (simp add: returns_lift)
  then show ?case by (subst drain_loop_eq) (intro returns_bind fetch_page_returns send_events_returns)
qed

section \<open>Properties\<close>

text \<open>The gap a pass may report before reading, and the cursor it is reported for.\<close>

definition gap_only :: "string \<Rightarrow> nat option \<Rightarrow> nat option \<Rightarrow> deed list \<Rightarrow> bool" where
  "gap_only pool gap gap' ev \<longleftrightarrow> ev = [] \<and> gap' = gap
     \<or> (\<exists>from oldest. ev = [Sent (PollerGap pool from oldest)] \<and> gap \<noteq> Some from \<and> gap' = Some from)"

lemma chain_op_quiet: "quiet (chain_op f)"
  by (simp add: chain_op_def quiet_op)

lemma store_op_quiet: "quiet (store_op f)"
  by (simp add: store_op_def quiet_op)

lemma find_start_logs:
  "logs (find_start feed pool gap health head stored)
     (\<lambda>r ev. (\<forall>e. r = Err e \<longrightarrow> ev = []) \<and> (\<forall>start gap'. r = Ok (start, gap') \<longrightarrow> gap_only pool gap gap' ev))"
proof (cases stored)
  case None
  then show ?thesis by (auto simp: find_start_def gap_only_def intro: logs_lift)
next
  case (Some cursor)
  let ?report = "io_bind (poller_send feed (PollerGap pool (cu_ledger cursor) (he_oldest_ledger health))) (\<lambda>_.
              io_lift (Ok (he_oldest_ledger health, Some (cu_ledger cursor))))"
  have "logs ?report (\<lambda>r ev. (\<forall>e. r = Err e \<longrightarrow> ev = [])
      \<and> (\<forall>start gap'. r = Ok (start, gap') \<longrightarrow> gap_only pool gap gap' ev))" if "gap \<noteq> Some (cu_ledger cursor)"
    by (rule logs_bind [OF poller_send_logs logs_lift_eq]) (use that in \<open>auto simp: gap_only_def\<close>)
  then show ?thesis by (auto simp: find_start_def Some Let_def intro!: logs_lift simp: gap_only_def)
qed

lemma locate_logs:
  "logs (locate feed pool gap) (\<lambda>r ev. (\<forall>e. r = Err e \<longrightarrow> ev = [])
     \<and> (\<forall>head start gap'. r = Ok (head, start, gap') \<longrightarrow> gap_only pool gap gap' ev))"
proof -
  have "logs (io_bind (find_start feed pool gap health head stored) (\<lambda>(start, gap). io_lift (Ok (head, start, gap))))
      (\<lambda>r ev. (\<forall>e. r = Err e \<longrightarrow> ev = []) \<and> (\<forall>head start gap'. r = Ok (head, start, gap') \<longrightarrow> gap_only pool gap gap' ev))"
    for health head stored
    by (rule logs_seq [OF find_start_logs]) (auto intro!: logs_lift split: prod.split)
  then show ?thesis unfolding locate_def
    by (rule logs_quiet_bind [OF chain_op_quiet logs_quiet_bind [OF chain_op_quiet logs_quiet_bind [OF store_op_quiet]]])
      (auto simp: gap_only_def)
qed

text \<open>
  A pass that delivered a tick: a drained range, the tick, its acknowledgement, the cursor.
\<close>

definition delivered ::
  "'w feed \<Rightarrow> string \<Rightarrow> poller_config \<Rightarrow> ledger_tick \<Rightarrow> deed list \<Rightarrow> bool" where
  "delivered feed pool config tick ev \<longleftrightarrow> (\<exists>pages reads. drained_pages feed pool config pages reads
     \<and> ev = reads @ [Sent (PollerTick pool tick), Acknowledged (lt_sequence tick), CursorSet (lt_sequence tick)])"

fun is_cursor_set :: "deed \<Rightarrow> bool" where
  "is_cursor_set (CursorSet ledger) = True"
| "is_cursor_set _ = False"

fun is_gap :: "deed \<Rightarrow> bool" where
  "is_gap (Sent (PollerGap pool from oldest)) = True"
| "is_gap _ = False"

lemma reading_plain: "reading d \<Longrightarrow> \<not> is_cursor_set d \<and> \<not> is_gap d"
  by (cases d rule: reading.cases) auto

lemma list_all_reading_plain: "list_all reading ev \<Longrightarrow> \<forall>d \<in> set ev. \<not> is_cursor_set d \<and> \<not> is_gap d"
  using reading_plain by (auto simp: list_all_iff)

definition pass_spec ::
  "'w feed \<Rightarrow> string \<Rightarrow> poller_config \<Rightarrow> (ledger_error, ledger_tick option) result \<Rightarrow> deed list \<Rightarrow> bool" where
  "pass_spec feed pool config r ev \<longleftrightarrow> (\<forall>d \<in> set ev. \<not> is_gap d)
     \<and> (case r of Inr (Some tick) \<Rightarrow> delivered feed pool config tick ev | _ \<Rightarrow> \<forall>d \<in> set ev. \<not> is_cursor_set d)"

lemma commit_logs:
  "logs (io_bind (commit_cursor feed pool n) (\<lambda>_. io_lift (Ok x)))
     (\<lambda>r ev. case r of Inl _ \<Rightarrow> ev = [] | Inr y \<Rightarrow> y = x \<and> ev = [CursorSet n])"
proof -
  have "logs (commit_cursor feed pool n) (\<lambda>r ev. ev = (case r of Inl _ \<Rightarrow> [] | Inr _ \<Rightarrow> [CursorSet n]))"
    by (rule logsI) (auto simp: commit_cursor_def split: prod.splits sum.splits)
  then show ?thesis by (rule logs_bind [OF _ logs_lift_eq]) simp_all
qed

lemma ack_logs:
  "logs (io_bind (await_ack feed n) (\<lambda>_. io_bind (commit_cursor feed pool n) (\<lambda>_. io_lift (Ok x))))
     (\<lambda>r ev. case r of Inl _ \<Rightarrow> ev = [] \<or> ev = [Acknowledged n] | Inr y \<Rightarrow> y = x \<and> ev = [Acknowledged n, CursorSet n])"
proof -
  have "logs (await_ack feed n) (\<lambda>r ev. ev = (case r of Inl _ \<Rightarrow> [] | Inr _ \<Rightarrow> [Acknowledged n]))"
    by (rule logsI) (auto simp: await_ack_def split: prod.splits bool.splits)
  then show ?thesis by (rule logs_bind [OF _ commit_logs]) (simp_all split: sum.splits)
qed

definition tick_deeds :: "string \<Rightarrow> ledger_tick \<Rightarrow> (ledger_error, ledger_tick option) result \<Rightarrow> deed list \<Rightarrow> bool" where
  "tick_deeds pool tick r ev \<longleftrightarrow> (case r of
     Inl _ \<Rightarrow> ev = [] \<or> ev = [Sent (PollerTick pool tick)] \<or> ev = [Sent (PollerTick pool tick), Acknowledged (lt_sequence tick)]
   | Inr y \<Rightarrow> y = Some tick \<and> ev = [Sent (PollerTick pool tick), Acknowledged (lt_sequence tick), CursorSet (lt_sequence tick)])"

lemma tick_logs:
  "logs (io_bind (poller_send feed (PollerTick pool tick)) (\<lambda>_.
          io_bind (await_ack feed (lt_sequence tick)) (\<lambda>_.
          io_bind (commit_cursor feed pool (lt_sequence tick)) (\<lambda>_.
          io_lift (Ok (Some tick)))))) (tick_deeds pool tick)"
  by (rule logs_bind [OF poller_send_logs ack_logs]) (auto simp: tick_deeds_def split: sum.splits)

lemma pass_spec_tick:
  assumes "drained_pages feed pool config pages ev" "\<forall>d \<in> set ev. \<not> is_cursor_set d \<and> \<not> is_gap d"
    and "tick_deeds pool tick r ev'"
  shows "pass_spec feed pool config r (ev @ ev')"
proof (cases r)
  case (Inl e)
  with assms show ?thesis by (auto simp: pass_spec_def tick_deeds_def)
next
  case (Inr y)
  with assms(3) have y: "y = Some tick"
    and ev': "ev' = [Sent (PollerTick pool tick), Acknowledged (lt_sequence tick), CursorSet (lt_sequence tick)]"
    by (simp_all add: tick_deeds_def)
  have "delivered feed pool config tick (ev @ ev')"
    unfolding delivered_def ev' by (intro exI [of _ pages] exI [of _ ev]) (simp add: assms(1))
  then show ?thesis using assms(2) by (auto simp: pass_spec_def Inr y ev')
qed

lemma deliver_logs:
  fixes feed :: "'w feed"
  shows "logs (deliver feed pool config head start) (pass_spec feed pool config)"
proof (cases "ll_sequence head < start")
  case True
  then show ?thesis by (simp add: deliver_def logs_lift pass_spec_def)
next
  case False
  let ?tick = "\<lparr>lt_sequence = ll_sequence head, lt_close_time = ll_close_time head\<rparr>"
  note tick = tick_logs [of feed pool ?tick, unfolded ledger_tick.select_convs]
  show ?thesis unfolding deliver_def drain_events_def Let_def if_not_P [OF False]
  proof (rule logs_seq [OF drain_loop_logs])
    fix out and ev :: "deed list"
    assume d: "drains feed pool config (Ok out) ev"
    then have plain: "\<forall>d \<in> set ev. \<not> is_cursor_set d \<and> \<not> is_gap d"
      using list_all_reading_plain [of ev] by (simp add: drains_def)
    show "logs (if \<not> dr_drained out then io_lift (Ok None)
        else io_bind (poller_send feed (PollerTick pool ?tick)) (\<lambda>_.
          io_bind (await_ack feed (ll_sequence head)) (\<lambda>_.
          io_bind (commit_cursor feed pool (ll_sequence head)) (\<lambda>_.
          io_lift (Ok (Some ?tick)))))) (\<lambda>r ev'. pass_spec feed pool config r (ev @ ev'))"
    proof (cases "dr_drained out")
      case True
      then obtain pages where pages: "drained_pages feed pool config pages ev" using d by (auto simp: drains_def)
      show ?thesis using True by (simp add: logs_mono [OF tick pass_spec_tick [OF pages plain]])
    next
      case False
      with plain show ?thesis by (simp add: logs_lift pass_spec_def)
    qed
  next
    fix e and ev :: "deed list"
    assume "drains feed pool config (Err e) ev"
    then show "pass_spec feed pool config (Err e) ev"
      using list_all_reading_plain [of ev] by (auto simp: drains_def pass_spec_def)
  qed
qed


lemma deliver_returns: "returns (deliver feed pool config head start)"
proof -
  have "returns (await_ack feed n)" "returns (commit_cursor feed pool n)" for n
    by (auto simp: returns_def await_ack_def commit_cursor_def split: prod.splits bool.splits sum.splits)
  then show ?thesis unfolding deliver_def drain_events_def Let_def
    by (auto intro!: returns_bind returns_lift drain_loop_returns poller_send_returns)
qed

lemma locate_returns: "returns (locate feed pool gap)"
proof -
  have "returns (find_start feed pool gap health head stored)" for health head stored
    unfolding find_start_def Let_def
    by (auto intro!: returns_bind returns_lift poller_send_returns split: option.split)
  then show ?thesis unfolding locate_def chain_op_def store_op_def
    by (auto intro!: returns_bind returns_op returns_lift split: prod.split)
qed

lemma poll_once_parts:
  assumes "poll_once feed pool config gap (w, log) = Some (r, gap', w', log')"
  shows "\<exists>before ev. log' = log @ before @ ev \<and> gap_only pool gap gap' before \<and> pass_spec feed pool config r ev"
proof -
  obtain l w1 log1 where loc: "locate feed pool gap (w, log) = Some (l, w1, log1)" using returnsD [OF locate_returns [of feed pool gap], of "(w, log)"] by auto
  show ?thesis
  proof (cases l)
    case (Inl e)
    then show ?thesis using logsD [OF locate_logs loc] assms loc
      by (intro exI [of _ "[]"]) (auto simp: poll_once_def gap_only_def pass_spec_def)
  next
    case (Inr x)
    obtain head start g where x: "x = (head, start, g)" by (cases x)
    from logsD [OF locate_logs loc] Inr x obtain before where b: "log1 = log @ before" "gap_only pool gap g before" by auto
    have del: "deliver feed pool config head start (w1, log1) = Some (r, w', log')" and g: "gap' = g"
      using assms loc by (auto simp: poll_once_def Inr x split: option.splits)
    from logsD [OF deliver_logs del] b g show ?thesis by auto
  qed
qed

text \<open>
  C37: the cursor moves only past what was read, delivered and applied. A pass logs, after a
  gap it may report first: when it answers with a tick, the pages of a range it drained (all
  but the last full, the last short), every modelled event of each page in order right after
  that page, then the tick, then its acknowledgement and only then the cursor at the tick's
  ledger; in every other case, an error or no tick, the cursor is not written.
\<close>

theorem cursor_follows_acknowledgement:
  assumes "poll_once feed pool config gap (w, log) = Some (r, gap', w', log')"
  shows "\<exists>before ev. log' = log @ before @ ev \<and> gap_only pool gap gap' before
    \<and> (case r of
         Inr (Some tick) \<Rightarrow>
           (\<exists>pages. pages \<noteq> [] \<and> length (ep_events (last pages)) < pc_page_limit config
              \<and> (\<forall>page \<in> set (butlast pages). pc_page_limit config \<le> length (ep_events page))
              \<and> ev = concat (map (page_deeds feed pool) pages)
                  @ [Sent (PollerTick pool tick), Acknowledged (lt_sequence tick), CursorSet (lt_sequence tick)])
       | _ \<Rightarrow> \<forall>d \<in> set ev. \<not> is_cursor_set d)"
proof -
  from poll_once_parts [OF assms] obtain before ev where 1: "log' = log @ before @ ev" "gap_only pool gap gap' before"
    and "pass_spec feed pool config r ev" by blast
  then have "case r of
         Inr (Some tick) \<Rightarrow>
           (\<exists>pages. pages \<noteq> [] \<and> length (ep_events (last pages)) < pc_page_limit config
              \<and> (\<forall>page \<in> set (butlast pages). pc_page_limit config \<le> length (ep_events page))
              \<and> ev = concat (map (page_deeds feed pool) pages)
                  @ [Sent (PollerTick pool tick), Acknowledged (lt_sequence tick), CursorSet (lt_sequence tick)])
       | _ \<Rightarrow> \<forall>d \<in> set ev. \<not> is_cursor_set d"
    by (auto simp: pass_spec_def delivered_def drained_pages_def split: sum.splits option.splits)
  with 1 show ?thesis by blast
qed

text \<open>
  C38: a pass always returns, however the RPC pages, and reports a lost range at most once:
  a gap is sent only for a cursor not yet reported, and is then remembered.
\<close>

theorem pass_returns_and_reports_gap_once:
  "\<exists>r gap' w' log'. poll_once feed pool config gap (w, log) = Some (r, gap', w', log')
     \<and> (\<exists>ev. log' = log @ ev \<and> length (filter is_gap ev) \<le> 1
          \<and> (\<forall>p from oldest. Sent (PollerGap p from oldest) \<in> set ev \<longrightarrow> gap \<noteq> Some from \<and> gap' = Some from \<and> p = pool)
          \<and> (filter is_gap ev = [] \<longrightarrow> gap' = gap))"
proof -
  obtain l w1 log1 where loc: "locate feed pool gap (w, log) = Some (l, w1, log1)" using returnsD [OF locate_returns [of feed pool gap], of "(w, log)"] by auto
  have "\<exists>r gap' w' log'. poll_once feed pool config gap (w, log) = Some (r, gap', w', log')"
  proof (cases l)
    case (Inr x)
    obtain head start g where x: "x = (head, start, g)" by (cases x)
    obtain r w' log' where "deliver feed pool config head start (w1, log1) = Some (r, w', log')"
      using returnsD [OF deliver_returns [of feed pool config head start], of "(w1, log1)"] by auto
    then show ?thesis by (simp add: poll_once_def loc Inr x)
  qed (simp add: poll_once_def loc)
  then obtain r gap' w' log' where run: "poll_once feed pool config gap (w, log) = Some (r, gap', w', log')" by blast
  from poll_once_parts [OF run] obtain before ev where log': "log' = log @ before @ ev"
    and g: "gap_only pool gap gap' before" and "pass_spec feed pool config r ev" by blast
  then have ev: "\<forall>d \<in> set ev. \<not> is_gap d" by (simp add: pass_spec_def)
  then have f: "filter is_gap ev = []" by simp
  have nosent: "Sent (PollerGap p from oldest) \<notin> set ev" for p "from" oldest using ev by force
  have "\<exists>ev. log' = log @ ev \<and> length (filter is_gap ev) \<le> 1
      \<and> (\<forall>p from oldest. Sent (PollerGap p from oldest) \<in> set ev \<longrightarrow> gap \<noteq> Some from \<and> gap' = Some from \<and> p = pool)
      \<and> (filter is_gap ev = [] \<longrightarrow> gap' = gap)"
    by (intro exI [of _ "before @ ev"]) (use g log' f nosent in \<open>auto simp: gap_only_def\<close>)
  with run show ?thesis by blast
qed

section \<open>The pace of the loop\<close>

text \<open>A run of failed passes that does not end in a closed channel.\<close>

fun fail_times :: "poller_config \<Rightarrow> nat \<Rightarrow> pace \<Rightarrow> pace" where
  "fail_times config 0 pace = pace"
| "fail_times config (Suc n) pace =
     (case after_pass config (Err (NotApplied 0) :: (ledger_error, unit) result) (fail_times config n pace) of
        Some (_, pace, _) \<Rightarrow> pace | None \<Rightarrow> pace)"

text \<open>
  Whatever the failures are, the pauses double from the first backoff and never pass the
  longest, and the failure that makes five in a row is the only one of a streak that is
  reported.
\<close>

lemma fail_times_pace:
  assumes "pc_min_backoff config \<le> pc_max_backoff config" "n \<le> u32_max"
  shows "fail_times config n (start_pace config)
    = \<lparr>pa_backoff = min (2 ^ n * pc_min_backoff config) (pc_max_backoff config), pa_failures = n\<rparr>"
  using assms(2)
proof (induction n)
  case (Suc n)
  then show ?case
    by (simp add: after_pass_def Let_def saturating_add_u32_def min_def)
qed (use assms(1) in \<open>simp add: start_pace_def\<close>)

lemma after_pass_error:
  assumes "e \<noteq> LedgerClosed"
  shows "after_pass config (Err e) pace = after_pass config (Err (NotApplied 0) :: (ledger_error, unit) result) pace"
  using assms by (cases e) (simp_all add: after_pass_def)

lemma reported_once_per_streak:
  assumes "pc_min_backoff config \<le> pc_max_backoff config" "n < u32_max" "e \<noteq> LedgerClosed"
  shows "after_pass config (Err e) (fail_times config n (start_pace config))
    = Some (min (2 ^ n * pc_min_backoff config) (pc_max_backoff config),
            fail_times config (Suc n) (start_pace config), n = 4)"
proof -
  have "fail_times config (Suc n) (start_pace config)
    = \<lparr>pa_backoff = min (2 ^ Suc n * pc_min_backoff config) (pc_max_backoff config), pa_failures = Suc n\<rparr>"
    using fail_times_pace [of config "Suc n"] assms by simp
  then show ?thesis
    unfolding after_pass_error [OF assms(3)] using fail_times_pace [of config n] assms(1,2)
    by (auto simp: after_pass_def Let_def saturating_add_u32_def RPC_FAILING_AFTER_def)
qed

section \<open>A concrete pass\<close>

definition sample_event :: chain_event where
  "sample_event = \<lparr>ce_contract_id = ''P'', ce_ledger = 9, ce_in_successful_contract_call = True,
     ce_topics = ScSymbol ''borrow'' # emitted_topics (Borrow ''USDC'' ''G'' 7 6),
     ce_value = emitted_data (Borrow ''USDC'' ''G'' 7 6)\<rparr>"

definition sample_page :: events_page where
  "sample_page = \<lparr>ep_events = [sample_event], ep_cursor = None\<rparr>"

text \<open>A feed whose head is ledger 10, with one event, and whose cursor is at \<open>stored\<close>.\<close>

definition sample_feed :: "nat \<Rightarrow> unit feed" where
  "sample_feed stored = \<lparr>fe_health = (\<lambda>w. (Ok \<lparr>he_oldest_ledger = 5\<rparr>, w)),
     fe_latest_ledger = (\<lambda>w. (Ok \<lparr>ll_sequence = 10, ll_close_time = 100\<rparr>, w)),
     fe_events = (\<lambda>_ w. (Ok sample_page, w)),
     fe_cursor = (\<lambda>_ w. (Ok (Some \<lparr>cu_ledger = stored, cu_paging_token = None\<rparr>), w)),
     fe_set_cursor = (\<lambda>_ _ w. (Ok (), w)), fe_send = (\<lambda>_ w. (True, w)), fe_ack = (\<lambda>w. (True, w))\<rparr>"

abbreviation sample_tick :: ledger_tick where
  "sample_tick \<equiv> \<lparr>lt_sequence = 10, lt_close_time = 100\<rparr>"

abbreviation sample_deeds :: "deed list" where
  "sample_deeds \<equiv> [Fetched sample_page, Sent (PollerEvent ''P'' 9 (Borrow ''USDC'' ''G'' 7 6)), Sent (PollerTick ''P'' sample_tick),
     Acknowledged 10, CursorSet 10]"

lemmas pass_ops = poller_send_def await_ack_def commit_cursor_def chain_op_def store_op_def
  io_bind_def io_op_def io_lift_def

lemma sample_locate:
  "locate (sample_feed 8) ''P'' None ((), [])
     = Some (Ok (\<lparr>ll_sequence = 10, ll_close_time = 100\<rparr>, 9, None), (), [])"
  "locate (sample_feed 2) ''P'' None ((), [])
     = Some (Ok (\<lparr>ll_sequence = 10, ll_close_time = 100\<rparr>, 5, Some 2), (), [Sent (PollerGap ''P'' 2 5)])"
  by (simp_all add: locate_def find_start_def pass_ops sample_feed_def saturating_add_u32_def u32_max_def)

lemma sample_event_reads:
  "ce_contract_id sample_event = ''P''" "ce_in_successful_contract_call sample_event" "ce_ledger sample_event = 9"
  "decode_pool_event (ce_topics sample_event) (ce_value sample_event) = Ok (Some (Borrow ''USDC'' ''G'' 7 6))"
  using decode_emitted [of "Borrow ''USDC'' ''G'' 7 6"] by (simp_all add: sample_event_def i128_defs)

lemma sample_send:
  "send_events (sample_feed n) ''P'' [sample_event] ((), log)
     = Some (Ok (), (), log @ [Sent (PollerEvent ''P'' 9 (Borrow ''USDC'' ''G'' 7 6))])"
  by (simp add: sample_event_reads pass_ops) (simp add: sample_feed_def io_lift_def)

lemma sample_fetch:
  "fetch_page (sample_feed n) query ((), log) = Some (Ok sample_page, (), log @ [Fetched sample_page])"
  by (simp add: fetch_page_def sample_feed_def)

lemma sample_page_reads: "ep_events sample_page = [sample_event]"
  by (simp add: sample_page_def)

lemma sample_drain:
  "drain_events (sample_feed n) ''P'' (poller_config_new 5000) start ((), log)
     = Some (Ok \<lparr>dr_drained = True, dr_pages = 1, dr_stall_reason = None\<rparr>, (),
             log @ [Fetched sample_page, Sent (PollerEvent ''P'' 9 (Borrow ''USDC'' ''G'' 7 6))])"
  unfolding drain_events_def
  by (subst drain_loop.simps)
    (simp add: sample_fetch sample_page_reads sample_send page_verdict_def poller_config_new_def del: send_events.simps)

lemma sample_deliver:
  assumes "start \<le> 10"
  shows "deliver (sample_feed n) ''P'' (poller_config_new 5000) \<lparr>ll_sequence = 10, ll_close_time = 100\<rparr> start ((), log)
     = Some (Ok (Some sample_tick), (), log @ sample_deeds)"
  using assms by (simp add: deliver_def io_bind_def sample_drain)
    (simp add: Let_def pass_ops sample_feed_def)

lemma sample_pass:
  "poll_once (sample_feed 8) ''P'' (poller_config_new 5000) None ((), [])
     = Some (Ok (Some sample_tick), None, (), sample_deeds)"
  by (simp add: poll_once_def sample_locate sample_deliver)

lemma sample_gap_pass:
  "poll_once (sample_feed 2) ''P'' (poller_config_new 5000) None ((), [])
     = Some (Ok (Some sample_tick), Some 2, (), Sent (PollerGap ''P'' 2 5) # sample_deeds)"
  by (simp add: poll_once_def sample_locate sample_deliver)

theorem cursor_follows_acknowledgement_witness:
  "\<exists>before ev. sample_deeds = before @ ev
    \<and> (\<exists>pages. ev = concat (map (page_deeds (sample_feed 8) ''P'') pages)
         @ [Sent (PollerTick ''P'' sample_tick), Acknowledged 10, CursorSet 10])"
  using cursor_follows_acknowledgement [OF sample_pass] by auto

theorem pass_returns_and_reports_gap_once_witness:
  "length (filter is_gap (Sent (PollerGap ''P'' 2 5) # sample_deeds)) \<le> 1"
  using pass_returns_and_reports_gap_once [of "sample_feed 2" "''P''" "poller_config_new 5000" None "()" "[]"]
  by (auto simp: sample_gap_pass)

end
