(* ===== verification/Rpc_Reads.thy ===== *)
theory Rpc_Reads
  imports Chain_Tx Ledger_Poller Xdr_Decode
begin

text \<open>
  The read side of \<open>src/chain/rpc.rs\<close>: \<open>getLedgerEntries\<close> in batches, the account entry, the
  fee statistics and one page of events. One JSON-RPC exchange is an operation of the world
  (\<open>Chain_Rpc.rpc_call\<close> is what it answers from), and the base64 codec belongs to \<open>stellar_xdr\<close>.
  The log holds the ledger each answered read describes.
\<close>

section \<open>Definitions\<close>

record raw_entry =
  ry_key :: string
  ry_xdr :: string
  ry_last_modified_ledger_seq :: nat
  ry_live_until_ledger_seq :: "nat option"

record raw_entries =
  rn_latest_ledger :: nat
  rn_entries :: "raw_entry list"

record ledger_entry =
  le_data :: ledger_entry_data
  le_last_modified_ledger :: nat
  le_live_until_ledger :: "nat option"

record ledger_entries =
  ls_latest_ledger :: nat
  ls_entries :: "(string, ledger_entry) btree"

record raw_fee_stats =
  rf_p70 :: string
  rf_p90 :: string
  rf_latest_ledger :: nat

record raw_event =
  rv_ledger :: nat
  rv_id :: string
  rv_tx_hash :: string
  rv_contract_id :: string
  rv_in_successful_contract_call :: bool
  rv_topic :: "string list"
  rv_value :: string

record raw_events =
  rq_latest_ledger :: nat
  rq_cursor :: "string option"
  rq_events :: "raw_event list"

text \<open>The parameters of \<open>getEvents\<close>.\<close>

record events_params =
  gp_filters :: "string list list"
  gp_limit :: nat
  gp_start_ledger :: "nat option"
  gp_cursor :: "string option"

definition ENTRY_BATCH :: nat where
  "ENTRY_BATCH = 200"

definition IDS_PER_FILTER :: nat where
  "IDS_PER_FILTER = 5"

definition FILTERS_PER_CALL :: nat where
  "FILTERS_PER_CALL = 5"

text \<open>A simulated view call: its ledger, and the value it returned or why it failed.\<close>

datatype view_outcome = ViewSuccess scval | ViewFailure string "nat option"

record 'w reads =
  re_lib :: xdr_lib
  re_key_text :: "ledger_key \<Rightarrow> (string, string) result"
  re_entry :: "string \<Rightarrow> (string, ledger_entry_data) result"
  re_scval :: "string \<Rightarrow> (string, scval) result"
  re_account_id :: "string \<Rightarrow> string option"
  re_get_entries :: "string list \<Rightarrow> 'w \<Rightarrow> raw_entries chain_result \<times> 'w"
  re_get_fee_stats :: "'w \<Rightarrow> raw_fee_stats chain_result \<times> 'w"
  re_get_events :: "events_params \<Rightarrow> 'w \<Rightarrow> raw_events chain_result \<times> 'w"
  re_simulate :: "contract_call \<Rightarrow> 'w \<Rightarrow> (nat \<times> view_outcome) chain_result \<times> 'w"

type_synonym ('w, 'a) fetch = "('w, nat, chain_error, 'a) act"

text \<open>\<open>?\<close> on an \<open>XdrError\<close> and on a \<open>MathError\<close>.\<close>

definition chain_xdr :: "'a xdr_result \<Rightarrow> 'a chain_result" where
  "chain_xdr r = (case r of Inl e \<Rightarrow> Err (Xdr e) | Inr x \<Rightarrow> Ok x)"

definition chain_math :: "'a math_result \<Rightarrow> 'a chain_result" where
  "chain_math r = (case r of Inl e \<Rightarrow> Err (Math e) | Inr x \<Rightarrow> Ok x)"

text \<open>\<open>slice::chunks\<close>.\<close>

function chunks :: "nat \<Rightarrow> 'a list \<Rightarrow> 'a list list" where
  "chunks n xs = (if n = 0 \<or> xs = [] then [] else take n xs # chunks n (drop n xs))"
  by pat_completeness auto

termination
  by (relation "measure (\<lambda>(_, xs). length xs)") auto

declare chunks.simps [simp del]

subsection \<open>Ledger entries\<close>

text \<open>\<open>LedgerEntries::get\<close>.\<close>

definition get_entry :: "'w reads \<Rightarrow> ledger_entries \<Rightarrow> ledger_key \<Rightarrow> ledger_entry option chain_result" where
  "get_entry reads entries key =
     rbind (xdr (re_key_text reads key)) (\<lambda>text. Ok (bt_get (ls_entries entries) text))"

definition fetch_batch :: "'w reads \<Rightarrow> string list \<Rightarrow> ('w, raw_entries) fetch" where
  "fetch_batch reads batch = (\<lambda>(w, log).
     case re_get_entries reads batch w of
       (Inl e, w) \<Rightarrow> Some (Err e, w, log)
     | (Inr raw, w) \<Rightarrow> Some (Ok raw, w, log @ [rn_latest_ledger raw]))"

text \<open>The entries of one batch, those not asked for dropped.\<close>

definition keep_entry ::
  "'w reads \<Rightarrow> string list \<Rightarrow> raw_entry \<Rightarrow> (string, ledger_entry) btree \<Rightarrow> (string, ledger_entry) btree chain_result" where
  "keep_entry reads requested entry entries =
     (if ry_key entry \<notin> set requested then Ok entries
      else
        rbind (xdr (re_entry reads (ry_xdr entry))) (\<lambda>data.
        Ok (bt_insert (ry_key entry) \<lparr>le_data = data, le_last_modified_ledger = ry_last_modified_ledger_seq entry,
          le_live_until_ledger = ry_live_until_ledger_seq entry\<rparr> entries)))"

fun read_batches ::
  "'w reads \<Rightarrow> string list \<Rightarrow> nat option \<Rightarrow> (string, ledger_entry) btree \<Rightarrow> string list list
   \<Rightarrow> ('w, nat option \<times> (string, ledger_entry) btree) fetch" where
  "read_batches reads requested latest entries [] = io_lift (Ok (latest, entries))"
| "read_batches reads requested latest entries (batch # rest) =
     io_bind (fetch_batch reads batch) (\<lambda>raw.
     if latest \<noteq> None \<and> latest \<noteq> Some (rn_latest_ledger raw)
     then io_lift (Err (LedgerMoved (the latest) (rn_latest_ledger raw)))
     else
       io_bind (io_lift (rfold (keep_entry reads requested) (rn_entries raw) entries)) (\<lambda>entries.
       read_batches reads requested (Some (rn_latest_ledger raw)) entries rest))"

definition read_ledger_entries :: "'w reads \<Rightarrow> ledger_key list \<Rightarrow> ('w, ledger_entries) fetch" where
  "read_ledger_entries reads keys =
     (if keys = [] then io_lift (Err (Config ''getLedgerEntries needs at least one key''))
      else
        io_bind (io_lift (rmap_list (\<lambda>key. xdr (re_key_text reads key)) keys)) (\<lambda>encoded_keys.
        io_bind (read_batches reads encoded_keys None [] (chunks ENTRY_BATCH encoded_keys)) (\<lambda>(latest, entries).
        io_lift (Ok \<lparr>ls_latest_ledger = (case latest of None \<Rightarrow> 0 | Some l \<Rightarrow> l), ls_entries = entries\<rparr>))))"

subsection \<open>The account and the fees\<close>

definition read_account :: "'w reads \<Rightarrow> string \<Rightarrow> ('w, account) fetch" where
  "read_account reads strkey =
     io_bind (io_lift (ok_or (Xdr (XdrAddress strkey)) (re_account_id reads strkey))) (\<lambda>account_id.
     let key = AccountKey account_id in
     io_bind (read_ledger_entries reads [key]) (\<lambda>entries.
     io_bind (io_lift (get_entry reads entries key)) (\<lambda>entry.
     case entry of
       None \<Rightarrow> io_lift (Err (NoAccount strkey))
     | Some entry \<Rightarrow>
         (case le_data entry of
            AccountEntry seq_num \<Rightarrow> io_lift (Ok \<lparr>ac_sequence = seq_num, ac_latest_ledger = ls_latest_ledger entries\<rparr>)
          | _ \<Rightarrow> io_lift (Err (Shape NotAnAccountEntry))))))"

definition read_percentile :: "string \<Rightarrow> string \<Rightarrow> nat chain_result" where
  "read_percentile name text = ok_or (Shape (FeePercentile name text)) (parse_u32 text)"

definition read_fee_stats :: "'w reads \<Rightarrow> ('w, fee_stats) fetch" where
  "read_fee_stats reads =
     io_bind (io_op (re_get_fee_stats reads)) (\<lambda>raw.
     io_bind (io_lift (read_percentile ''p70'' (rf_p70 raw))) (\<lambda>p70.
     io_bind (io_lift (read_percentile ''p90'' (rf_p90 raw))) (\<lambda>p90.
     io_lift (Ok \<lparr>fs_soroban_percentile_70 = p70, fs_soroban_percentile_90 = p90,
                  fs_latest_ledger = rf_latest_ledger raw\<rparr>))))"

subsection \<open>Events\<close>

definition events_request :: "event_query \<Rightarrow> events_params chain_result" where
  "events_request query =
     (if eq_limit query = 0 \<or> 10000 < eq_limit query then Err (Config ''getEvents limit is 1 to 10000'')
      else
        let filters = chunks IDS_PER_FILTER (eq_contract_ids query) in
        if filters = [] \<or> FILTERS_PER_CALL < length filters then Err (Config ''getEvents takes 1 to 25 contract ids'')
        else
          case (eq_start_ledger query, eq_cursor query) of
            (Some start, None) \<Rightarrow>
              Ok \<lparr>gp_filters = filters, gp_limit = eq_limit query, gp_start_ledger = Some start, gp_cursor = None\<rparr>
          | (None, Some cursor) \<Rightarrow>
              Ok \<lparr>gp_filters = filters, gp_limit = eq_limit query, gp_start_ledger = None, gp_cursor = Some cursor\<rparr>
          | _ \<Rightarrow> Err (Config ''getEvents needs a start ledger or a cursor, not both''))"

definition read_event :: "'w reads \<Rightarrow> raw_event \<Rightarrow> chain_event chain_result" where
  "read_event reads event =
     rbind (rmap_list (\<lambda>topic. xdr (re_scval reads topic)) (rv_topic event)) (\<lambda>topics.
     rbind (from_hex (rv_tx_hash event)) (\<lambda>_.
     rbind (xdr (re_scval reads (rv_value event))) (\<lambda>val.
     Ok \<lparr>ce_contract_id = rv_contract_id event, ce_ledger = rv_ledger event,
         ce_in_successful_contract_call = rv_in_successful_contract_call event, ce_topics = topics, ce_value = val\<rparr>)))"

definition read_events :: "'w reads \<Rightarrow> event_query \<Rightarrow> ('w, events_page) fetch" where
  "read_events reads query =
     io_bind (io_lift (events_request query)) (\<lambda>params.
     io_bind (io_op (re_get_events reads params)) (\<lambda>raw.
     io_bind (io_lift (rmap_list (read_event reads) (rq_events raw))) (\<lambda>events.
     io_lift (Ok \<lparr>ep_events = events, ep_cursor = rq_cursor raw\<rparr>))))"

section \<open>Reads describe one ledger\<close>

lemma chunks_Nil [simp]: "chunks n [] = []"
  by (simp add: chunks.simps)

lemma chunks_not_Nil: "0 < n \<Longrightarrow> xs \<noteq> [] \<Longrightarrow> chunks n xs \<noteq> []"
  by (subst chunks.simps) simp

lemma concat_chunks: "0 < n \<Longrightarrow> concat (chunks n xs) = xs"
proof (induction n xs rule: chunks.induct)
  case (1 n xs)
  then show ?case by (subst chunks.simps) simp
qed

lemma fetch_batch_logs:
  "logs (fetch_batch reads batch) (\<lambda>r ev. case r of Inl _ \<Rightarrow> ev = [] | Inr raw \<Rightarrow> ev = [rn_latest_ledger raw])"
  by (rule logsI) (auto simp: fetch_batch_def split: prod.splits sum.splits)

definition batches_agree :: "nat option \<Rightarrow> 'b list \<Rightarrow> (chain_error, nat option \<times> 'a) result \<Rightarrow> nat list \<Rightarrow> bool" where
  "batches_agree latest batches r ev \<longleftrightarrow>
     (case r of Inl _ \<Rightarrow> True
      | Inr (latest', _) \<Rightarrow> (\<forall>l \<in> set ev. latest' = Some l) \<and> (latest \<noteq> None \<longrightarrow> latest' = latest) \<and> length ev = length batches)"

lemma read_batches_logs: "logs (read_batches reads requested latest entries batches) (batches_agree latest batches)"
proof (induction batches arbitrary: latest entries)
  case Nil
  show ?case by (simp add: logs_lift batches_agree_def)
next
  case (Cons batch rest)
  have step: "logs (if latest \<noteq> None \<and> latest \<noteq> Some (rn_latest_ledger raw)
       then io_lift (Err (LedgerMoved (the latest) (rn_latest_ledger raw)))
       else io_bind (io_lift (rfold (keep_entry reads requested) (rn_entries raw) entries))
              (\<lambda>entries. read_batches reads requested (Some (rn_latest_ledger raw)) entries rest))
     (\<lambda>r ev'. batches_agree latest (batch # rest) r (ev @ ev'))" if "ev = [rn_latest_ledger raw]" for raw ev
  proof (cases "latest \<noteq> None \<and> latest \<noteq> Some (rn_latest_ledger raw)")
    case False
    have "logs (io_bind (io_lift (rfold (keep_entry reads requested) (rn_entries raw) entries))
        (\<lambda>entries. read_batches reads requested (Some (rn_latest_ledger raw)) entries rest))
      (batches_agree (Some (rn_latest_ledger raw)) rest)"
      by (rule logs_quiet_bind [OF quiet_lift Cons.IH]) (simp add: batches_agree_def)
    then have "logs (io_bind (io_lift (rfold (keep_entry reads requested) (rn_entries raw) entries))
        (\<lambda>entries. read_batches reads requested (Some (rn_latest_ledger raw)) entries rest))
      (\<lambda>r ev'. batches_agree latest (batch # rest) r (ev @ ev'))"
      by (rule logs_mono) (use False that in \<open>auto simp: batches_agree_def split: sum.splits\<close>)
    then show ?thesis unfolding if_not_P [OF False] .
  qed (simp add: logs_lift batches_agree_def)
  show ?case
    unfolding read_batches.simps
    by (rule logs_seq [OF fetch_batch_logs], rule step, simp) (simp add: batches_agree_def)
qed

definition at_one_ledger :: "('a \<Rightarrow> nat) \<Rightarrow> (chain_error, 'a) result \<Rightarrow> nat list \<Rightarrow> bool" where
  "at_one_ledger f r ev \<longleftrightarrow> (case r of Inl _ \<Rightarrow> True | Inr x \<Rightarrow> set ev = {f x})"

lemma at_one_ledger_simps [simp]: "at_one_ledger f (Err e) ev" "at_one_ledger f (Ok x) ev \<longleftrightarrow> set ev = {f x}"
  by (simp_all add: at_one_ledger_def)

lemma read_ledger_entries_logs: "logs (read_ledger_entries reads keys) (at_one_ledger ls_latest_ledger)"
proof (cases "keys = []")
  case True
  then show ?thesis by (simp add: read_ledger_entries_def logs_lift at_one_ledger_def)
next
  case False
  have "logs (io_bind (read_batches reads ks None [] (chunks ENTRY_BATCH ks)) (\<lambda>(latest, entries).
      io_lift (Ok \<lparr>ls_latest_ledger = (case latest of None \<Rightarrow> 0 | Some l \<Rightarrow> l), ls_entries = entries\<rparr>)))
      (at_one_ledger ls_latest_ledger)" if "ks \<noteq> []" for ks
  proof (rule logs_seq [OF read_batches_logs])
    fix x ev
    assume "batches_agree None (chunks ENTRY_BATCH ks) (Ok x :: (chain_error, nat option \<times> (string, ledger_entry) btree) result) ev"
    moreover have "chunks ENTRY_BATCH ks \<noteq> []" using that by (intro chunks_not_Nil) (simp_all add: ENTRY_BATCH_def)
    ultimately show "logs (case x of (latest, entries) \<Rightarrow>
        io_lift (Ok \<lparr>ls_latest_ledger = (case latest of None \<Rightarrow> 0 | Some l \<Rightarrow> l), ls_entries = entries\<rparr>))
      (\<lambda>r ev'. at_one_ledger ls_latest_ledger r (ev @ ev'))"
      by (cases x; cases ev) (auto simp: batches_agree_def at_one_ledger_def intro!: logs_lift)
  qed (simp add: at_one_ledger_def)
  moreover have "ks \<noteq> []" if "rmap_list (\<lambda>key. xdr (re_key_text reads key)) keys = Ok ks" for ks
    using that False by (auto simp: rmap_list_Ok)
  ultimately show ?thesis
    unfolding read_ledger_entries_def if_not_P [OF False] by (intro logs_seq [OF logs_lift_eq]) auto
qed

end
