(* ===== verification/Pool_Reader.thy ===== *)
theory Pool_Reader
  imports Rpc_Reads
begin

text \<open>
  \<open>src/chain/pool.rs\<close>: one ledger's view of a pool. A snapshot takes several reads and is
  refused unless every one of them describes the same ledger; positions are valued on
  reserves accrued to one instant that no stored reserve is ahead of.
\<close>

section \<open>Definitions\<close>

record pool_snapshot =
  sn_ledger :: nat
  sn_pool :: string
  sn_instance :: pool_instance
  sn_reserves :: "(nat, reserve) btree"
  sn_asset_index :: "(string, nat) btree"
  sn_prices :: oracle_prices
  sn_price_timestamps :: "(string, nat) btree"
  sn_positions :: "(string, positions) btree"

subsection \<open>Valuing\<close>

definition valued_at :: "pool_snapshot \<Rightarrow> nat \<Rightarrow> nat" where
  "valued_at self close_time =
     max (fold max (map (\<lambda>r. rd_last_time (rs_data r)) (bt_values (sn_reserves self))) 0) close_time"

definition accrue_entry :: "nat \<Rightarrow> nat \<Rightarrow> nat \<times> reserve \<Rightarrow> (nat \<times> reserve) math_result" where
  "accrue_entry bstop_rate at = (\<lambda>(index, r). rbind (accrue r bstop_rate at) (\<lambda>r. Ok (index, r)))"

definition accrued_reserves :: "pool_snapshot \<Rightarrow> nat \<Rightarrow> (nat, reserve) btree math_result" where
  "accrued_reserves self at =
     (let at = valued_at self at in
      rmap_list (accrue_entry (po_bstop_rate (pi_config (sn_instance self))) at) (sn_reserves self))"

definition snapshot_position_data :: "pool_snapshot \<Rightarrow> string \<Rightarrow> nat \<Rightarrow> position_data option chain_result" where
  "snapshot_position_data self user close_time =
     (case bt_get (sn_positions self) user of
        None \<Rightarrow> Ok None
      | Some positions \<Rightarrow>
          if positions_is_empty positions then Ok None
          else
            rbind (chain_math (accrued_reserves self close_time)) (\<lambda>reserves.
            rbind (chain_math (calculate_position_data reserves (sn_prices self) positions)) (\<lambda>data.
            Ok (Some data))))"

subsection \<open>Reading\<close>

definition SNAPSHOT_ATTEMPTS :: nat where
  "SNAPSHOT_ATTEMPTS = 3"

definition same_ledger :: "nat \<Rightarrow> nat \<Rightarrow> unit chain_result" where
  "same_ledger expected actual = (if expected = actual then Ok () else Err (LedgerMoved expected actual))"

text \<open>\<open>view\<close>: the envelope it wraps the call in is a constant, so building it cannot fail.\<close>

definition pool_view :: "'w reads \<Rightarrow> string \<Rightarrow> string \<Rightarrow> scval list \<Rightarrow> ('w, nat \<times> scval) fetch" where
  "pool_view reads contract function args =
     io_bind (io_lift (chain_xdr (invoke_contract_op (re_lib reads) contract function args))) (\<lambda>call (w, log).
     case re_simulate reads call w of
       (Inl e, w) \<Rightarrow> Some (Err e, w, log)
     | (Inr (ledger, ViewSuccess val), w) \<Rightarrow> Some (Ok (ledger, val), w, log @ [ledger])
     | (Inr (ledger, ViewFailure message contract_error), w) \<Rightarrow>
         Some (Err (Simulation message contract_error), w, log @ [ledger]))"

text \<open>An entry that has to be there, decoded.\<close>

definition required ::
  "'w reads \<Rightarrow> ledger_entries \<Rightarrow> ledger_key \<Rightarrow> chain_error \<Rightarrow> (ledger_entry_data \<Rightarrow> 'a xdr_result) \<Rightarrow> 'a chain_result" where
  "required reads entries key missing decode =
     rbind (get_entry reads entries key) (\<lambda>entry.
     rbind (ok_or missing entry) (\<lambda>entry.
     chain_xdr (decode (le_data entry))))"

definition pool_shape :: "'w reads \<Rightarrow> string \<Rightarrow> ('w, nat \<times> pool_instance \<times> string list) fetch" where
  "pool_shape reads pool =
     io_bind (io_lift (chain_xdr (key_instance (re_lib reads) pool))) (\<lambda>instance_key.
     io_bind (io_lift (chain_xdr (key_reserve_list (re_lib reads) pool))) (\<lambda>list_key.
     io_bind (read_ledger_entries reads [instance_key, list_key]) (\<lambda>entries.
     io_bind (io_lift (required reads entries instance_key (Shape (NoPoolEntry pool ''instance'')) decode_pool_instance)) (\<lambda>pool_instance.
     io_bind (io_lift (required reads entries list_key (Shape (NoPoolEntry pool ''reserve list'')) decode_reserve_list)) (\<lambda>assets.
     io_lift (Ok (ls_latest_ledger entries, pool_instance, assets)))))))"

text \<open>One turn of the loop over the assets' prices.\<close>

definition read_price ::
  "'w reads \<Rightarrow> string \<Rightarrow> nat \<Rightarrow> string \<Rightarrow> (string, int) btree \<times> (string, nat) btree
   \<Rightarrow> ('w, (string, int) btree \<times> (string, nat) btree) fetch" where
  "read_price reads oracle ledger asset = (\<lambda>(prices, timestamps).
     io_bind (io_lift (chain_xdr (stellar_asset (re_lib reads) asset))) (\<lambda>arg.
     io_bind (pool_view reads oracle ''lastprice'' [arg]) (\<lambda>(at, val).
     io_bind (io_lift (same_ledger ledger at)) (\<lambda>_.
     io_bind (io_lift (chain_xdr (decode_price_data val))) (\<lambda>price.
     io_lift (Ok (case price of
         Some price \<Rightarrow> (bt_insert asset (pd_price price) prices, bt_insert asset (pd_timestamp price) timestamps)
       | None \<Rightarrow> (prices, timestamps))))))))"

fun read_prices ::
  "'w reads \<Rightarrow> string \<Rightarrow> nat \<Rightarrow> string list \<Rightarrow> (string, int) btree \<times> (string, nat) btree
   \<Rightarrow> ('w, (string, int) btree \<times> (string, nat) btree) fetch" where
  "read_prices reads oracle ledger [] acc = io_lift (Ok acc)"
| "read_prices reads oracle ledger (asset # assets) acc =
     io_bind (read_price reads oracle ledger asset acc) (\<lambda>acc. read_prices reads oracle ledger assets acc)"

definition pool_prices ::
  "'w reads \<Rightarrow> string \<Rightarrow> string list \<Rightarrow> nat \<Rightarrow> ('w, oracle_prices \<times> (string, nat) btree) fetch" where
  "pool_prices reads oracle assets ledger =
     io_bind (pool_view reads oracle ''decimals'' []) (\<lambda>(at, decimals).
     io_bind (io_lift (same_ledger ledger at)) (\<lambda>_.
     io_bind (io_lift (chain_xdr (decode_decimals decimals))) (\<lambda>decimals.
     io_bind (read_prices reads oracle ledger assets ([], [])) (\<lambda>(prices, timestamps).
     io_bind (io_lift (chain_math (oracle_new decimals prices))) (\<lambda>oracle_prices.
     io_lift (Ok (oracle_prices, timestamps)))))))"

definition asset_keys :: "'w reads \<Rightarrow> string \<Rightarrow> string \<Rightarrow> ledger_key list chain_result" where
  "asset_keys reads pool asset =
     rbind (chain_xdr (key_reserve_config (re_lib reads) pool asset)) (\<lambda>config.
     rbind (chain_xdr (key_reserve_data (re_lib reads) pool asset)) (\<lambda>data.
     Ok [config, data]))"

text \<open>One turn of the loop that builds the reserves.\<close>

definition read_reserve ::
  "'w reads \<Rightarrow> string \<Rightarrow> ledger_entries \<Rightarrow> string \<Rightarrow> (nat, reserve) btree \<times> (string, nat) btree
   \<Rightarrow> ((nat, reserve) btree \<times> (string, nat) btree) chain_result" where
  "read_reserve reads pool entries asset = (\<lambda>(reserves, asset_index).
     rbind (chain_xdr (key_reserve_config (re_lib reads) pool asset)) (\<lambda>config_key.
     rbind (required reads entries config_key (Shape (NoReserveEntry asset ''config'')) decode_reserve_config) (\<lambda>config.
     rbind (chain_xdr (key_reserve_data (re_lib reads) pool asset)) (\<lambda>data_key.
     rbind (required reads entries data_key (Shape (NoReserveEntry asset ''data'')) decode_reserve_data) (\<lambda>data.
     rbind (chain_math (reserve_new asset config data)) (\<lambda>r.
     let index = rc_index (rs_config r) in
     if bt_get reserves index \<noteq> None then Err (Shape (TwoReserves pool index))
     else Ok (bt_insert index r reserves, bt_insert asset index asset_index)))))))"

definition read_positions ::
  "'w reads \<Rightarrow> string \<Rightarrow> ledger_entries \<Rightarrow> string \<Rightarrow> (string, positions) btree \<Rightarrow> (string, positions) btree chain_result" where
  "read_positions reads pool entries user acc =
     rbind (chain_xdr (key_positions (re_lib reads) pool user)) (\<lambda>key.
     rbind (get_entry reads entries key) (\<lambda>entry.
     rbind (case entry of
              Some entry \<Rightarrow> chain_xdr (decode_positions (le_data entry))
            | None \<Rightarrow> Ok positions_default) (\<lambda>positions.
     Ok (bt_insert user positions acc))))"

text \<open>\<open>snapshot_once\<close> after the shape is known.\<close>

definition snapshot_body :: "'w reads \<Rightarrow> string \<Rightarrow> string list \<Rightarrow> nat \<times> pool_instance \<times> string list \<Rightarrow> ('w, pool_snapshot) fetch" where
  "snapshot_body reads pool users = (\<lambda>(ledger, pool_instance, assets).
     io_bind (io_lift (rmap_list (asset_keys reads pool) assets)) (\<lambda>reserve_keys.
     io_bind (io_lift (rmap_list (\<lambda>user. chain_xdr (key_positions (re_lib reads) pool user)) users)) (\<lambda>user_keys.
     io_bind (read_ledger_entries reads (concat reserve_keys @ user_keys)) (\<lambda>entries.
     io_bind (io_lift (same_ledger ledger (ls_latest_ledger entries))) (\<lambda>_.
     io_bind (io_lift (rfold (read_reserve reads pool entries) assets ([], []))) (\<lambda>(reserves, asset_index).
     io_bind (io_lift (rfold (read_positions reads pool entries) users [])) (\<lambda>positions.
     io_bind (pool_prices reads (po_oracle (pi_config pool_instance)) assets ledger) (\<lambda>(prices, price_timestamps).
     io_lift (Ok \<lparr>sn_ledger = ledger, sn_pool = pool, sn_instance = pool_instance, sn_reserves = reserves,
       sn_asset_index = asset_index, sn_prices = prices, sn_price_timestamps = price_timestamps,
       sn_positions = positions\<rparr>)))))))))"

definition snapshot_once :: "'w reads \<Rightarrow> string \<Rightarrow> string list \<Rightarrow> ('w, pool_snapshot) fetch" where
  "snapshot_once reads pool users = io_bind (pool_shape reads pool) (snapshot_body reads pool users)"

text \<open>The loop of \<open>snapshot\<close>, with the attempts left after this one.\<close>

fun snapshot_loop :: "'w reads \<Rightarrow> string \<Rightarrow> string list \<Rightarrow> nat \<Rightarrow> ('w, pool_snapshot) fetch" where
  "snapshot_loop reads pool users 0 = snapshot_once reads pool users"
| "snapshot_loop reads pool users (Suc n) =
     io_try (snapshot_once reads pool users) (\<lambda>r.
     case r of
       Inl (LedgerMoved first second) \<Rightarrow> snapshot_loop reads pool users n
     | _ \<Rightarrow> io_lift r)"

definition snapshot :: "'w reads \<Rightarrow> string \<Rightarrow> string list \<Rightarrow> ('w, pool_snapshot) fetch" where
  "snapshot reads pool users = snapshot_loop reads pool users (SNAPSHOT_ATTEMPTS - 1)"

definition read_auction ::
  "'w reads \<Rightarrow> string \<Rightarrow> string \<Rightarrow> auction_type \<Rightarrow> ('w, (nat \<times> auction_data) option) fetch" where
  "read_auction reads pool user ty =
     io_bind (io_lift (chain_xdr (key_auction (re_lib reads) pool user ty))) (\<lambda>key.
     io_bind (read_ledger_entries reads [key]) (\<lambda>entries.
     io_bind (io_lift (get_entry reads entries key)) (\<lambda>entry.
     case entry of
       None \<Rightarrow> io_lift (Ok None)
     | Some entry \<Rightarrow>
         io_bind (io_lift (chain_xdr (decode_auction (le_data entry)))) (\<lambda>auction.
         io_lift (Ok (Some (ls_latest_ledger entries, auction)))))))"

definition read_balance :: "'w reads \<Rightarrow> string \<Rightarrow> string \<Rightarrow> ('w, nat \<times> int) fetch" where
  "read_balance reads token strkey =
     io_bind (io_lift (chain_xdr (address (re_lib reads) strkey))) (\<lambda>arg.
     io_bind (pool_view reads token ''balance'' [arg]) (\<lambda>(ledger, val).
     case val of
       ScI128 hi lo \<Rightarrow> io_lift (Ok (ledger, as_i128_parts hi lo))
     | _ \<Rightarrow> io_lift (Err (Xdr (XdrShape ''i128 balance'')))))"

section \<open>Valuing at one instant\<close>

lemma fold_max_ge: "(x :: nat) \<in> set xs \<union> {m} \<Longrightarrow> x \<le> fold max xs m"
proof (induction xs arbitrary: m x)
  case (Cons y ys)
  have "max y m \<le> fold max ys (max y m)" by (rule Cons.IH) simp
  with Cons show ?case by auto
qed simp

lemma valued_at_ge:
  "close_time \<le> valued_at s close_time"
  "(index, r) \<in> set (sn_reserves s) \<Longrightarrow> rd_last_time (rs_data r) \<le> valued_at s close_time"
proof -
  show "rd_last_time (rs_data r) \<le> valued_at s close_time" if "(index, r) \<in> set (sn_reserves s)"
  proof -
    have "rd_last_time (rs_data r) \<le> fold max (map (\<lambda>r. rd_last_time (rs_data r)) (bt_values (sn_reserves s))) 0"
      by (rule fold_max_ge) (use that in \<open>force simp: bt_values_def\<close>)
    then show ?thesis by (simp add: valued_at_def)
  qed
qed (simp add: valued_at_def)

lemma valued_at_idem [simp]: "valued_at s (valued_at s t) = valued_at s t"
  by (simp add: valued_at_def)

lemma accrue_time: "accrue r bstop_rate at = Ok r' \<Longrightarrow> rd_last_time (rs_data r') = at \<and> rs_asset r' = rs_asset r \<and> rs_config r' = rs_config r"
  by (auto simp: accrue_def Let_def rbind_eq_Ok set_data_def split: if_splits)

lemma rmap_list_keys:
  assumes "rmap_list f xs = Ok ys" "\<And>x y. f x = Ok y \<Longrightarrow> k y = k' x"
  shows "map k ys = map k' xs"
  by (rule nth_equalityI) (use assms in \<open>auto simp: rmap_list_Ok\<close>)

lemma accrued_reserves_keys: "accrued_reserves s t = Ok rs \<Longrightarrow> bt_keys rs = bt_keys (sn_reserves s)"
  unfolding accrued_reserves_def bt_keys_def Let_def
  by (erule rmap_list_keys) (auto simp: accrue_entry_def rbind_eq_Ok)

lemma bt_get_same_keys:
  assumes "length ys = length xs" "\<And>i. i < length xs \<Longrightarrow> fst (ys ! i) = fst (xs ! i) \<and> g (snd (xs ! i)) = Ok (snd (ys ! i))"
  shows "(case bt_get xs k of None \<Rightarrow> bt_get ys k = None | Some r \<Rightarrow> \<exists>r'. g r = Ok r' \<and> bt_get ys k = Some r')"
  using assms
proof (induction xs arbitrary: ys)
  case (Cons x xs)
  obtain y ys' where ys: "ys = y # ys'" "fst y = fst x" "g (snd x) = Ok (snd y)"
    using Cons.prems(1) Cons.prems(2) [of 0] by (cases ys) auto
  have "\<And>i. i < length xs \<Longrightarrow> fst (ys' ! i) = fst (xs ! i) \<and> g (snd (xs ! i)) = Ok (snd (ys' ! i))"
    using Cons.prems(2) [of "Suc _"] ys by auto
  from Cons.IH [OF _ this] Cons.prems(1) ys show ?case by (cases x; cases y) (auto split: option.splits)
qed simp

lemma accrued_reserves_get:
  assumes "accrued_reserves s t = Ok rs"
  shows "(case bt_get (sn_reserves s) k of
      None \<Rightarrow> bt_get rs k = None
    | Some r \<Rightarrow> \<exists>r'. accrue r (po_bstop_rate (pi_config (sn_instance s))) (valued_at s t) = Ok r' \<and> bt_get rs k = Some r')"
proof (rule bt_get_same_keys)
  from assms have run: "length rs = length (sn_reserves s)"
    "\<And>i. i < length (sn_reserves s) \<Longrightarrow>
       accrue_entry (po_bstop_rate (pi_config (sn_instance s))) (valued_at s t) (sn_reserves s ! i) = Ok (rs ! i)"
    by (simp_all add: accrued_reserves_def Let_def rmap_list_Ok)
  then show "length rs = length (sn_reserves s)" by simp
  show "fst (rs ! i) = fst (sn_reserves s ! i)
      \<and> accrue (snd (sn_reserves s ! i)) (po_bstop_rate (pi_config (sn_instance s))) (valued_at s t) = Ok (snd (rs ! i))"
    if "i < length (sn_reserves s)" for i
    using run(2) [OF that] by (cases "rs ! i") (auto simp: accrue_entry_def rbind_eq_Ok split_beta)
qed

lemma accrue_not_backwards:
  "rd_last_time (rs_data r) \<le> at \<Longrightarrow> accrue r b at \<noteq> Err (InvalidInput ''now is before last_time'') \<or> rd_last_time (rs_data r) < at"
  by (auto simp: accrue_def Let_def)

section \<open>A snapshot is one ledger\<close>

lemma pool_view_logs: "logs (pool_view reads contract function args) (at_one_ledger fst)"
  unfolding pool_view_def
proof (rule logs_quiet_bind [OF quiet_lift])
  fix call :: contract_call
  show "logs (\<lambda>(w, log). case re_simulate reads call w of
       (Inl e, w) \<Rightarrow> Some (Err e, w, log)
     | (Inr (ledger, ViewSuccess val), w) \<Rightarrow> Some (Ok (ledger, val), w, log @ [ledger])
     | (Inr (ledger, ViewFailure message contract_error), w) \<Rightarrow>
         Some (Err (Simulation message contract_error), w, log @ [ledger])) (at_one_ledger fst)"
    by (rule logsI) (auto simp: split: prod.splits sum.splits view_outcome.splits)
qed simp

text \<open>On success, every ledger logged is \<open>ledger\<close> and the result satisfies \<open>Q\<close>.\<close>

definition within :: "nat \<Rightarrow> ('a \<Rightarrow> bool) \<Rightarrow> (chain_error, 'a) result \<Rightarrow> nat list \<Rightarrow> bool" where
  "within ledger Q r ev \<longleftrightarrow> (case r of Inl _ \<Rightarrow> True | Inr x \<Rightarrow> set ev \<subseteq> {ledger} \<and> Q x)"

lemma within_simps [simp]: "within l Q (Err e) ev" "within l Q (Ok x) ev \<longleftrightarrow> set ev \<subseteq> {l} \<and> Q x"
  by (simp_all add: within_def)

lemma within_bind:
  assumes "logs m (within l P)" "\<And>x. P x \<Longrightarrow> logs (f x) (within l Q)"
  shows "logs (io_bind m f) (within l Q)"
proof (rule logs_seq [OF assms(1)])
  fix x ev
  assume x: "within l P (Ok x) ev"
  then have "logs (f x) (within l Q)" using assms(2) by simp
  then show "logs (f x) (\<lambda>r ev'. within l Q r (ev @ ev'))"
    by (rule logs_mono) (use x in \<open>auto simp: within_def split: sum.splits\<close>)
qed simp

lemma within_lift: "(\<And>x. r = Ok x \<Longrightarrow> Q x) \<Longrightarrow> logs (io_lift r) (within l Q)"
  by (rule logs_lift) (auto simp: within_def split: sum.splits)

lemma within_lift_eq: "logs (io_lift r) (within l (\<lambda>x. r = Ok x))"
  by (rule within_lift)

lemma same_ledger_Ok: "same_ledger a b = Ok u \<longleftrightarrow> a = b"
  by (simp add: same_ledger_def)

text \<open>A read whose ledger is checked against the snapshot's.\<close>

lemma within_checked:
  assumes "logs m (at_one_ledger g)" "\<And>x. logs (k x) (within l Q)"
  shows "logs (io_bind m (\<lambda>x. io_bind (io_lift (same_ledger l (g x))) (\<lambda>_. k x))) (within l Q)"
proof (rule logs_seq [OF assms(1)])
  fix x ev
  assume ev: "at_one_ledger g (Ok x) ev"
  show "logs (io_bind (io_lift (same_ledger l (g x))) (\<lambda>_. k x)) (\<lambda>r ev'. within l Q r (ev @ ev'))"
  proof (cases "g x = l")
    case True
    have "logs (io_bind (io_lift (same_ledger l (g x))) (\<lambda>_. k x)) (within l Q)"
      by (rule within_bind [OF within_lift_eq assms(2)])
    then show ?thesis
      by (rule logs_mono) (use True ev in \<open>auto simp: within_def split: sum.splits\<close>)
  next
    case False
    then show ?thesis by (auto simp: same_ledger_def io_bind_def io_lift_def logs_def)
  qed
qed simp

lemma read_price_logs:
  "bt_wf (fst acc) \<Longrightarrow> logs (read_price reads oracle ledger asset acc) (within ledger (\<lambda>acc. bt_wf (fst acc)))"
  unfolding read_price_def split_beta
  by (rule within_bind [OF within_lift_eq], rule within_checked [OF pool_view_logs],
      rule within_bind [OF within_lift_eq], rule within_lift) (auto split: option.splits)

lemma read_prices_logs:
  "bt_wf (fst acc) \<Longrightarrow> logs (read_prices reads oracle ledger assets acc) (within ledger (\<lambda>acc. bt_wf (fst acc)))"
  by (induction assets arbitrary: acc) (auto intro!: within_bind [OF read_price_logs] within_lift)

lemma pool_prices_logs:
  "logs (pool_prices reads oracle assets ledger) (within ledger (\<lambda>(prices, _). prices_ok prices \<and> bt_wf (op_prices prices)))"
  unfolding pool_prices_def split_beta
proof (rule within_checked [OF pool_view_logs], rule within_bind [OF within_lift_eq], rule within_bind [OF read_prices_logs [of "([], [])", simplified]],
    rule within_bind [OF within_lift_eq], rule within_lift)
  fix x :: "(string, int) btree \<times> (string, nat) btree" and decimals prices y
  assume "bt_wf (fst x)" "chain_math (oracle_new decimals (fst x)) = Ok prices" "Ok (prices, snd x) = (Ok y :: (chain_error, _) result)"
  then show "prices_ok (fst y) \<and> bt_wf (op_prices (fst y))"
    using oracle_prices_positive [of decimals "fst x" prices]
    by (auto simp: chain_math_def oracle_new_def split: sum.splits if_splits)
qed

lemma logs_one_ledger_bind:
  assumes "logs m (at_one_ledger g)" "\<And>x. logs (f x) (\<lambda>r ev. case r of Inl _ \<Rightarrow> True | Inr y \<Rightarrow> h y = g x \<and> set ev \<subseteq> {g x})"
  shows "logs (io_bind m f) (at_one_ledger h)"
  by (rule logs_bind [OF assms]) (auto simp: at_one_ledger_def split: sum.splits)

lemma pool_shape_logs: "logs (pool_shape reads pool) (at_one_ledger fst)"
  unfolding pool_shape_def
  by (rule logs_quiet_bind [OF quiet_lift], rule logs_quiet_bind [OF quiet_lift],
      rule logs_one_ledger_bind [OF read_ledger_entries_logs])
    ((rule logs_quiet_bind [OF quiet_lift] logs_lift | simp)+)

text \<open>
  What a snapshot holds: reserves under their own index, each with its asset listed, a price
  table of positive prices, and the positions of exactly the users asked for.
\<close>

definition reserves_indexed :: "(nat, reserve) btree \<Rightarrow> (string, nat) btree \<Rightarrow> bool" where
  "reserves_indexed reserves asset_index \<longleftrightarrow> bt_wf reserves \<and> bt_wf asset_index
     \<and> (\<forall>i r. bt_get reserves i = Some r \<longrightarrow> rc_index (rs_config r) = i \<and> bt_get asset_index (rs_asset r) = Some i)
     \<and> (\<forall>a i. bt_get asset_index a = Some i \<longrightarrow> (\<exists>r. bt_get reserves i = Some r \<and> rs_asset r = a))"

definition config_of :: "'w reads \<Rightarrow> string \<Rightarrow> ledger_entries \<Rightarrow> string \<Rightarrow> reserve_config chain_result" where
  "config_of reads pool entries asset =
     rbind (chain_xdr (key_reserve_config (re_lib reads) pool asset)) (\<lambda>key.
     required reads entries key (Shape (NoReserveEntry asset ''config'')) decode_reserve_config)"

lemma reserve_new_Ok: "chain_math (reserve_new asset config data) = Ok r \<Longrightarrow> rs_asset r = asset \<and> rs_config r = config"
  by (auto simp: chain_math_def reserve_new_def rbind_eq_Ok split: sum.splits)

lemma read_reserve_step:
  assumes run: "read_reserve reads pool entries asset (reserves, asset_index) = Ok (reserves', asset_index')"
    and inv: "reserves_indexed reserves asset_index" "\<forall>i r. bt_get reserves i = Some r \<longrightarrow> config_of reads pool entries (rs_asset r) = Ok (rs_config r)"
  shows "reserves_indexed reserves' asset_index'
    \<and> (\<forall>i r. bt_get reserves' i = Some r \<longrightarrow> config_of reads pool entries (rs_asset r) = Ok (rs_config r))
    \<and> set (bt_keys asset_index') = insert asset (set (bt_keys asset_index))"
proof -
  from run obtain r where r: "rs_asset r = asset" "config_of reads pool entries asset = Ok (rs_config r)"
    "bt_get reserves (rc_index (rs_config r)) = None"
    "reserves' = bt_insert (rc_index (rs_config r)) r reserves" "asset_index' = bt_insert asset (rc_index (rs_config r)) asset_index"
    by (auto simp: read_reserve_def rbind_eq_Ok config_of_def Let_def dest: reserve_new_Ok split: if_splits)
  have new: "bt_get asset_index asset = None"
  proof (rule ccontr)
    assume "bt_get asset_index asset \<noteq> None"
    then obtain i r' where "bt_get reserves i = Some r'" "rs_asset r' = asset" using inv(1)
      unfolding reserves_indexed_def by blast
    moreover from this have "rs_config r' = rs_config r" "rc_index (rs_config r') = i"
      using inv r(2) by (auto simp: reserves_indexed_def)
    ultimately show False using r(3) by simp
  qed
  show ?thesis
    using inv new r by (auto simp: reserves_indexed_def) (metis option.distinct(1))+
qed

lemma read_reserves_ok:
  assumes "rfold (read_reserve reads pool entries) assets ([], []) = Ok (reserves, asset_index)"
  shows "reserves_indexed reserves asset_index \<and> set (bt_keys asset_index) = set assets"
proof -
  let ?I = "\<lambda>done (s :: (nat, reserve) btree \<times> (string, nat) btree).
    reserves_indexed (fst s) (snd s) \<and> (\<forall>i r. bt_get (fst s) i = Some r \<longrightarrow> config_of reads pool entries (rs_asset r) = Ok (rs_config r))
    \<and> set (bt_keys (snd s)) = set done"
  have "?I assets (reserves, asset_index)"
  proof (rule rfold_prefix_invariant [where I = ?I, OF assms])
    show "?I [] ([], [])" by (simp add: reserves_indexed_def)
    show "?I (ys @ [x]) s'" if "assets = ys @ x # zs" "?I ys s" "read_reserve reads pool entries x s = Ok s'" for ys x zs s s'
      using that(2,3) read_reserve_step [of reads pool entries x "fst s" "snd s" "fst s'" "snd s'"] by auto
  qed
  then show ?thesis by simp
qed

lemma read_positions_ok:
  assumes "rfold (read_positions reads pool entries) users [] = Ok positions"
  shows "bt_wf positions \<and> set (bt_keys positions) = set users"
proof (rule rfold_prefix_invariant [where I = "\<lambda>ys s. bt_wf s \<and> set (bt_keys s) = set ys", OF assms])
  fix ys x zs s t
  assume "bt_wf s \<and> set (bt_keys s) = set ys" "read_positions reads pool entries x s = Ok t"
  then show "bt_wf t \<and> set (bt_keys t) = set (ys @ [x])" by (auto simp: read_positions_def rbind_eq_Ok)
qed simp

definition snapshot_ok :: "string \<Rightarrow> string list \<Rightarrow> pool_snapshot \<Rightarrow> bool" where
  "snapshot_ok pool users s \<longleftrightarrow> sn_pool s = pool \<and> reserves_indexed (sn_reserves s) (sn_asset_index s)
     \<and> prices_ok (sn_prices s) \<and> bt_wf (op_prices (sn_prices s)) \<and> bt_wf (sn_positions s) \<and> set (bt_keys (sn_positions s)) = set users"

definition one_ledger :: "string \<Rightarrow> string list \<Rightarrow> (chain_error, pool_snapshot) result \<Rightarrow> nat list \<Rightarrow> bool" where
  "one_ledger pool users r ev \<longleftrightarrow> (case r of Inl _ \<Rightarrow> True | Inr s \<Rightarrow> set ev = {sn_ledger s} \<and> snapshot_ok pool users s)"

lemma snapshot_body_logs:
  "logs (snapshot_body reads pool users (ledger, pool_instance, assets))
     (within ledger (\<lambda>s. sn_ledger s = ledger \<and> snapshot_ok pool users s))"
  unfolding snapshot_body_def split_beta fst_conv snd_conv
proof (rule within_bind [OF within_lift_eq], rule within_bind [OF within_lift_eq],
    rule within_checked [OF read_ledger_entries_logs], rule within_bind [OF within_lift_eq],
    rule within_bind [OF within_lift_eq], rule within_bind [OF pool_prices_logs], rule within_lift)
  fix entries x positions prices s
  assume "rfold (read_reserve reads pool entries) assets ([], []) = Ok x"
    "rfold (read_positions reads pool entries) users [] = Ok positions"
    "case prices of (p, _) \<Rightarrow> prices_ok p \<and> bt_wf (op_prices p)"
    "Ok \<lparr>sn_ledger = ledger, sn_pool = pool, sn_instance = pool_instance, sn_reserves = fst x,
       sn_asset_index = snd x, sn_prices = fst prices, sn_price_timestamps = snd prices,
       sn_positions = positions\<rparr> = (Ok s :: (chain_error, pool_snapshot) result)"
  then show "sn_ledger s = ledger \<and> snapshot_ok pool users s"
    using read_reserves_ok [of reads pool entries assets "fst x" "snd x"] read_positions_ok [of reads pool entries users positions]
    by (auto simp: snapshot_ok_def split_beta)
qed

lemma snapshot_once_logs: "logs (snapshot_once reads pool users) (one_ledger pool users)"
  unfolding snapshot_once_def
proof (rule logs_seq [OF pool_shape_logs])
  fix x :: "nat \<times> pool_instance \<times> string list" and ev
  assume ev: "at_one_ledger fst (Ok x) ev"
  obtain ledger inst assets where x: "x = (ledger, inst, assets)" by (cases x)
  show "logs (snapshot_body reads pool users x) (\<lambda>r ev'. one_ledger pool users r (ev @ ev'))"
    unfolding x by (rule logs_mono [OF snapshot_body_logs])
      (use ev x in \<open>auto simp: within_def one_ledger_def split: sum.splits\<close>)
qed (simp add: one_ledger_def)

lemma snapshot_loop_logs:
  "logs (snapshot_loop reads pool users n)
     (\<lambda>r ev. case r of Inl _ \<Rightarrow> True | Inr s \<Rightarrow> \<exists>before last. ev = before @ last \<and> one_ledger pool users (Ok s) last)"
proof (induction n)
  case 0
  show ?case
    unfolding snapshot_loop.simps
    by (rule logs_mono [OF snapshot_once_logs]) (auto split: sum.splits intro: exI [of _ "[]"])
next
  case (Suc n)
  show ?case
    unfolding snapshot_loop.simps
  proof (rule logs_try [OF snapshot_once_logs, where Q = "\<lambda>x r ev. case x of
        Inl (LedgerMoved a b) \<Rightarrow> (case r of Inl _ \<Rightarrow> True | Inr s \<Rightarrow> \<exists>before last. ev = before @ last \<and> one_ledger pool users (Ok s) last)
      | _ \<Rightarrow> r = x \<and> ev = []"])
    fix x :: "(chain_error, pool_snapshot) result"
    show "logs (case x of Inl (LedgerMoved first second) \<Rightarrow> snapshot_loop reads pool users n | _ \<Rightarrow> io_lift x)
       (\<lambda>r ev. case x of
          Inl (LedgerMoved a b) \<Rightarrow> (case r of Inl _ \<Rightarrow> True | Inr s \<Rightarrow> \<exists>before last. ev = before @ last \<and> one_ledger pool users (Ok s) last)
        | _ \<Rightarrow> r = x \<and> ev = [])"
      using Suc.IH by (auto intro!: logs_lift split: sum.splits chain_error.splits)
  qed (auto split: sum.splits chain_error.splits intro: exI [of _ "[]"]; metis append.assoc)
qed

subsection \<open>Every read answers\<close>

lemma fetch_batch_returns: "returns (fetch_batch reads batch)"
  by (auto simp: returns_def fetch_batch_def split: prod.splits sum.splits)

lemma read_batches_returns: "returns (read_batches reads requested latest entries batches)"
  by (induction batches arbitrary: latest entries)
    (auto intro!: returns_bind returns_lift fetch_batch_returns simp: if_distrib [of returns] split: if_split)

lemma read_ledger_entries_returns: "returns (read_ledger_entries reads keys)"
  unfolding read_ledger_entries_def split_beta by (auto intro!: returns_bind returns_lift read_batches_returns)

lemma pool_view_returns: "returns (pool_view reads contract function args)"
  unfolding pool_view_def
  by (rule returns_bind [OF returns_lift]) (auto simp: returns_def split: prod.splits sum.splits view_outcome.splits)

lemma read_prices_returns: "returns (read_prices reads oracle ledger assets acc)"
  by (induction assets arbitrary: acc)
    (auto simp: read_price_def split_beta intro!: returns_bind returns_lift pool_view_returns)

lemma snapshot_once_returns: "returns (snapshot_once reads pool users)"
  unfolding snapshot_once_def pool_shape_def snapshot_body_def pool_prices_def split_beta
  by (intro returns_bind returns_lift read_ledger_entries_returns pool_view_returns read_prices_returns)

lemma snapshot_returns: "returns (snapshot reads pool users)"
proof -
  have "returns (snapshot_loop reads pool users n)" for n
  proof (induction n)
    case (Suc n)
    have "returns (case r of Inl (LedgerMoved first second) \<Rightarrow> snapshot_loop reads pool users n | _ \<Rightarrow> io_lift r)"
      for r :: "(chain_error, pool_snapshot) result"
      using Suc by (auto intro: returns_lift split: sum.splits chain_error.splits)
    then show ?case by (auto intro!: returns_try snapshot_once_returns)
  qed (simp add: snapshot_once_returns)
  then show ?thesis by (simp add: snapshot_def)
qed


section \<open>A concrete snapshot\<close>

fun sample_key :: "ledger_key \<Rightarrow> string" where
  "sample_key (ContractDataKey c None d) = ''I''"
| "sample_key (ContractDataKey c (Some (ScVec (Some [ScSymbol s, ScAddress a]))) d) = s"
| "sample_key (ContractDataKey c (Some k) d) = ''L''"
| "sample_key (AccountKey a) = ''A''"

definition sample_instance :: scval where
  "sample_instance = ScContractInstance (Some [
     (ScSymbol ''Config'', ScMap (Some [(ScSymbol ''oracle'', ScAddress ''O''), (ScSymbol ''bstop_rate'', ScU32 0),
        (ScSymbol ''status'', ScU32 1), (ScSymbol ''max_positions'', ScU32 6), (ScSymbol ''min_collateral'', ScI128 0 0)])),
     (ScSymbol ''Name'', ScString ''Fixed''), (ScSymbol ''Admin'', ScAddress ''G''), (ScSymbol ''Backstop'', ScAddress ''B''),
     (ScSymbol ''BLNDTkn'', ScAddress ''T'')])"

definition sample_config :: scval where
  "sample_config = ScMap (Some ((ScSymbol ''enabled'', ScBool True) # (ScSymbol ''supply_cap'', ScI128 0 9)
     # map (\<lambda>n. (ScSymbol n, ScU32 7)) [''index'', ''decimals'', ''c_factor'', ''l_factor'', ''util'', ''max_util'',
         ''r_base'', ''r_one'', ''r_two'', ''r_three'', ''reactivity'']))"

definition sample_data :: scval where
  "sample_data = ScMap (Some ((ScSymbol ''last_time'', ScU64 50)
     # map (\<lambda>n. (ScSymbol n, ScI128 0 1)) [''d_rate'', ''b_rate'', ''ir_mod'', ''b_supply'', ''d_supply'', ''backstop_credit'']))"

definition sample_entry :: "string \<Rightarrow> scval" where
  "sample_entry k =
     (if k = ''I'' then sample_instance
      else if k = ''L'' then ScVec (Some [ScAddress ''XLM''])
      else if k = ''ResConfig'' then sample_config
      else sample_data)"

text \<open>A network at ledger 10 whose pool has one reserve; no user has positions.\<close>

definition sample_reads :: "unit reads" where
  "sample_reads = \<lparr>re_lib = \<lparr>xl_address = Ok, xl_sorted = Ok\<rparr>, re_key_text = (\<lambda>key. Ok (sample_key key)),
     re_entry = (\<lambda>k. Ok (ContractData (sample_entry k))), re_scval = (\<lambda>_. Err []), re_account_id = Some,
     re_get_entries = (\<lambda>batch w. (Ok \<lparr>rn_latest_ledger = 10, rn_entries = map (\<lambda>k. \<lparr>ry_key = k, ry_xdr = k,
        ry_last_modified_ledger_seq = 9, ry_live_until_ledger_seq = None\<rparr>) (filter (\<lambda>k. k \<noteq> ''Positions'') batch)\<rparr>, w)),
     re_get_fee_stats = (\<lambda>w. (Err (Http 500), w)), re_get_events = (\<lambda>_ w. (Err (Http 500), w)),
     re_simulate = (\<lambda>call w. (Ok (10, ViewSuccess (if cc_function call = ''decimals'' then ScU32 7
        else ScMap (Some [(ScSymbol ''price'', ScI128 0 3), (ScSymbol ''timestamp'', ScU64 40)]))), w))\<rparr>"

definition sample_found :: "string \<Rightarrow> ledger_entry" where
  "sample_found k = \<lparr>le_data = ContractData (sample_entry k), le_last_modified_ledger = 9, le_live_until_ledger = None\<rparr>"

lemma sample_kept:
  "set ks \<subseteq> set requested \<Longrightarrow> rfold (keep_entry sample_reads requested) (map (\<lambda>k. \<lparr>ry_key = k, ry_xdr = k,
     ry_last_modified_ledger_seq = 9, ry_live_until_ledger_seq = None\<rparr>) ks) m
   = Ok (fold (\<lambda>(k, v). bt_insert k v) (map (\<lambda>k. (k, sample_found k)) ks) m)"
  by (induction ks arbitrary: m) (simp_all add: keep_entry_def sample_reads_def xdr_def sample_found_def)

lemma sample_names: "rmap_list (\<lambda>key. xdr (re_key_text sample_reads key)) keys = Ok (map sample_key keys)"
  by (induction keys) (simp_all add: sample_reads_def xdr_def)

definition sample_entries :: "ledger_key list \<Rightarrow> ledger_entries" where
  "sample_entries keys = \<lparr>ls_latest_ledger = 10, ls_entries = bt_collect (map (\<lambda>k. (k, sample_found k))
     (filter (\<lambda>k. k \<noteq> ''Positions'') (map sample_key keys)))\<rparr>"

lemma sample_read:
  assumes "keys \<noteq> []" "length keys \<le> 200"
  shows "read_ledger_entries sample_reads keys ((), log) = Some (Ok (sample_entries keys), (), log @ [10])"
proof -
  have one: "chunks ENTRY_BATCH (map sample_key keys) = [map sample_key keys]"
    using assms by (subst chunks.simps) (simp add: ENTRY_BATCH_def)
  have sub: "set (filter (\<lambda>k. k \<noteq> ''Positions'') (map sample_key keys)) \<subseteq> set (map sample_key keys)" by auto
  have raw: "fetch_batch sample_reads (map sample_key keys) ((), log) = Some (Ok \<lparr>rn_latest_ledger = 10,
      rn_entries = map (\<lambda>k. \<lparr>ry_key = k, ry_xdr = k, ry_last_modified_ledger_seq = 9, ry_live_until_ledger_seq = None\<rparr>)
        (filter (\<lambda>k. k \<noteq> ''Positions'') (map sample_key keys))\<rparr>, (), log @ [10])"
    by (simp add: fetch_batch_def sample_reads_def)
  show ?thesis
    using assms(1) sample_kept [OF sub, of "[]"]
    by (simp add: read_ledger_entries_def io_bind_def io_lift_def sample_names one raw sample_entries_def bt_collect_def)
qed

lemma sample_get: "get_entry sample_reads (sample_entries keys) key =
    Ok (if sample_key key \<in> set (map sample_key keys) \<and> sample_key key \<noteq> ''Positions'' then Some (sample_found (sample_key key)) else None)"
proof -
  have "map_of (rev (map (\<lambda>k. (k, sample_found k)) ks)) k = (if k \<in> set ks then Some (sample_found k) else None)" for ks k
    by (simp add: rev_map map_of_map_restrict restrict_map_def)
  moreover have "re_key_text sample_reads key = Ok (sample_key key)" by (simp add: sample_reads_def)
  ultimately show ?thesis by (simp add: get_entry_def xdr_def sample_entries_def del: rbind_eq_Ok)
qed

lemma sample_keys:
  "chain_xdr (key_instance (re_lib sample_reads) p) = Ok (ContractDataKey p None Persistent)"
  "chain_xdr (key_reserve_list (re_lib sample_reads) p) = Ok (ContractDataKey p (Some (ScSymbol ''ResList'')) Persistent)"
  "chain_xdr (key_reserve_config (re_lib sample_reads) p a)
     = Ok (ContractDataKey p (Some (ScVec (Some [ScSymbol ''ResConfig'', ScAddress a]))) Persistent)"
  "chain_xdr (key_reserve_data (re_lib sample_reads) p a)
     = Ok (ContractDataKey p (Some (ScVec (Some [ScSymbol ''ResData'', ScAddress a]))) Persistent)"
  "chain_xdr (key_positions (re_lib sample_reads) p a)
     = Ok (ContractDataKey p (Some (ScVec (Some [ScSymbol ''Positions'', ScAddress a]))) Persistent)"
  by (simp_all add: sample_reads_def chain_xdr_def key_instance_def key_reserve_list_def key_reserve_config_def
      key_reserve_data_def key_positions_def contract_data_def symbol_def address_def sc_address_def xdr_lib_result_def
      sc_vec_def u32_max_def)

lemmas sample_structs = struct_fields_def field_def u32_field_def u64_field_def i128_field_def bool_field_def address_field_def

lemma sample_instance_read:
  "decode_pool_instance (ContractData sample_instance) = Ok \<lparr>pi_admin = ''G'', pi_backstop = ''B'', pi_blnd_token = ''T'',
     pi_name = ''Fixed'', pi_config = \<lparr>po_oracle = ''O'', po_bstop_rate = 0, po_status = Active, po_max_positions = 6,
       po_min_collateral = 0\<rparr>\<rparr>"
  by (simp add: decode_pool_instance_def contract_value_def sample_instance_def sample_structs map_filter_simps
      pool_status_try_from_def as_i128_parts_def ok_or_def del: rbind_eq_Ok)

lemma sample_config_read: "\<exists>c. decode_reserve_config (ContractData sample_config) = Ok c \<and> rc_decimals c = 7 \<and> rc_index c = 7"
  by (simp add: decode_reserve_config_def reserve_config_value_def contract_value_def sample_config_def sample_structs ok_or_def)

lemma sample_data_read: "\<exists>d. decode_reserve_data (ContractData sample_data) = Ok d \<and> rd_last_time d = 50"
  by (simp add: decode_reserve_data_def reserve_data_value_def contract_value_def sample_data_def sample_structs ok_or_def)

lemma sample_shape:
  "\<exists>inst. pool_shape sample_reads ''P'' ((), log) = Some (Ok (10, inst, [''XLM'']), (), log @ [10])"
  unfolding pool_shape_def
  by (simp add: io_run sample_keys sample_read required_def sample_get del: rbind_eq_Ok)
    (simp add: io_run sample_entries_def sample_found_def sample_entry_def sample_instance_read chain_xdr_def decode_reserve_list_def
      contract_value_def address_item_def ok_or_def del: rbind_eq_Ok)

lemma sample_view:
  "pool_view sample_reads c f args ((), log) = (if length f \<le> 32 \<and> length args \<le> u32_max then
     Some (Ok (10, if f = ''decimals'' then ScU32 7
       else ScMap (Some [(ScSymbol ''price'', ScI128 0 3), (ScSymbol ''timestamp'', ScU64 40)])), (), log @ [10])
     else pool_view sample_reads c f args ((), log))"
  by (simp add: pool_view_def io_bind_def io_lift_def invoke_contract_op_def symbol_def sc_address_def xdr_lib_result_def
      sample_reads_def chain_xdr_def del: rbind_eq_Ok)

lemma sample_price_value:
  "decode_price_data (ScMap (Some [(ScSymbol ''price'', ScI128 0 3), (ScSymbol ''timestamp'', ScU64 40)]))
     = Ok (Some \<lparr>pd_price = 3, pd_timestamp = 40\<rparr>)"
  by (simp add: decode_price_data_def sample_structs ok_or_def as_i128_parts_def del: rbind_eq_Ok)

lemma sample_asset_arg: "\<exists>arg. chain_xdr (stellar_asset (re_lib sample_reads) a) = Ok arg"
  by (simp add: stellar_asset_def symbol_def address_def sc_address_def xdr_lib_result_def sc_vec_def u32_max_def
      sample_reads_def chain_xdr_def)

lemma sample_prices_read:
  "pool_prices sample_reads ora [''XLM''] 10 ((), log)
     = Some (Ok (\<lparr>op_decimals = 7, op_scalar = 10 ^ 7, op_prices = [(''XLM'', 3)]\<rparr>, [(''XLM'', 40)]), (), log @ [10, 10])"
proof -
  obtain arg where arg: "chain_xdr (stellar_asset (re_lib sample_reads) ''XLM'') = Ok arg" using sample_asset_arg by blast
  have v: "pool_view sample_reads ora ''decimals'' [] ((), l) = Some (Ok (10, ScU32 7), (), l @ [10])"
    "pool_view sample_reads ora ''lastprice'' [arg] ((), l) =
       Some (Ok (10, ScMap (Some [(ScSymbol ''price'', ScI128 0 3), (ScSymbol ''timestamp'', ScU64 40)])), (), l @ [10])" for l
    by (subst sample_view, simp add: u32_max_def)+
  have "oracle_new 7 [(''XLM'', 3)] = Ok \<lparr>op_decimals = 7, op_scalar = 10 ^ 7, op_prices = [(''XLM'', 3)]\<rparr>"
    by (simp add: eval_simps)
  moreover have "chain_xdr (decode_price_data (ScMap (Some [(ScSymbol ''price'', ScI128 0 3), (ScSymbol ''timestamp'', ScU64 40)])))
      = Ok (Some \<lparr>pd_price = 3, pd_timestamp = 40\<rparr>)"
    by (simp add: chain_xdr_def sample_price_value)
  ultimately show ?thesis
    by (simp add: pool_prices_def read_price_def io_run arg v same_ledger_def decode_decimals_def
        chain_xdr_def [of "Ok _"] chain_math_def del: rbind_eq_Ok)
qed

lemma sample_reserve_index:
  assumes "''ResConfig'' \<in> sample_key ` set keys" "''ResData'' \<in> sample_key ` set keys"
  shows "\<exists>r. read_reserve sample_reads p (sample_entries keys) ''XLM'' ([], []) = Ok ([(7, r)], [(''XLM'', 7)])
     \<and> rd_last_time (rs_data r) = 50"
proof -
  obtain c d where cd: "decode_reserve_config (ContractData sample_config) = Ok c" "rc_decimals c = 7" "rc_index c = 7"
    "decode_reserve_data (ContractData sample_data) = Ok d" "rd_last_time d = 50" using sample_config_read sample_data_read by blast
  have r: "reserve_new ''XLM'' c d = Ok \<lparr>rs_asset = ''XLM'', rs_config = c, rs_data = d, rs_scalar = 10 ^ 7\<rparr>"
    using cd by (simp add: reserve_new_def pow10_Ok_iff i128_defs)
  have "required sample_reads (sample_entries keys) (ContractDataKey p (Some (ScVec (Some [ScSymbol ''ResConfig'', ScAddress ''XLM'']))) Persistent)
      e decode_reserve_config = Ok c"
    "required sample_reads (sample_entries keys) (ContractDataKey p (Some (ScVec (Some [ScSymbol ''ResData'', ScAddress ''XLM'']))) Persistent)
      e decode_reserve_data = Ok d" for e
    using assms cd by (simp_all add: required_def sample_get sample_found_def sample_entry_def ok_or_def chain_xdr_def del: rbind_eq_Ok)
  then show ?thesis
    using cd by (simp add: read_reserve_def sample_keys r chain_math_def Let_def del: rbind_eq_Ok)
qed

lemma sample_snapshot: "\<exists>s. snapshot sample_reads ''P'' [''U''] ((), []) = Some (Ok s, (), [10, 10, 10, 10])
     \<and> sn_positions s = [(''U'', positions_default)] \<and> (\<exists>r. sn_reserves s = [(7, r)] \<and> rd_last_time (rs_data r) = 50)"
proof -
  obtain inst where shape: "pool_shape sample_reads ''P'' ((), []) = Some (Ok (10, inst, [''XLM'']), (), [10])"
    using sample_shape [of "[]"] by auto
  let ?keys = "map (\<lambda>n. ContractDataKey ''P'' (Some (ScVec (Some [ScSymbol (fst n), ScAddress (snd n)]))) Persistent)
    [(''ResConfig'', ''XLM''), (''ResData'', ''XLM''), (''Positions'', ''U'')]"
  obtain r where r: "read_reserve sample_reads ''P'' (sample_entries ?keys) ''XLM'' ([], [])
      = Ok ([(7, r)], [(''XLM'', 7)])" and t: "rd_last_time (rs_data r) = 50"
    using sample_reserve_index [of ?keys] by auto
  have p: "read_positions sample_reads ''P'' (sample_entries ?keys) ''U'' [] = Ok [(''U'', positions_default)]"
    by (simp add: read_positions_def sample_keys sample_get del: rbind_eq_Ok)
  have e: "read_ledger_entries sample_reads ?keys ((), l) = Some (Ok (sample_entries ?keys), (), l @ [10])" for l
    by (rule sample_read) simp_all
  have l: "ls_latest_ledger (sample_entries ?keys) = 10" by (simp add: sample_entries_def)
  have "\<exists>s. snapshot_body sample_reads ''P'' [''U''] (10, inst, [''XLM'']) ((), [10]) = Some (Ok s, (), [10, 10, 10, 10])
      \<and> sn_positions s = [(''U'', positions_default)] \<and> (\<exists>r. sn_reserves s = [(7, r)] \<and> rd_last_time (rs_data r) = 50)"
    using r t p e l sample_prices_read [of _ "[10, 10]"]
    by (simp add: snapshot_body_def io_run asset_keys_def sample_keys same_ledger_def del: rbind_eq_Ok)
  then show ?thesis
    using shape by (auto simp: snapshot_def SNAPSHOT_ATTEMPTS_def numeral_2_eq_2 io_try_def snapshot_once_def io_run)
qed


end
