(* ===== verification/Store_Io.thy ===== *)
theory Store_Io
  imports Store Effects
begin

text \<open>
  Statements on the tables as computations. The state is the world together with the tables; the
  connection says of each statement whether it fails and, if so, whether it took effect
  nevertheless, so a caller can conclude nothing about the tables from an error.
\<close>

type_synonym 'w connection = "'w \<Rightarrow> (store_error \<times> bool) option \<times> 'w"

definition statement ::
  "'w connection \<Rightarrow> (tables \<Rightarrow> 'a store_result \<times> tables) \<Rightarrow> ('w \<times> tables, 'x, store_error, 'a) act" where
  "statement fault q = (\<lambda>((w, db), log).
     case fault w of
       (Some (e, effective), w) \<Rightarrow> Some (Err e, (w, if effective then snd (q db) else db), log)
     | (None, w) \<Rightarrow> Some (fst (q db), (w, snd (q db)), log))"

text \<open>A statement whose rows always read back, and one that only reads.\<close>

definition total :: "(tables \<Rightarrow> 'a \<times> tables) \<Rightarrow> tables \<Rightarrow> 'a store_result \<times> tables" where
  "total q db = (Ok (fst (q db)), snd (q db))"

definition select_only :: "(tables \<Rightarrow> 'a store_result) \<Rightarrow> tables \<Rightarrow> 'a store_result \<times> tables" where
  "select_only q db = (q db, db)"

lemma statement_cases:
  assumes "statement fault q ((w, db), log) = Some (r, (w', db'), log')"
  shows "log' = log \<and> ((\<exists>x. r = Ok x \<and> q db = (Ok x, db')) \<or> (\<exists>e. r = Err e \<and> (db' = db \<or> db' = snd (q db))))"
  using assms by (auto simp: statement_def split: prod.splits option.splits if_splits) (metis prod.collapse sum.exhaust)+

lemma statement_returns: "returns (statement fault q)"
  by (auto simp: returns_def statement_def split: prod.splits option.splits)

text \<open>Case analysis of a chain of calls on such a state.\<close>

lemma io_bind_track:
  assumes "io_bind m f ((w, db), log) = Some (r, (w', db'), log')"
  obtains (failed) e where "m ((w, db), log) = Some (Err e, (w', db'), log')" "r = Err e"
  | (passed) x w1 db1 log1 where "m ((w, db), log) = Some (Ok x, (w1, db1), log1)" "f x ((w1, db1), log1) = Some (r, (w', db'), log')"
  using assms by (auto simp: io_bind_def split: option.splits sum.splits prod.splits)

end
