(* ===== verification/Tracker.thy ===== *)
theory Tracker
  imports Pool_Reader Store_Io
begin

text \<open>
  \<open>src/tracker.rs\<close>: applying what the chain says to what the bot stores. The state is the world
  together with the tables (\<open>Store_Io\<close>). Shown here: what a refresh leaves in the
  table of users, whatever fails on the way; that applying a ledger's events again after a crash
  leaves the auctions as if they had been applied once; and that seeding visits every account the
  sources named. The HTTP client and the JSON and TOML parsers are parameters.
\<close>

section \<open>Definitions\<close>

datatype tracker_error =
    TrackerChain chain_error
  | TrackerStore store_error
  | TrackerMath math_error

record refresh_outcome =
  ro_tracked :: nat
  ro_removed :: nat

record seed_outcome =
  so_refresh :: refresh_outcome
  so_failed_sources :: nat
  so_stopped_early :: bool

definition is_complete :: "seed_outcome \<Rightarrow> bool" where
  "is_complete self \<longleftrightarrow> so_failed_sources self = 0 \<and> \<not> so_stopped_early self"

text \<open>
  The two handles of a \<open>Tracker\<close>: the RPC reads, and the connection to the store, which says for
  the next statement whether it fails and, if so, whether it took effect nevertheless.
\<close>

record 'w tracker =
  tk_reads :: "'w reads"
  tk_fault :: "'w connection"

type_synonym ('w, 'e, 'a) track = "('w \<times> tables, nat, 'e, 'a) act"

definition from_chain :: "('w, 'a) fetch \<Rightarrow> ('w, tracker_error, 'a) track" where
  "from_chain m = (\<lambda>((w, db), log).
     case m (w, log) of
       None \<Rightarrow> None
     | Some (Inl e, w, log) \<Rightarrow> Some (Err (TrackerChain e), (w, db), log)
     | Some (Inr x, w, log) \<Rightarrow> Some (Ok x, (w, db), log))"

definition from_store :: "'w tracker \<Rightarrow> (tables \<Rightarrow> 'a store_result \<times> tables) \<Rightarrow> ('w, tracker_error, 'a) track" where
  "from_store self q = io_map_err TrackerStore (statement (tk_fault self) q)"

subsection \<open>Applying an event\<close>

text \<open>The row both arms of \<open>apply\<close> write: what the chain says the auction is, with no plan.\<close>

definition chain_auction :: "string \<Rightarrow> string \<Rightarrow> auction_type \<Rightarrow> auction_data \<Rightarrow> nat \<Rightarrow> tracked_auction" where
  "chain_auction pool user ty auction at =
     \<lparr>ta_pool = pool, ta_account = user, ta_auction_type = ty, ta_start_ledger = ad_block auction,
      ta_fill_ledger = None, ta_percent = None, ta_bid = ad_bid auction, ta_lot = ad_lot auction,
      ta_updated_ledger = at\<rparr>"

definition write_auction :: "'w tracker \<Rightarrow> tracked_auction \<Rightarrow> ('w, tracker_error, unit) track" where
  "write_auction self auction = from_store self (upsert_auction auction)"

definition drop_auction :: "'w tracker \<Rightarrow> string \<Rightarrow> string \<Rightarrow> auction_type \<Rightarrow> ('w, tracker_error, unit) track" where
  "drop_auction self pool user ty =
     io_bind (from_store self (total (delete_auction pool user ty))) (\<lambda>_. io_lift (Ok ()))"

definition reread_auction :: "'w tracker \<Rightarrow> string \<Rightarrow> string \<Rightarrow> auction_type \<Rightarrow> ('w, tracker_error, unit) track" where
  "reread_auction self pool user ty =
     io_bind (from_chain (read_auction (tk_reads self) pool user ty)) (\<lambda>found.
     case found of
       Some (at, remaining) \<Rightarrow> write_auction self (chain_auction pool user ty remaining at)
     | None \<Rightarrow> drop_auction self pool user ty)"

definition tracker_apply :: "'w tracker \<Rightarrow> string \<Rightarrow> nat \<Rightarrow> pool_event \<Rightarrow> ('w, tracker_error, string list) track" where
  "tracker_apply self pool ledger event =
     io_bind
       (case event of
          NewAuction ty user percent auction \<Rightarrow> write_auction self (chain_auction pool user ty auction ledger)
        | FillAuction ty user filler fill_percent filled \<Rightarrow>
            if 100 \<le> fill_percent then drop_auction self pool user ty
            else reread_auction self pool user ty
        | DeleteAuction ty user \<Rightarrow> drop_auction self pool user ty
        | _ \<Rightarrow> io_lift (Ok ())) (\<lambda>_.
     io_lift (Ok (affected_accounts event)))"

subsection \<open>Refreshing users\<close>

text \<open>The health factor of an account that owes, in the snapshot's oracle units.\<close>

definition owed_health :: "pool_snapshot \<Rightarrow> nat \<Rightarrow> string \<Rightarrow> (tracker_error, int option) result" where
  "owed_health snap at account =
     (case bt_get (sn_positions snap) account of
        None \<Rightarrow> Ok None
      | Some positions \<Rightarrow>
          if ps_liabilities positions = [] then Ok None
          else
            (case snapshot_position_data snap account at of
               Inl e \<Rightarrow> Err (TrackerChain e)
             | Inr None \<Rightarrow> Ok None
             | Inr (Some data) \<Rightarrow>
                 (case health_factor data of Inl e \<Rightarrow> Err (TrackerMath e) | Inr hf \<Rightarrow> Ok hf)))"

definition normalised :: "pool_snapshot \<Rightarrow> int \<Rightarrow> (tracker_error, int) result" where
  "normalised snap health =
     (case mul_floor health SCALAR_7 (op_scalar (sn_prices snap)) of Inl e \<Rightarrow> Err (TrackerMath e) | Inr x \<Rightarrow> Ok x)"

definition chain_user :: "string \<Rightarrow> pool_snapshot \<Rightarrow> string \<Rightarrow> positions \<Rightarrow> int \<Rightarrow> tracked_user" where
  "chain_user pool snap account positions hf =
     \<lparr>tu_pool = pool, tu_account = account, tu_health_factor = hf,
      tu_collateral = ps_collateral positions, tu_liabilities = ps_liabilities positions,
      tu_updated_ledger = sn_ledger snap, tu_recheck_ledger = None\<rparr>"

text \<open>One turn of the loop over the accounts.\<close>

definition refresh_account ::
  "'w tracker \<Rightarrow> string \<Rightarrow> pool_snapshot \<Rightarrow> nat \<Rightarrow> string \<Rightarrow> refresh_outcome \<Rightarrow> ('w, tracker_error, refresh_outcome) track" where
  "refresh_account self pool snap at account outcome =
     io_bind (io_lift (owed_health snap at account)) (\<lambda>health.
     case (bt_get (sn_positions snap) account, health) of
       (Some positions, Some health) \<Rightarrow>
         io_bind (io_lift (normalised snap health)) (\<lambda>hf.
         io_bind (from_store self (\<lambda>db. (Ok (), upsert_user (chain_user pool snap account positions hf) db))) (\<lambda>_.
         io_lift (Ok (outcome\<lparr>ro_tracked := ro_tracked outcome + 1\<rparr>))))
     | _ \<Rightarrow>
         io_bind (from_store self (total (delete_user pool account))) (\<lambda>existed.
         io_lift (Ok (if existed then outcome\<lparr>ro_removed := ro_removed outcome + 1\<rparr> else outcome))))"

fun refresh_accounts ::
  "'w tracker \<Rightarrow> string \<Rightarrow> pool_snapshot \<Rightarrow> nat \<Rightarrow> string list \<Rightarrow> refresh_outcome \<Rightarrow> ('w, tracker_error, refresh_outcome) track" where
  "refresh_accounts self pool snap at [] outcome = io_lift (Ok outcome)"
| "refresh_accounts self pool snap at (account # accounts) outcome =
     io_bind (refresh_account self pool snap at account outcome)
       (refresh_accounts self pool snap at accounts)"

definition refresh_default :: refresh_outcome where
  "refresh_default = \<lparr>ro_tracked = 0, ro_removed = 0\<rparr>"

definition refresh :: "'w tracker \<Rightarrow> string \<Rightarrow> string list \<Rightarrow> ledger_tick \<Rightarrow> ('w, tracker_error, refresh_outcome) track" where
  "refresh self pool accounts tick =
     (if accounts = [] then io_lift (Ok refresh_default)
      else
        io_bind (from_chain (snapshot (tk_reads self) pool accounts)) (\<lambda>snap.
        refresh_accounts self pool snap (valued_at snap (lt_close_time tick)) accounts refresh_default))"

definition refresh_stale ::
  "'w tracker \<Rightarrow> string \<Rightarrow> ledger_tick \<Rightarrow> nat \<Rightarrow> nat \<Rightarrow> ('w, tracker_error, refresh_outcome) track" where
  "refresh_stale self pool tick updated_before batch =
     io_bind (from_store self (select_only (users_stale pool updated_before batch))) (\<lambda>stale.
     refresh self pool (map tu_account stale) tick)"

subsection \<open>Sources of accounts\<close>

datatype seed_error =
    SeedHttp string
  | SeedStatus nat
  | SeedShape string
  | SeedFile string

text \<open>
  \<open>render_decimal7\<close>: Rust's quotient and remainder, the fraction padded to seven digits and its
  trailing zeros trimmed. A minus sign counts for the width of \<open>{:07}\<close>.
\<close>

definition pad_zeros :: "nat \<Rightarrow> string \<Rightarrow> string" where
  "pad_zeros width digits = replicate (width - length digits) (CHR ''0'') @ digits"

definition padded_int :: "nat \<Rightarrow> int \<Rightarrow> string" where
  "padded_int width i =
     (if i < 0 then CHR ''-'' # pad_zeros (width - 1) (nat_text (nat (- i))) else pad_zeros width (nat_text (nat i)))"

definition trim_end :: "char \<Rightarrow> string \<Rightarrow> string" where
  "trim_end c text = rev (dropWhile (\<lambda>d. d = c) (rev text))"

definition render_decimal7 :: "int \<Rightarrow> string" where
  "render_decimal7 value =
     (let whole = tdiv value SCALAR_7; fraction = value - whole * SCALAR_7 in
      if fraction = 0 then int_text whole
      else int_text whole @ ''.'' @ trim_end (CHR ''0'') (padded_int 7 fraction))"

definition SEED_PAGE_LIMIT :: nat where
  "SEED_PAGE_LIMIT = 500"

definition SEED_PAGE_CAP :: nat where
  "SEED_PAGE_CAP = 200"

definition BODY_SNIPPET :: nat where
  "BODY_SNIPPET = 200"

text \<open>\<open>str::is_char_boundary\<close> on the bytes of a text: a continuation byte starts no character.\<close>

definition is_char_boundary :: "string \<Rightarrow> nat \<Rightarrow> bool" where
  "is_char_boundary text i \<longleftrightarrow> i = 0 \<or> i = length text
     \<or> i < length text \<and> \<not> (128 \<le> (of_char (text ! i) :: nat) \<and> (of_char (text ! i) :: nat) < 192)"

fun boundary_before :: "string \<Rightarrow> nat \<Rightarrow> nat" where
  "boundary_before text 0 = 0"
| "boundary_before text (Suc i) = (if is_char_boundary text (Suc i) then Suc i else boundary_before text i)"

definition snippet :: "string \<Rightarrow> string" where
  "snippet text =
     (if length text \<le> BODY_SNIPPET then text
      else take (boundary_before text BODY_SNIPPET) text @ ''... ('' @ nat_text (length text) @ '' bytes total)'')"

record analytics_page =
  ap_positions :: "string list"
  ap_next_cursor :: "string option"

record analytics_seed =
  an_base_url :: string
  an_health_factor_max :: string

text \<open>
  What \<open>reqwest\<close> and the parsers do: a request answers with a status and, unless the body cannot be
  read, its text; \<open>serde_json\<close> reads a page from a text or says why not, and \<open>shutdown\<close> is the
  channel a seed listens to.
\<close>

record 'w seed_world =
  sw_get :: "string \<Rightarrow> (string \<times> string) list \<Rightarrow> 'w \<Rightarrow> (string, nat \<times> (string, string) result) result \<times> 'w"
  sw_page :: "string \<Rightarrow> (string, analytics_page) result"
  sw_shutdown :: "'w \<Rightarrow> bool \<times> 'w"

definition analytics_new :: "(string, unit) result \<Rightarrow> string \<Rightarrow> int \<Rightarrow> (seed_error, analytics_seed) result" where
  "analytics_new client base_url health_factor_max =
     (case client of
        Inl e \<Rightarrow> Err (SeedHttp e)
      | Inr _ \<Rightarrow> Ok \<lparr>an_base_url = trim_end (CHR ''/'') base_url, an_health_factor_max = render_decimal7 health_factor_max\<rparr>)"

definition analytics_query :: "analytics_seed \<Rightarrow> string \<Rightarrow> string option \<Rightarrow> (string \<times> string) list" where
  "analytics_query self pool cursor =
     [(''healthFactorMax'', an_health_factor_max self), (''poolId'', pool), (''limit'', nat_text SEED_PAGE_LIMIT)]
     @ (case cursor of None \<Rightarrow> [] | Some cursor \<Rightarrow> [(''cursor'', cursor)])"

definition fetch_analytics ::
  "'w seed_world \<Rightarrow> analytics_seed \<Rightarrow> string \<Rightarrow> string option \<Rightarrow> 'w \<Rightarrow> (seed_error, analytics_page) result \<times> 'w" where
  "fetch_analytics world self pool cursor w =
     (case sw_get world (an_base_url self @ ''/v1/analytics/state/positions'') (analytics_query self pool cursor) w of
        (Inl e, w) \<Rightarrow> (Err (SeedHttp e), w)
      | (Inr (status, body), w) \<Rightarrow>
          if \<not> (200 \<le> status \<and> status \<le> 299) then (Err (SeedStatus status), w)
          else
            (case body of
               Inl e \<Rightarrow> (Err (SeedHttp e), w)
             | Inr text \<Rightarrow>
                 (case sw_page world text of
                    Inl e \<Rightarrow> (Err (SeedShape (snippet (e @ '': '' @ text))), w)
                  | Inr page \<Rightarrow> (Ok page, w))))"

text \<open>The loop over pages, with the pages that may still be read after this one.\<close>

fun analytics_pages ::
  "'w seed_world \<Rightarrow> analytics_seed \<Rightarrow> string \<Rightarrow> nat \<Rightarrow> string option \<Rightarrow> string list \<Rightarrow> 'w
   \<Rightarrow> (seed_error, string list) result \<times> 'w" where
  "analytics_pages world self pool left cursor accounts w =
     (case fetch_analytics world self pool cursor w of
        (Inl e, w) \<Rightarrow> (Err e, w)
      | (Inr page, w) \<Rightarrow>
          let accounts = accounts @ ap_positions page in
          (case (ap_next_cursor page, left) of
             (None, _) \<Rightarrow> (Ok accounts, w)
           | (Some next, 0) \<Rightarrow> (Ok accounts, w)
           | (Some next, Suc left) \<Rightarrow> analytics_pages world self pool left (Some next) accounts w))"

declare analytics_pages.simps [simp del]

definition analytics_accounts :: "'w seed_world \<Rightarrow> analytics_seed \<Rightarrow> string \<Rightarrow> 'w \<Rightarrow> (seed_error, string list) result \<times> 'w" where
  "analytics_accounts world self pool w = analytics_pages world self pool (SEED_PAGE_CAP - 1) None [] w"

type_synonym file_seed = "(string, string list) btree"

definition file_load ::
  "string \<Rightarrow> (string, string) result \<Rightarrow> (string \<Rightarrow> (string, file_seed) result) \<Rightarrow> (seed_error, file_seed) result" where
  "file_load path contents parse =
     (case contents of
        Inl e \<Rightarrow> Err (SeedFile (path @ '': '' @ e))
      | Inr text \<Rightarrow> (case parse text of Inl e \<Rightarrow> Err (SeedFile (path @ '': '' @ e)) | Inr accounts \<Rightarrow> Ok accounts))"

definition file_accounts :: "file_seed \<Rightarrow> string \<Rightarrow> string list" where
  "file_accounts self pool = (case bt_get self pool of None \<Rightarrow> [] | Some accounts \<Rightarrow> accounts)"

datatype seed_source = Analytics analytics_seed | File file_seed

fun source_accounts :: "'w seed_world \<Rightarrow> seed_source \<Rightarrow> string \<Rightarrow> 'w \<Rightarrow> (seed_error, string list) result \<times> 'w" where
  "source_accounts world (Analytics analytics) pool w = analytics_accounts world analytics pool w"
| "source_accounts world (File file) pool w = (Ok (file_accounts file pool), w)"

subsection \<open>Seeding\<close>

fun collect_sources ::
  "'w seed_world \<Rightarrow> string \<Rightarrow> seed_source list \<Rightarrow> string list \<times> nat \<Rightarrow> 'w \<Rightarrow> (string list \<times> nat) \<times> 'w" where
  "collect_sources world pool [] acc w = (acc, w)"
| "collect_sources world pool (source # sources) (accounts, failed) w =
     (case source_accounts world source pool w of
        (Inl _, w) \<Rightarrow> collect_sources world pool sources (accounts, failed + 1) w
      | (Inr found, w) \<Rightarrow> collect_sources world pool sources (accounts @ found, failed) w)"

fun seed_chunks ::
  "'w tracker \<Rightarrow> 'w seed_world \<Rightarrow> string \<Rightarrow> ledger_tick \<Rightarrow> string list list \<Rightarrow> seed_outcome \<Rightarrow> ('w, tracker_error, seed_outcome) track" where
  "seed_chunks self world pool tick [] outcome = io_lift (Ok outcome)"
| "seed_chunks self world pool tick (chunk # rest) outcome = (\<lambda>((w, db), log).
     case sw_shutdown world w of
       (True, w) \<Rightarrow> Some (Ok (outcome\<lparr>so_stopped_early := True\<rparr>), (w, db), log)
     | (False, w) \<Rightarrow>
         io_bind (refresh self pool chunk tick) (\<lambda>result.
         seed_chunks self world pool tick rest (outcome\<lparr>so_refresh :=
           \<lparr>ro_tracked = ro_tracked (so_refresh outcome) + ro_tracked result,
            ro_removed = ro_removed (so_refresh outcome) + ro_removed result\<rparr>\<rparr>)) ((w, db), log))"

definition seed ::
  "'w tracker \<Rightarrow> 'w seed_world \<Rightarrow> string \<Rightarrow> seed_source list \<Rightarrow> ledger_tick \<Rightarrow> nat \<Rightarrow> ('w, tracker_error, seed_outcome) track" where
  "seed self world pool sources tick batch = (\<lambda>((w, db), log).
     case collect_sources world pool sources ([], 0) w of
       ((accounts, failed), w) \<Rightarrow>
         seed_chunks self world pool tick (chunks (max batch 1) (sort (remdups accounts)))
           \<lparr>so_refresh = refresh_default, so_failed_sources = failed, so_stopped_early = False\<rparr> ((w, db), log))"


section \<open>What a statement does\<close>

lemma from_store_cases:
  assumes "from_store self q ((w, db), log) = Some (r, (w', db'), log')"
  shows "log' = log \<and> ((\<exists>x. r = Ok x \<and> q db = (Ok x, db')) \<or> (\<exists>e. r = Err e \<and> (db' = db \<or> db' = snd (q db))))"
  using assms [unfolded from_store_def] by (cases rule: io_map_err_cases) (auto dest: statement_cases)

lemma from_store_total:
  assumes "from_store self (total q) ((w, db), log) = Some (r, (w', db'), log')"
  shows "log' = log \<and> ((\<exists>x. r = Ok x \<and> q db = (x, db')) \<or> (\<exists>e. r = Err e \<and> (db' = db \<or> db' = snd (q db))))"
  using from_store_cases [OF assms] by (auto simp: total_def)

lemma io_bind_cases:
  assumes "io_bind m f s = Some (r, s')"
  obtains (failed) e where "m s = Some (Err e, s')" "r = Err e"
  | (passed) x s1 where "m s = Some (Ok x, s1)" "f x s1 = Some (r, s')"
  using assms by (auto simp: io_bind_def split: option.splits sum.splits prod.splits)

lemma from_store_returns: "returns (from_store self q)"
  unfolding from_store_def by (intro returns_map_err statement_returns)

lemma from_chain_returns: "returns m \<Longrightarrow> returns (from_chain m)"
  by (fastforce simp: returns_def from_chain_def split: prod.splits option.splits sum.splits)

section \<open>Refreshing\<close>

text \<open>
  Where an account stands in a snapshot: its positions and normalised health factor, when it
  owes and has one. The row it should then have keeps the recheck flag of the row it replaces.
\<close>

definition standing :: "pool_snapshot \<Rightarrow> nat \<Rightarrow> string \<Rightarrow> (positions \<times> int) option" where
  "standing snap at account =
     (case (bt_get (sn_positions snap) account, owed_health snap at account) of
        (Some positions, Inr (Some health)) \<Rightarrow>
          (case normalised snap health of Inr hf \<Rightarrow> Some (positions, hf) | Inl _ \<Rightarrow> None)
      | _ \<Rightarrow> None)"

abbreviation user_row_at :: "string \<Rightarrow> string \<Rightarrow> tables \<Rightarrow> user_row option" where
  "user_row_at pool account db \<equiv> List.find (at_user pool account) (tb_users db)"

definition row_due :: "string \<Rightarrow> pool_snapshot \<Rightarrow> nat \<Rightarrow> string \<Rightarrow> user_row option \<Rightarrow> user_row option" where
  "row_due pool snap at account old =
     (case standing snap at account of
        None \<Rightarrow> None
      | Some (positions, hf) \<Rightarrow>
          let u = chain_user pool snap account positions hf in
          Some (written u (case old of None \<Rightarrow> fresh_user u | Some row \<Rightarrow> row)))"

lemma row_due_idem [simp]: "row_due pool snap at account (row_due pool snap at account old) = row_due pool snap at account old"
  by (simp add: row_due_def Let_def written_def split: option.splits prod.splits)

lemma row_due_None: "row_due pool snap at account old = None \<longleftrightarrow> standing snap at account = None"
  by (auto simp: row_due_def Let_def split: option.splits)

text \<open>Tables that differ from others at most in the rows of the users named.\<close>

definition only_users :: "string \<Rightarrow> string set \<Rightarrow> tables \<Rightarrow> tables \<Rightarrow> bool" where
  "only_users pool accounts db db' \<longleftrightarrow> (\<exists>rows. db' = db\<lparr>tb_users := rows\<rparr>)
     \<and> (\<forall>p a. p \<noteq> pool \<or> a \<notin> accounts \<longrightarrow> user_row_at p a db' = user_row_at p a db)"

lemma only_users_refl [simp]: "only_users pool A db db"
  unfolding only_users_def by (metis tables.surjective tables.update_convs(2))

lemma only_users_trans:
  assumes "only_users pool A db db1" "only_users pool B db1 db2" "A \<subseteq> C" "B \<subseteq> C"
  shows "only_users pool C db db2"
proof -
  obtain rows rows' where "db1 = db\<lparr>tb_users := rows\<rparr>" "db2 = db1\<lparr>tb_users := rows'\<rparr>"
    using assms(1,2) by (auto simp: only_users_def)
  then have "\<exists>rows. db2 = db\<lparr>tb_users := rows\<rparr>" by auto
  moreover have "user_row_at p a db2 = user_row_at p a db" if "p \<noteq> pool \<or> a \<notin> C" for p a
    using that assms unfolding only_users_def by (metis subsetD)
  ultimately show ?thesis by (simp add: only_users_def)
qed

lemma only_users_row: "only_users pool A db db' \<Longrightarrow> a \<notin> A \<Longrightarrow> user_row_at pool a db' = user_row_at pool a db"
  by (simp add: only_users_def)

lemma only_users_upsert: "only_users (tu_pool u) {tu_account u} db (upsert_user u db)"
  by (auto simp: only_users_def find_user_after_upsert) (auto simp: upsert_user_rows)

lemma only_users_delete: "only_users pool {account} db (snd (delete_user pool account db))"
  by (auto simp: only_users_def find_user_after_delete) (auto simp: delete_user_def)

lemma delete_user_existed: "fst (delete_user pool account db) \<longleftrightarrow> user_row_at pool account db \<noteq> None"
  by (auto simp: delete_user_def count_rows_def find_None_iff filter_empty_conv)

definition counted :: "string \<Rightarrow> pool_snapshot \<Rightarrow> nat \<Rightarrow> tables \<Rightarrow> string \<Rightarrow> refresh_outcome \<Rightarrow> refresh_outcome" where
  "counted pool snap at db account out =
     (if standing snap at account \<noteq> None then out\<lparr>ro_tracked := ro_tracked out + 1\<rparr>
      else if user_row_at pool account db \<noteq> None then out\<lparr>ro_removed := ro_removed out + 1\<rparr>
      else out)"

definition valued :: "pool_snapshot \<Rightarrow> nat \<Rightarrow> string \<Rightarrow> bool" where
  "valued snap at account \<longleftrightarrow> (\<exists>h. owed_health snap at account = Ok h \<and> (h \<noteq> None \<longleftrightarrow> standing snap at account \<noteq> None))"

lemma refresh_account_spec:
  assumes "refresh_account self pool snap at account out ((w, db), log) = Some (r, (w', db'), log')"
  shows "log' = log \<and> only_users pool {account} db db'
     \<and> user_row_at pool account db' \<in> {user_row_at pool account db, row_due pool snap at account (user_row_at pool account db)}
     \<and> (\<forall>o'. r = Ok o' \<longrightarrow> valued snap at account
          \<and> user_row_at pool account db' = row_due pool snap at account (user_row_at pool account db)
          \<and> o' = counted pool snap at db account out)"
proof -
  have up: "only_users pool {account} db (upsert_user (chain_user pool snap account positions hf) db)" for positions hf
    using only_users_upsert [of "chain_user pool snap account positions hf" db] by (simp add: chain_user_def)
  have row: "user_row_at pool account (upsert_user (chain_user pool snap account positions hf) db)
      = Some (written (chain_user pool snap account positions hf) (case user_row_at pool account db of
          None \<Rightarrow> fresh_user (chain_user pool snap account positions hf) | Some row \<Rightarrow> row))" for positions hf
    by (simp add: find_user_after_upsert) (simp add: chain_user_def)
  show ?thesis
  proof (cases "owed_health snap at account")
    case (Inl e)
    then show ?thesis using assms by (auto simp: refresh_account_def io_bind_def io_lift_def)
  next
    case (Inr health)
    show ?thesis
    proof (cases "standing snap at account")
      case None
      then consider (none) "bt_get (sn_positions snap) account = None \<or> health = None"
        | (bad) e positions h where "bt_get (sn_positions snap) account = Some positions" "health = Some h" "normalised snap h = Err e"
        using Inr by (fastforce simp: standing_def split: option.splits sum.splits)
      then show ?thesis
      proof cases
        case none
        then have run: "io_bind (from_store self (total (delete_user pool account))) (\<lambda>existed.
            io_lift (Ok (if existed then out\<lparr>ro_removed := ro_removed out + 1\<rparr> else out))) ((w, db), log) = Some (r, (w', db'), log')"
          using assms Inr by (auto simp: refresh_account_def io_bind_lift_Ok split: option.splits)
        have v: "valued snap at account" using none Inr None by (auto simp: valued_def owed_health_def)
        have d: "row_due pool snap at account old = None" for old using None by (simp add: row_due_def)
        have gone: "user_row_at pool account (snd (delete_user pool account db)) = None" by (simp add: find_user_after_delete)
        from run show ?thesis
        proof (cases rule: io_bind_cases)
          case (failed e)
          then show ?thesis using from_store_total [OF failed(1)] only_users_delete [of pool account db] gone d by auto
        next
          case (passed existed s1)
          obtain w1 db1 log1 where s1: "s1 = ((w1, db1), log1)" by (metis prod.collapse)
          note q = from_store_total [OF passed(1) [unfolded s1]]
          then have "db1 = snd (delete_user pool account db)" "existed = fst (delete_user pool account db)" by auto
          then show ?thesis
            using passed(2) q only_users_delete [of pool account db] gone d v None delete_user_existed [of pool account db]
            by (auto simp: s1 io_lift_def counted_def)
        qed
      next
        case bad
        then show ?thesis using assms Inr by (auto simp: refresh_account_def io_bind_def io_lift_def)
      qed
    next
      case (Some st)
      then obtain positions h hf where st: "bt_get (sn_positions snap) account = Some positions" "health = Some h" "normalised snap h = Ok hf"
        "st = (positions, hf)"
        using Inr by (fastforce simp: standing_def split: option.splits sum.splits)
      let ?u = "chain_user pool snap account positions hf"
      have run: "io_bind (from_store self (\<lambda>db. (Ok (), upsert_user ?u db))) (\<lambda>_.
          io_lift (Ok (out\<lparr>ro_tracked := ro_tracked out + 1\<rparr>))) ((w, db), log) = Some (r, (w', db'), log')"
        using assms Inr st by (simp add: refresh_account_def io_bind_lift_Ok)
      have due: "row_due pool snap at account (user_row_at pool account db) = user_row_at pool account (upsert_user ?u db)"
        using Some st row by (simp add: row_due_def Let_def)
      have v: "valued snap at account" using st Inr Some by (simp add: valued_def)
      from run show ?thesis
      proof (cases rule: io_bind_cases)
        case (failed e)
        then show ?thesis using from_store_cases [OF failed(1)] up due by auto
      next
        case (passed x s1)
        obtain w1 db1 log1 where s1: "s1 = ((w1, db1), log1)" by (metis prod.collapse)
        note q = from_store_cases [OF passed(1) [unfolded s1]]
        then have "db1 = upsert_user ?u db" by auto
        then show ?thesis using passed(2) q up due v Some by (auto simp: s1 io_lift_def counted_def)
      qed
    qed
  qed
qed


text \<open>What the counts of a whole run are: duplicates count once more when written, once when removed.\<close>

definition refresh_counts :: "string \<Rightarrow> pool_snapshot \<Rightarrow> nat \<Rightarrow> tables \<Rightarrow> string list \<Rightarrow> refresh_outcome" where
  "refresh_counts pool snap at db accounts =
     \<lparr>ro_tracked = length (filter (\<lambda>a. standing snap at a \<noteq> None) accounts),
      ro_removed = card {a \<in> set accounts. standing snap at a = None \<and> user_row_at pool a db \<noteq> None}\<rparr>"

lemma removed_step:
  assumes "user_row_at pool account db' = row_due pool snap at account (user_row_at pool account db)"
    and "only_users pool {account} db db'"
  defines "gone \<equiv> \<lambda>db A. {a \<in> A. standing snap at a = None \<and> user_row_at pool a db \<noteq> None}"
  shows "card (gone db (insert account (set accounts))) =
     card (gone db' (set accounts)) + (if standing snap at account = None \<and> user_row_at pool account db \<noteq> None then 1 else 0)"
proof -
  have row: "user_row_at pool a db' = user_row_at pool a db" if "a \<noteq> account" for a
    using assms(2) that by (simp add: only_users_def)
  have self: "user_row_at pool account db' = None" if "standing snap at account = None"
    using assms(1) that by (simp add: row_due_def)
  have eq: "gone db' (set accounts) = gone db (set accounts) - {account}"
  proof (rule set_eqI)
    fix a
    show "a \<in> gone db' (set accounts) \<longleftrightarrow> a \<in> gone db (set accounts) - {account}"
      using row [of a] self by (cases "a = account"; cases "standing snap at a") (auto simp: gone_def)
  qed
  have fin: "finite (gone db (set accounts))" by (simp add: gone_def)
  have ins: "gone db (insert account (set accounts)) = (if standing snap at account = None \<and> user_row_at pool account db \<noteq> None
      then insert account (gone db (set accounts) - {account}) else gone db (set accounts) - {account})"
    by (auto simp: gone_def)
  show ?thesis unfolding ins eq using fin by (simp add: card.insert_remove)
qed

lemma refresh_accounts_spec:
  assumes "refresh_accounts self pool snap at accounts out ((w, db), log) = Some (r, (w', db'), log')"
  shows "log' = log \<and> only_users pool (set accounts) db db'
     \<and> (\<forall>a \<in> set accounts. user_row_at pool a db' \<in> {user_row_at pool a db, row_due pool snap at a (user_row_at pool a db)})
     \<and> (\<forall>o'. r = Ok o' \<longrightarrow> (\<forall>a \<in> set accounts. valued snap at a
          \<and> user_row_at pool a db' = row_due pool snap at a (user_row_at pool a db))
          \<and> ro_tracked o' = ro_tracked out + ro_tracked (refresh_counts pool snap at db accounts)
          \<and> ro_removed o' = ro_removed out + ro_removed (refresh_counts pool snap at db accounts))"
  using assms
proof (induction accounts arbitrary: out w db log)
  case Nil
  then show ?case by (auto simp: io_lift_def refresh_counts_def)
next
  case (Cons account accounts)
  from Cons.prems have "io_bind (refresh_account self pool snap at account out) (refresh_accounts self pool snap at accounts) ((w, db), log)
      = Some (r, (w', db'), log')" by simp
  then show ?case
  proof (cases rule: io_bind_track)
    case (failed e)
    note spec = refresh_account_spec [OF failed(1)]
    have keep: "user_row_at pool a db' = user_row_at pool a db" if "a \<noteq> account" for a
      using spec that by (simp add: only_users_def)
    have "only_users pool (insert account (set accounts)) db db'"
      by (rule only_users_trans [OF _ only_users_refl]) (use spec in auto)
    moreover have "user_row_at pool a db' \<in> {user_row_at pool a db, row_due pool snap at a (user_row_at pool a db)}" for a
      using spec keep [of a] by (cases "a = account") auto
    ultimately show ?thesis using spec failed(2) by auto
  next
    case (passed o1 w1 db1 log1)
    note one = refresh_account_spec [OF passed(1)]
    note all = Cons.IH [OF passed(2)]
    have row1: "user_row_at pool account db1 = row_due pool snap at account (user_row_at pool account db)"
      "valued snap at account" "o1 = counted pool snap at db account out" "only_users pool {account} db db1"
      using one by auto
    have keep: "user_row_at pool a db1 = user_row_at pool a db" if "a \<noteq> account" for a
      using row1(4) that by (simp add: only_users_def)
    have acc: "user_row_at pool account db' = row_due pool snap at account (user_row_at pool account db)"
    proof (cases "account \<in> set accounts")
      case True
      then have "user_row_at pool account db' \<in> {user_row_at pool account db1, row_due pool snap at account (user_row_at pool account db1)}"
        using all by blast
      then show ?thesis using row1(1) by auto
    next
      case False
      then show ?thesis using all row1(1) by (simp add: only_users_def)
    qed
    have rest: "user_row_at pool a db' \<in> {user_row_at pool a db, row_due pool snap at a (user_row_at pool a db)}"
      if "a \<in> set accounts" "a \<noteq> account" for a
      using all keep [OF that(2)] that(1) by auto
    have counts: "ro_tracked o1 + ro_tracked (refresh_counts pool snap at db1 accounts)
          = ro_tracked out + ro_tracked (refresh_counts pool snap at db (account # accounts))
        \<and> ro_removed o1 + ro_removed (refresh_counts pool snap at db1 accounts)
          = ro_removed out + ro_removed (refresh_counts pool snap at db (account # accounts))"
      using removed_step [OF row1(1,4), of accounts] row1(3) by (simp add: refresh_counts_def counted_def)
    have "only_users pool (set (account # accounts)) db db'"
      by (rule only_users_trans [OF row1(4)]) (use all in auto)
    moreover have "valued snap at a \<and> user_row_at pool a db' = row_due pool snap at a (user_row_at pool a db)"
      if "r = Ok o'" "a \<in> set (account # accounts)" for o' a
    proof (cases "a = account")
      case True
      then show ?thesis using acc row1(2) by simp
    next
      case False
      then show ?thesis using all keep [OF False] that by auto
    qed
    moreover have "user_row_at pool a db' \<in> {user_row_at pool a db, row_due pool snap at a (user_row_at pool a db)}"
      if "a \<in> set (account # accounts)" for a
      using rest [of a] acc that by (cases "a = account") auto
    moreover have "log' = log" using all one by simp
    moreover have "ro_tracked o' = ro_tracked out + ro_tracked (refresh_counts pool snap at db (account # accounts))
        \<and> ro_removed o' = ro_removed out + ro_removed (refresh_counts pool snap at db (account # accounts))" if "r = Ok o'" for o'
      using all counts that by simp
    ultimately show ?thesis by (intro conjI ballI allI impI) blast+
  qed
qed


lemma refresh_accounts_returns: "returns (refresh_accounts self pool snap at accounts out)"
proof (induction accounts arbitrary: out)
  case (Cons account accounts)
  have "returns (refresh_account self pool snap at account out)"
    by (auto simp: refresh_account_def intro!: returns_bind returns_lift from_store_returns split: option.splits)
  then show ?case using Cons by (simp add: returns_bind)
qed (simp add: returns_lift)

lemma refresh_returns: "returns (refresh self pool accounts tick)"
  by (auto simp: refresh_def intro!: returns_bind returns_lift from_chain_returns snapshot_returns refresh_accounts_returns)

lemma from_chain_cases:
  assumes "from_chain m ((w, db), log) = Some (r, (w', db'), log')"
  shows "db' = db \<and> (case r of Inl e \<Rightarrow> \<exists>c. e = TrackerChain c \<and> m (w, log) = Some (Err c, w', log')
     | Inr x \<Rightarrow> m (w, log) = Some (Ok x, w', log'))"
  using assms by (auto simp: from_chain_def split: option.splits sum.splits prod.splits)

lemma refresh_parts:
  assumes "refresh self pool accounts tick ((w, db), log) = Some (r, (w', db'), log')"
  obtains (idle) "accounts = []" "r = Ok refresh_default" "db' = db"
  | (unread) e where "accounts \<noteq> []" "r = Err (TrackerChain e)" "db' = db"
  | (read) snap w1 where "accounts \<noteq> []" "snapshot (tk_reads self) pool accounts (w, log) = Some (Ok snap, w1, log')"
      "refresh_accounts self pool snap (valued_at snap (lt_close_time tick)) accounts refresh_default ((w1, db), log')
        = Some (r, (w', db'), log')"
proof (cases "accounts = []")
  case True
  then show ?thesis using assms idle by (simp add: refresh_def io_lift_def)
next
  case False
  then have "io_bind (from_chain (snapshot (tk_reads self) pool accounts)) (\<lambda>snap.
      refresh_accounts self pool snap (valued_at snap (lt_close_time tick)) accounts refresh_default) ((w, db), log)
    = Some (r, (w', db'), log')"
    using assms by (simp add: refresh_def)
  then show ?thesis
  proof (cases rule: io_bind_track)
    case (failed e)
    then show ?thesis using from_chain_cases [OF failed(1)] unread False by auto
  next
    case (passed snap w1 db1 log1)
    then have "log' = log1" using refresh_accounts_spec [OF passed(2)] by simp
    then show ?thesis using from_chain_cases [OF passed(1)] passed(2) read [of snap w1] False by auto
  qed
qed

text \<open>
  C39. What a refresh leaves behind. It always answers, it touches no table but \<open>users\<close> and there no
  account it was not asked for. When it succeeds, one snapshot valued at one instant decided
  every account: the row of an account that owes and has a health factor is the one due from that
  snapshot (its positions, its normalised health factor, the snapshot's ledger), with the recheck
  flag it had before; every other account has no row left; and the counts say exactly that. When it fails, each
  row is the old one or the one due, never something between.
\<close>

theorem refresh_exact:
  "\<exists>r w' db' log'. refresh self pool accounts tick ((w, db), log) = Some (r, (w', db'), log')
     \<and> only_users pool (set accounts) db db'
     \<and> (\<forall>out. r = Ok out \<and> accounts \<noteq> [] \<longrightarrow>
          (\<exists>snap w1. snapshot (tk_reads self) pool accounts (w, log) = Some (Ok snap, w1, log')
            \<and> (\<forall>a \<in> set accounts.
                 (\<exists>h. owed_health snap (valued_at snap (lt_close_time tick)) a = Ok h
                    \<and> (h \<noteq> None \<longleftrightarrow> user_row_at pool a db' \<noteq> None))
                 \<and> user_row_at pool a db' = row_due pool snap (valued_at snap (lt_close_time tick)) a (user_row_at pool a db))
            \<and> out = refresh_counts pool snap (valued_at snap (lt_close_time tick)) db accounts))
     \<and> (\<forall>e. r = Err e \<longrightarrow> db' = db
          \<or> (\<exists>snap w1. snapshot (tk_reads self) pool accounts (w, log) = Some (Ok snap, w1, log')
              \<and> (\<forall>a \<in> set accounts. user_row_at pool a db' \<in>
                   {user_row_at pool a db, row_due pool snap (valued_at snap (lt_close_time tick)) a (user_row_at pool a db)})))"
proof -
  obtain r w' db' log' where run: "refresh self pool accounts tick ((w, db), log) = Some (r, (w', db'), log')"
    using returnsD [OF refresh_returns [of self pool accounts tick], of "((w, db), log)"] by (metis prod.collapse)
  from run show ?thesis
  proof (cases rule: refresh_parts)
    case (read snap w1)
    note spec = refresh_accounts_spec [OF read(3)]
    have counts: "out = refresh_counts pool snap (valued_at snap (lt_close_time tick)) db accounts" if "r = Ok out" for out
      using spec that by (intro refresh_outcome.equality) (auto simp: refresh_default_def)
    have health: "\<exists>h. owed_health snap (valued_at snap (lt_close_time tick)) a = Ok h \<and> (h \<noteq> None \<longleftrightarrow> user_row_at pool a db' \<noteq> None)"
      if "r = Ok out" "a \<in> set accounts" for out a
      using spec that row_due_None by (auto simp: valued_def)
    have rows: "user_row_at pool a db' = row_due pool snap (valued_at snap (lt_close_time tick)) a (user_row_at pool a db)"
      if "r = Ok out" "a \<in> set accounts" for out a using spec that by blast
    show ?thesis
    proof (intro exI [of _ r] exI [of _ w'] exI [of _ db'] exI [of _ log'] conjI allI impI, goal_cases)
      case (3 out)
      then show ?case using read(2) counts health rows by (intro exI [of _ snap] exI [of _ w1]) blast
    next
      case (4 e)
      then show ?case using read(2) spec by (intro disjI2 exI [of _ snap] exI [of _ w1]) blast
    qed (use run spec in blast)+
  qed (use run in auto)
qed


section \<open>Seeding\<close>

text \<open>A row that some snapshot of the pool, read for this account, calls for.\<close>

definition refreshed :: "'w tracker \<Rightarrow> string \<Rightarrow> ledger_tick \<Rightarrow> tables \<Rightarrow> tables \<Rightarrow> string \<Rightarrow> bool" where
  "refreshed self pool tick db db' a \<longleftrightarrow>
     (\<exists>accounts snap s s'. a \<in> set accounts \<and> snapshot (tk_reads self) pool accounts s = Some (Ok snap, s')
        \<and> user_row_at pool a db' = row_due pool snap (valued_at snap (lt_close_time tick)) a (user_row_at pool a db))"

lemma refresh_refreshed:
  assumes "refresh self pool accounts tick ((w, db), log) = Some (r, (w', db'), log')"
  shows "only_users pool (set accounts) db db' \<and> (\<forall>out. r = Ok out \<longrightarrow> (\<forall>a \<in> set accounts. refreshed self pool tick db db' a))"
  using assms
proof (cases rule: refresh_parts)
  case (read snap w1)
  note spec = refresh_accounts_spec [OF read(3)]
  have "refreshed self pool tick db db' a" if "r = Ok out" "a \<in> set accounts" for out a
    using spec that read(2) unfolding refreshed_def by blast
  then show ?thesis using spec by blast
qed auto

lemma seed_chunks_refreshed:
  assumes "seed_chunks self world pool tick batches out ((w, db), log) = Some (Ok out', (w', db'), log')"
    and "distinct (concat batches)"
  shows "only_users pool (set (concat batches)) db db'
     \<and> so_failed_sources out' = so_failed_sources out
     \<and> (so_stopped_early out' \<longrightarrow> so_stopped_early out \<or> batches \<noteq> [])
     \<and> (\<not> so_stopped_early out' \<longrightarrow> (\<forall>a \<in> set (concat batches). refreshed self pool tick db db' a))"
  using assms
proof (induction batches arbitrary: out w db log)
  case Nil
  then show ?case by (simp add: io_lift_def)
next
  case (Cons batch batches)
  obtain w0 where stop: "sw_shutdown world w = (True, w0) \<or> sw_shutdown world w = (False, w0)" by (metis (full_types) surj_pair)
  then show ?case
  proof
    assume "sw_shutdown world w = (True, w0)"
    then show ?thesis using Cons.prems(1) by auto
  next
    assume "sw_shutdown world w = (False, w0)"
    then have "io_bind (refresh self pool batch tick) (\<lambda>result.
         seed_chunks self world pool tick batches (out\<lparr>so_refresh :=
           \<lparr>ro_tracked = ro_tracked (so_refresh out) + ro_tracked result,
            ro_removed = ro_removed (so_refresh out) + ro_removed result\<rparr>\<rparr>)) ((w0, db), log) = Some (Ok out', (w', db'), log')"
      using Cons.prems(1) by simp
    then show ?thesis
    proof (cases rule: io_bind_track)
      case (passed result w1 db1 log1)
      note one = refresh_refreshed [OF passed(1)]
      have "distinct (concat batches)" using Cons.prems(2) by simp
      note all = Cons.IH [OF passed(2) this]
      have apart: "set batch \<inter> set (concat batches) = {}" using Cons.prems(2) by simp
      have first: "refreshed self pool tick db db' a" if "a \<in> set batch" for a
      proof -
        have "refreshed self pool tick db db1 a" using one that by blast
        moreover have "user_row_at pool a db' = user_row_at pool a db1"
          by (rule only_users_row [OF conjunct1 [OF all]]) (use apart that in blast)
        ultimately show ?thesis by (simp add: refreshed_def)
      qed
      have later: "refreshed self pool tick db db' a" if "a \<in> set (concat batches)" "\<not> so_stopped_early out'" for a
      proof -
        have "refreshed self pool tick db1 db' a" using all that by blast
        moreover have "user_row_at pool a db1 = user_row_at pool a db"
          by (rule only_users_row [OF conjunct1 [OF one]]) (use apart that(1) in blast)
        ultimately show ?thesis by (simp add: refreshed_def)
      qed
      have "only_users pool (set (concat (batch # batches))) db db'"
        by (rule only_users_trans [OF conjunct1 [OF one] conjunct1 [OF all]]) auto
      then show ?thesis using first later all by auto
    qed simp
  qed
qed

text \<open>The sources a seed heard from, and how many it did not.\<close>

lemma collect_sources_covers:
  assumes "collect_sources world pool sources (found, failed) w = ((accounts, failed'), w')"
  shows "failed \<le> failed' \<and> set found \<subseteq> set accounts
     \<and> (failed' = failed \<longrightarrow> (\<forall>source \<in> set sources. \<exists>w0 w1 named. source_accounts world source pool w0 = (Ok named, w1) \<and> set named \<subseteq> set accounts))"
  using assms
proof (induction sources arbitrary: found failed w)
  case (Cons source sources)
  obtain r w1 where src: "source_accounts world source pool w = (r, w1)" by fastforce
  show ?case
  proof (cases r)
    case (Inl e)
    then show ?thesis using Cons.IH [of found "failed + 1" w1] Cons.prems src by auto
  next
    case (Inr named)
    then have run: "collect_sources world pool sources (found @ named, failed) w1 = ((accounts, failed'), w')"
      using Cons.prems src by simp
    show ?thesis using Cons.IH [OF run] src Inr by auto
  qed
qed simp

lemma seed_complete_covers:
  assumes "seed self world pool sources tick batch ((w, db), log) = Some (Ok out, (w', db'), log')" "is_complete out"
  shows "\<forall>source \<in> set sources. \<exists>w0 w1 named. source_accounts world source pool w0 = (Ok named, w1)
     \<and> (\<forall>a \<in> set named. refreshed self pool tick db db' a)"
proof -
  obtain accounts failed w0 where found: "collect_sources world pool sources ([], 0) w = ((accounts, failed), w0)"
    by (metis surj_pair)
  let ?batches = "chunks (max batch 1) (sort (remdups accounts))"
  have run: "seed_chunks self world pool tick ?batches \<lparr>so_refresh = refresh_default, so_failed_sources = failed, so_stopped_early = False\<rparr>
      ((w0, db), log) = Some (Ok out, (w', db'), log')"
    using assms(1) found by (simp add: seed_def)
  have all: "concat ?batches = sort (remdups accounts)" by (rule concat_chunks) simp
  then have "distinct (concat ?batches)" by simp
  from seed_chunks_refreshed [OF run this, unfolded all] assms(2)
  have "failed = 0" "\<forall>a \<in> set accounts. refreshed self pool tick db db' a" by (auto simp: is_complete_def)
  then show ?thesis using collect_sources_covers [OF found] by blast
qed

text \<open>The diagnostic of an unreadable page stays short whatever the body is.\<close>

lemma boundary_before_le: "boundary_before body n \<le> n"
  by (induction n) auto

lemma snippet_bounded: "length (snippet body) \<le> BODY_SNIPPET + 19 + length (nat_text (length body))"
  using boundary_before_le [of body BODY_SNIPPET] by (simp add: snippet_def)

section \<open>Applying events\<close>

text \<open>
  The abstract table of auctions, and what an event makes of it: it settles the one auction it
  names, by what it says itself or, after a partial fill, by what the chain is then found to hold.
\<close>

type_synonym auction_view = "string \<Rightarrow> string \<Rightarrow> auction_type \<Rightarrow> auction_row option"

definition auction_view :: "tables \<Rightarrow> auction_view" where
  "auction_view db pool account ty = List.find (at_auction pool account ty) (tb_auctions db)"

fun auction_named :: "pool_event \<Rightarrow> (string \<times> auction_type) option" where
  "auction_named (NewAuction ty user percent auction) = Some (user, ty)"
| "auction_named (FillAuction ty user filler fill_percent filled) = Some (user, ty)"
| "auction_named (DeleteAuction ty user) = Some (user, ty)"
| "auction_named _ = None"

fun settled_as :: "string \<Rightarrow> nat \<Rightarrow> pool_event \<Rightarrow> (nat \<times> auction_data) option \<Rightarrow> tracked_auction option" where
  "settled_as pool ledger (NewAuction ty user percent auction) found = Some (chain_auction pool user ty auction ledger)"
| "settled_as pool ledger (FillAuction ty user filler fill_percent filled) found =
     (if 100 \<le> fill_percent then None else map_option (\<lambda>(at, remaining). chain_auction pool user ty remaining at) found)"
| "settled_as pool ledger _ found = None"

type_synonym settled_event = "(nat \<times> pool_event) \<times> (nat \<times> auction_data) option"

definition auction_step :: "string \<Rightarrow> settled_event \<Rightarrow> auction_view \<Rightarrow> auction_view" where
  "auction_step pool = (\<lambda>((ledger, event), found) view p a t.
     if p = pool \<and> auction_named event = Some (a, t) then map_option (\<lambda>row. auction_row_of row None) (settled_as pool ledger event found)
     else view p a t)"

text \<open>The chain gave this answer, where the event has to ask.\<close>

definition answered :: "'w tracker \<Rightarrow> string \<Rightarrow> settled_event \<Rightarrow> bool" where
  "answered self pool = (\<lambda>((ledger, event), found).
     case event of
       FillAuction ty user filler fill_percent filled \<Rightarrow>
         fill_percent < 100 \<longrightarrow> (\<exists>s s'. read_auction (tk_reads self) pool user ty s = Some (Ok found, s'))
     | _ \<Rightarrow> True)"

lemma view_after_upsert:
  assumes "ta_percent auction = None"
  shows "auction_view (snd (upsert_auction auction db)) p a t =
     (if p = ta_pool auction \<and> a = ta_account auction \<and> t = ta_auction_type auction then Some (auction_row_of auction None)
      else auction_view db p a t)"
    and "upsert_auction auction db = (Ok (), snd (upsert_auction auction db))"
    and "\<exists>rows. snd (upsert_auction auction db) = db\<lparr>tb_auctions := rows\<rparr>"
proof -
  have up: "upsert_auction auction db = (Ok (), db\<lparr>tb_auctions :=
     upsert_row (at_auction (ta_pool auction) (ta_account auction) (ta_auction_type auction))
       (\<lambda>_. auction_row_of auction None) (auction_row_of auction None) (tb_auctions db)\<rparr>)"
    using assms by (simp add: upsert_auction_def opt_column_def percent_allowed_def)
  show "auction_view (snd (upsert_auction auction db)) p a t =
     (if p = ta_pool auction \<and> a = ta_account auction \<and> t = ta_auction_type auction then Some (auction_row_of auction None)
      else auction_view db p a t)"
    using rt.find_upsert [of "auction_row_of auction None"
        "(ta_pool auction, ta_account auction, int (auction_type_code (ta_auction_type auction)))"
        "\<lambda>_. auction_row_of auction None" "(p, a, int (auction_type_code t))" "tb_auctions db"]
    by (auto simp: up auction_view_def at_auction_key split: option.splits)
  show "upsert_auction auction db = (Ok (), snd (upsert_auction auction db))" "\<exists>rows. snd (upsert_auction auction db) = db\<lparr>tb_auctions := rows\<rparr>"
    by (auto simp: up)
qed

lemma view_after_delete:
  "auction_view (snd (delete_auction pool user ty db)) p a t =
     (if p = pool \<and> a = user \<and> t = ty then None else auction_view db p a t)"
  "\<exists>rows. snd (delete_auction pool user ty db) = db\<lparr>tb_auctions := rows\<rparr>"
   apply (simp add: auction_view_def find_auction_after_delete)
  apply (auto simp: delete_auction_def)
  done

text \<open>One settled auction, whichever statement settles it and whether or not it is reported to have.\<close>

definition settles ::
  "string \<Rightarrow> string \<Rightarrow> auction_type \<Rightarrow> tracked_auction option \<Rightarrow> (tracker_error, unit) result \<Rightarrow> tables \<Rightarrow> tables \<Rightarrow> bool" where
  "settles pool user ty row r db db' \<longleftrightarrow>
     (\<exists>rows. db' = db\<lparr>tb_auctions := rows\<rparr>)
     \<and> (\<forall>p a t. p \<noteq> pool \<or> a \<noteq> user \<or> t \<noteq> ty \<longrightarrow> auction_view db' p a t = auction_view db p a t)
     \<and> (r = Ok () \<longrightarrow> auction_view db' pool user ty = map_option (\<lambda>row. auction_row_of row None) row)"

lemma tables_auctions_self: "\<exists>rows. db = db\<lparr>tb_auctions := rows\<rparr>"
  by (rule exI [of _ "tb_auctions db"]) simp

lemma write_auction_settles:
  assumes "write_auction self (chain_auction pool user ty auction at) ((w, db), log) = Some (r, (w', db'), log')"
  shows "settles pool user ty (Some (chain_auction pool user ty auction at)) r db db'"
proof -
  let ?a = "chain_auction pool user ty auction at"
  have a: "ta_percent ?a = None" "ta_pool ?a = pool" "ta_account ?a = user" "ta_auction_type ?a = ty"
    by (simp_all add: chain_auction_def)
  consider "db' = db" "r \<noteq> Ok ()" | "db' = snd (upsert_auction ?a db)"
    using from_store_cases [OF assms [unfolded write_auction_def]] by auto
  then show ?thesis
    using view_after_upsert(1,3) [OF a(1), of db] a tables_auctions_self [of db] by cases (auto simp: settles_def)
qed

lemma drop_auction_settles:
  assumes "drop_auction self pool user ty ((w, db), log) = Some (r, (w', db'), log')"
  shows "settles pool user ty None r db db'"
proof -
  have "db' = db \<and> r \<noteq> Ok () \<or> db' = snd (delete_auction pool user ty db)"
    using assms [unfolded drop_auction_def]
  proof (cases rule: io_bind_track)
    case (failed e)
    then show ?thesis using from_store_total [OF failed(1)] by auto
  next
    case (passed x w1 db1 log1)
    then show ?thesis using from_store_total [OF passed(1)] by (auto simp: io_lift_def)
  qed
  then show ?thesis
    using view_after_delete [of pool user ty db] tables_auctions_self [of db] by (auto simp: settles_def)
qed

lemma settles_self: "r \<noteq> Ok () \<Longrightarrow> settles pool user ty row r db db"
  using tables_auctions_self [of db] by (simp add: settles_def)

lemma reread_auction_settles:
  assumes "reread_auction self pool user ty ((w, db), log) = Some (r, (w', db'), log')"
  shows "\<exists>found. settles pool user ty (map_option (\<lambda>(at, remaining). chain_auction pool user ty remaining at) found) r db db'
     \<and> (r = Ok () \<longrightarrow> (\<exists>s s'. read_auction (tk_reads self) pool user ty s = Some (Ok found, s')))"
  using assms [unfolded reread_auction_def]
proof (cases rule: io_bind_track)
  case (failed e)
  then show ?thesis using from_chain_cases [OF failed(1)] settles_self [of r pool user ty _ db] by auto
next
  case (passed found w1 db1 log1)
  have read: "read_auction (tk_reads self) pool user ty (w, log) = Some (Ok found, w1, log1)" "db1 = db"
    using from_chain_cases [OF passed(1)] by auto
  have "settles pool user ty (map_option (\<lambda>(at, remaining). chain_auction pool user ty remaining at) found) r db1 db'"
    using passed(2) write_auction_settles drop_auction_settles by (fastforce split: option.splits prod.splits)
  then show ?thesis using read by blast
qed

text \<open>The tables differ at most in the rows of the auctions named.\<close>

definition only_auctions :: "string \<Rightarrow> (string \<times> auction_type) set \<Rightarrow> tables \<Rightarrow> tables \<Rightarrow> bool" where
  "only_auctions pool keys db db' \<longleftrightarrow> (\<exists>rows. db' = db\<lparr>tb_auctions := rows\<rparr>)
     \<and> (\<forall>p a t. p \<noteq> pool \<or> (a, t) \<notin> keys \<longrightarrow> auction_view db' p a t = auction_view db p a t)"

lemma only_auctions_refl [simp]: "only_auctions pool keys db db"
  using tables_auctions_self by (simp add: only_auctions_def)

lemma only_auctions_trans:
  assumes "only_auctions pool A db db1" "only_auctions pool B db1 db2"
  shows "only_auctions pool (A \<union> B) db db2"
proof -
  obtain rows rows' where "db1 = db\<lparr>tb_auctions := rows\<rparr>" "db2 = db1\<lparr>tb_auctions := rows'\<rparr>"
    using assms by (auto simp: only_auctions_def)
  then have "\<exists>rows. db2 = db\<lparr>tb_auctions := rows\<rparr>" by auto
  then show ?thesis using assms by (simp add: only_auctions_def)
qed

definition keys_named :: "(nat \<times> pool_event) list \<Rightarrow> (string \<times> auction_type) set" where
  "keys_named events = {key. \<exists>e \<in> set events. auction_named (snd e) = Some key}"

lemma keys_named_Cons: "keys_named (e # events) = {key. auction_named (snd e) = Some key} \<union> keys_named events"
  by (auto simp: keys_named_def)

lemma tracker_apply_spec:
  assumes "tracker_apply self pool ledger event ((w, db), log) = Some (r, (w', db'), log')"
  shows "only_auctions pool {key. auction_named event = Some key} db db'
     \<and> (\<forall>accounts. r = Ok accounts \<longrightarrow> accounts = affected_accounts event
          \<and> (\<exists>found. answered self pool ((ledger, event), found)
               \<and> auction_view db' = auction_step pool ((ledger, event), found) (auction_view db)))"
proof -
  have named: ?thesis
    if run: "io_bind m (\<lambda>_. io_lift (Ok (affected_accounts event))) ((w, db), log) = Some (r, (w', db'), log')"
      and m: "\<And>r w' db' log'. m ((w, db), log) = Some (r, (w', db'), log') \<Longrightarrow>
         \<exists>found. settles pool user ty (settled_as pool ledger event found) r db db' \<and> (r = Ok () \<longrightarrow> answered self pool ((ledger, event), found))"
      and key: "auction_named event = Some (user, ty)" for m user ty
    using run
  proof (cases rule: io_bind_track)
    case (failed e)
    obtain found where "settles pool user ty (settled_as pool ledger event found) (Err e) db db'" using m [OF failed(1)] by blast
    then show ?thesis using key failed(2) by (auto simp: settles_def only_auctions_def)
  next
    case (passed x w1 db1 log1)
    obtain found where found: "settles pool user ty (settled_as pool ledger event found) (Ok ()) db db1"
      "answered self pool ((ledger, event), found)" using m [OF passed(1)] by auto
    have rest: "db' = db1" "r = Ok (affected_accounts event)" using passed(2) by (auto simp: io_lift_def)
    have "auction_view db' = auction_step pool ((ledger, event), found) (auction_view db)"
      using found(1) key rest(1) by (auto simp: fun_eq_iff auction_step_def settles_def)
    then show ?thesis using found key rest by (auto simp: settles_def only_auctions_def)
  qed
  have plain: ?thesis
    if "io_bind (io_lift (Ok ())) (\<lambda>_. io_lift (Ok (affected_accounts event))) ((w, db), log) = Some (r, (w', db'), log')"
      "auction_named event = None" "answered self pool ((ledger, event), None)"
    using that by (auto simp: io_bind_def io_lift_def auction_step_def fun_eq_iff intro!: exI [of _ None])
  note run = assms [unfolded tracker_apply_def]
  show ?thesis
  proof (cases event)
    case (NewAuction ty user percent auction)
    show ?thesis
    proof (rule named [of "write_auction self (chain_auction pool user ty auction ledger)" user ty])
      fix r w' db' log'
      assume "write_auction self (chain_auction pool user ty auction ledger) ((w, db), log) = Some (r, (w', db'), log')"
      from write_auction_settles [OF this] NewAuction
      show "\<exists>found. settles pool user ty (settled_as pool ledger event found) r db db' \<and> (r = Ok () \<longrightarrow> answered self pool ((ledger, event), found))"
        by (simp add: answered_def)
    qed (use run NewAuction in simp_all)
  next
    case (FillAuction ty user filler fill_percent filled)
    show ?thesis
    proof (rule named [of "if 100 \<le> fill_percent then drop_auction self pool user ty else reread_auction self pool user ty" user ty])
      fix r w' db' log'
      assume "(if 100 \<le> fill_percent then drop_auction self pool user ty else reread_auction self pool user ty) ((w, db), log)
        = Some (r, (w', db'), log')"
      then show "\<exists>found. settles pool user ty (settled_as pool ledger event found) r db db' \<and> (r = Ok () \<longrightarrow> answered self pool ((ledger, event), found))"
        using drop_auction_settles [of self pool user ty w db log r w' db' log']
          reread_auction_settles [of self pool user ty w db log r w' db' log'] FillAuction
        by (cases "100 \<le> fill_percent") (simp_all add: answered_def)
    qed (use run FillAuction in simp_all)
  next
    case (DeleteAuction ty user)
    show ?thesis
    proof (rule named [of "drop_auction self pool user ty" user ty])
      fix r w' db' log'
      assume "drop_auction self pool user ty ((w, db), log) = Some (r, (w', db'), log')"
      from drop_auction_settles [OF this] DeleteAuction
      show "\<exists>found. settles pool user ty (settled_as pool ledger event found) r db db' \<and> (r = Ok () \<longrightarrow> answered self pool ((ledger, event), found))"
        by (simp add: answered_def)
    qed (use run DeleteAuction in simp_all)
  qed (use plain run in \<open>auto simp: answered_def\<close>)
qed

text \<open>Events applied one after the other until one fails, the way they are delivered.\<close>

fun apply_events :: "'w tracker \<Rightarrow> string \<Rightarrow> (nat \<times> pool_event) list \<Rightarrow> ('w, tracker_error, string list) track" where
  "apply_events self pool [] = io_lift (Ok [])"
| "apply_events self pool ((ledger, event) # events) =
     io_bind (tracker_apply self pool ledger event) (\<lambda>accounts.
     io_bind (apply_events self pool events) (\<lambda>rest.
     io_lift (Ok (accounts @ rest))))"

lemma apply_events_spec:
  assumes "apply_events self pool events ((w, db), log) = Some (r, (w', db'), log')"
  shows "only_auctions pool (keys_named events) db db'
     \<and> (\<forall>accounts. r = Ok accounts \<longrightarrow> accounts = concat (map (\<lambda>e. affected_accounts (snd e)) events)
          \<and> (\<exists>founds. length founds = length events \<and> list_all (answered self pool) (zip events founds)
               \<and> auction_view db' = fold (auction_step pool) (zip events founds) (auction_view db)))"
  using assms
proof (induction events arbitrary: w db log r)
  case Nil
  then show ?case by (auto simp: io_lift_def)
next
  case (Cons e events)
  obtain ledger event where e: "e = (ledger, event)" by fastforce
  from Cons.prems have "io_bind (tracker_apply self pool ledger event) (\<lambda>accounts. io_bind (apply_events self pool events) (\<lambda>rest.
      io_lift (Ok (accounts @ rest)))) ((w, db), log) = Some (r, (w', db'), log')" by (simp add: e)
  then show ?case
  proof (cases rule: io_bind_track)
    case (failed x)
    have "only_auctions pool (keys_named (e # events)) db db'"
      using only_auctions_trans [OF conjunct1 [OF tracker_apply_spec [OF failed(1)]] only_auctions_refl [of pool "keys_named events"]]
      by (simp add: keys_named_Cons e)
    then show ?thesis using failed(2) by simp
  next
    case (passed accounts w1 db1 log1)
    obtain found where one: "only_auctions pool {key. auction_named event = Some key} db db1" "accounts = affected_accounts event"
      "answered self pool ((ledger, event), found)" "auction_view db1 = auction_step pool ((ledger, event), found) (auction_view db)"
      using tracker_apply_spec [OF passed(1)] by auto
    obtain r1 where tail: "apply_events self pool events ((w1, db1), log1) = Some (r1, (w', db'), log')"
      "r = (case r1 of Inl x \<Rightarrow> Err x | Inr rest \<Rightarrow> Ok (accounts @ rest))"
      using passed(2) by (cases rule: io_bind_track) (auto simp: io_lift_def)
    note all = Cons.IH [OF tail(1)]
    have only: "only_auctions pool (keys_named (e # events)) db db'"
      using only_auctions_trans [OF one(1) conjunct1 [OF all]] by (simp add: keys_named_Cons e)
    have "\<exists>founds. length founds = length (e # events) \<and> list_all (answered self pool) (zip (e # events) founds)
        \<and> auction_view db' = fold (auction_step pool) (zip (e # events) founds) (auction_view db)" if ok: "r1 = Ok rest" for rest
    proof -
      obtain founds where "length founds = length events" "list_all (answered self pool) (zip events founds)"
        "auction_view db' = fold (auction_step pool) (zip events founds) (auction_view db1)" using all ok by blast
      then show ?thesis using one(3,4) by (intro exI [of _ "found # founds"]) (simp add: e)
    qed
    then show ?thesis using only one(2) all tail(2) by (auto simp: e split: sum.splits)
  qed
qed

lemma fold_step_agree:
  assumes "length founds = length events" "\<And>p a t. p \<noteq> pool \<or> (a, t) \<notin> keys_named events \<Longrightarrow> v p a t = v' p a t"
  shows "fold (auction_step pool) (zip events founds) v = fold (auction_step pool) (zip events founds) v'"
  using assms
proof (induction events founds arbitrary: v v' rule: list_induct2')
  case (4 e events found founds)
  obtain ledger event where e: "e = (ledger, event)" by fastforce
  have "auction_step pool (e, found) v p a t = auction_step pool (e, found) v' p a t"
    if "p \<noteq> pool \<or> (a, t) \<notin> keys_named events" for p a t
    using that 4(3) [of p a t] by (auto simp: auction_step_def e keys_named_Cons)
  from 4(1) [OF _ this] 4(2) show ?case by simp
qed (auto simp: keys_named_def fun_eq_iff)

text \<open>
  C40. A replayed ledger is harmless. Apply a pool's events, and let it stop anywhere, with a
  read refused or a statement lost (one reported as failed may have taken effect). Applying all of
  them again then leaves the auctions exactly as the abstract table has them after one application to what was there
  before the crash: each auction is what the last event naming it says it is, or what the chain
  answered after a partial fill. No other table changes, and the accounts handed on
  are those the events name.
\<close>

theorem replayed_events_harmless:
  assumes "apply_events before pool events ((w, db), log) = Some (r, (w1, db1), log1)"
    and "apply_events self pool events ((w2, db1), log2) = Some (Ok accounts, (w3, db3), log3)"
  shows "\<exists>founds. length founds = length events \<and> list_all (answered self pool) (zip events founds)
     \<and> auction_view db3 = fold (auction_step pool) (zip events founds) (auction_view db)
     \<and> (\<exists>rows. db3 = db\<lparr>tb_auctions := rows\<rparr>)
     \<and> accounts = concat (map (\<lambda>e. affected_accounts (snd e)) events)"
proof -
  note crashed = apply_events_spec [OF assms(1)] and whole = apply_events_spec [OF assms(2)]
  obtain founds where founds: "length founds = length events" "list_all (answered self pool) (zip events founds)"
    "auction_view db3 = fold (auction_step pool) (zip events founds) (auction_view db1)" using whole by blast
  moreover have "fold (auction_step pool) (zip events founds) (auction_view db1) = fold (auction_step pool) (zip events founds) (auction_view db)"
    using conjunct1 [OF crashed] by (intro fold_step_agree [OF founds(1)]) (simp add: only_auctions_def)
  moreover have "only_auctions pool (keys_named events \<union> keys_named events) db db3"
    using conjunct1 [OF crashed] conjunct1 [OF whole] by (rule only_auctions_trans)
  then have "\<exists>rows. db3 = db\<lparr>tb_auctions := rows\<rparr>" unfolding only_auctions_def by (rule conjunct1)
  moreover have "accounts = concat (map (\<lambda>e. affected_accounts (snd e)) events)" using whole by simp
  ultimately show ?thesis by metis
qed

section \<open>A concrete tracker\<close>

definition sample_tracker :: "unit tracker" where
  "sample_tracker = \<lparr>tk_reads = sample_reads, tk_fault = (\<lambda>w. (None, w))\<rparr>"

definition sample_tables :: tables where
  "sample_tables = \<lparr>tb_cursors = [], tb_users = [\<lparr>uw_pool = ''P'', uw_account = ''U'', uw_health_factor = 9, uw_collateral = JObject [],
     uw_liabilities = JObject [], uw_updated_ledger = 4, uw_recheck_ledger = None\<rparr>], tb_auctions = [], tb_creations = [],
     tb_fills = [], tb_creation_seq = 1, tb_fill_seq = 1\<rparr>"

lemma sample_statement:
  "from_store sample_tracker q (((), db), log) = Some (case fst (q db) of Inl e \<Rightarrow> Err (TrackerStore e) | Inr x \<Rightarrow> Ok x, ((), snd (q db)), log)"
  by (simp add: from_store_def io_map_err_def statement_def sample_tracker_def io_try_def io_lift_def)

lemma sample_refresh:
  "\<exists>db'. refresh sample_tracker ''P'' [''U''] tick (((), sample_tables), []) = Some (Ok \<lparr>ro_tracked = 0, ro_removed = 1\<rparr>, ((), db'), [10, 10, 10, 10])"
proof -
  obtain s where s: "snapshot sample_reads ''P'' [''U''] ((), []) = Some (Ok s, (), [10, 10, 10, 10])"
    "sn_positions s = [(''U'', positions_default)]" using sample_snapshot by blast
  have c: "from_chain (snapshot (tk_reads sample_tracker) ''P'' [''U'']) (((), sample_tables), []) = Some (Ok s, ((), sample_tables), [10, 10, 10, 10])"
    using s by (simp add: from_chain_def sample_tracker_def)
  have "owed_health s at ''U'' = Ok None" for at using s by (simp add: owed_health_def positions_default_def)
  then have "\<exists>db'. refresh_accounts sample_tracker ''P'' s at [''U''] refresh_default (((), sample_tables), [10, 10, 10, 10])
      = Some (Ok \<lparr>ro_tracked = 0, ro_removed = 1\<rparr>, ((), db'), [10, 10, 10, 10])" for at
    using s by (simp add: refresh_account_def io_run sample_statement total_def delete_user_existed)
      (simp add: sample_tables_def at_user_def refresh_default_def)
  then show ?thesis using c by (simp add: refresh_def io_run)
qed

theorem refresh_exact_witness:
  "\<exists>db'. refresh sample_tracker ''P'' [''U''] \<lparr>lt_sequence = 10, lt_close_time = 60\<rparr> (((), sample_tables), [])
       = Some (Ok \<lparr>ro_tracked = 0, ro_removed = 1\<rparr>, ((), db'), [10, 10, 10, 10])
     \<and> only_users ''P'' {''U''} sample_tables db' \<and> user_row_at ''P'' ''U'' db' = None"
proof -
  let ?tick = "\<lparr>lt_sequence = 10, lt_close_time = 60\<rparr>"
  obtain db' where run: "refresh sample_tracker ''P'' [''U''] ?tick (((), sample_tables), [])
      = Some (Ok \<lparr>ro_tracked = 0, ro_removed = 1\<rparr>, ((), db'), [10, 10, 10, 10])" using sample_refresh by blast
  obtain s where s: "snapshot (tk_reads sample_tracker) ''P'' [''U''] ((), []) = Some (Ok s, (), [10, 10, 10, 10])"
    "sn_positions s = [(''U'', positions_default)]" using sample_snapshot by (auto simp: sample_tracker_def)
  have none: "owed_health s at ''U'' = Ok None" for at using s(2) by (simp add: owed_health_def positions_default_def)
  have only: "only_users ''P'' {''U''} sample_tables db'"
    and due: "\<exists>snap w1. snapshot (tk_reads sample_tracker) ''P'' [''U''] ((), []) = Some (Ok snap, w1, [10, 10, 10, 10])
      \<and> (\<exists>h. owed_health snap (valued_at snap (lt_close_time ?tick)) ''U'' = Ok h \<and> (h \<noteq> None \<longleftrightarrow> user_row_at ''P'' ''U'' db' \<noteq> None))"
    using refresh_exact [of sample_tracker "''P''" "[''U'']" ?tick "()" sample_tables "[]", unfolded run] by auto
  from due s none have "user_row_at ''P'' ''U'' db' = None" by auto
  with run only show ?thesis by blast
qed

definition lossy_tracker :: "unit tracker" where
  "lossy_tracker = sample_tracker\<lparr>tk_fault := (\<lambda>w. (Some (Query ''connection lost'', True), w))\<rparr>"

definition sample_events :: "(nat \<times> pool_event) list" where
  "sample_events = [(5, NewAuction UserLiquidation ''U'' 50 \<lparr>ad_bid = [(''XLM'', 3)], ad_lot = [(''XLM'', 4)], ad_block = 6\<rparr>),
     (6, FillAuction UserLiquidation ''U'' ''F'' 100 \<lparr>ad_bid = [], ad_lot = [], ad_block = 6\<rparr>)]"

lemma sample_lost:
  "\<exists>db1. apply_events lossy_tracker ''P'' sample_events (((), sample_tables), []) = Some (Err (TrackerStore (Query ''connection lost'')), ((), db1), [])
     \<and> tb_auctions db1 \<noteq> []"
  by (simp add: sample_events_def tracker_apply_def write_auction_def from_store_def io_map_err_def statement_def lossy_tracker_def io_bind_def
      io_try_def io_lift_def)
    (simp add: sample_tables_def upsert_auction_def chain_auction_def opt_column_def percent_allowed_def)

lemma sample_replayed:
  "\<exists>db3. apply_events sample_tracker ''P'' sample_events (((), db), []) = Some (Ok [''U'', ''U'', ''F''], ((), db3), [])"
proof -
  have up: "fst (upsert_auction (chain_auction p u t a l) db) = Ok ()" for p u t a l db
    by (simp add: upsert_auction_def chain_auction_def opt_column_def percent_allowed_def)
  show ?thesis
    by (simp add: sample_events_def tracker_apply_def write_auction_def drop_auction_def sample_statement io_run up total_def)
qed

theorem replayed_events_harmless_witness:
  "\<exists>db1 db3. apply_events lossy_tracker ''P'' sample_events (((), sample_tables), [])
       = Some (Err (TrackerStore (Query ''connection lost'')), ((), db1), [])
     \<and> tb_auctions db1 \<noteq> []
     \<and> apply_events sample_tracker ''P'' sample_events (((), db1), []) = Some (Ok [''U'', ''U'', ''F''], ((), db3), [])
     \<and> auction_view db3 ''P'' ''U'' UserLiquidation = None"
proof -
  obtain db1 where lost: "apply_events lossy_tracker ''P'' sample_events (((), sample_tables), [])
      = Some (Err (TrackerStore (Query ''connection lost'')), ((), db1), [])" "tb_auctions db1 \<noteq> []" using sample_lost by blast
  obtain db3 where again: "apply_events sample_tracker ''P'' sample_events (((), db1), []) = Some (Ok [''U'', ''U'', ''F''], ((), db3), [])"
    using sample_replayed by blast
  obtain founds where founds: "length founds = length sample_events"
    "auction_view db3 = fold (auction_step ''P'') (zip sample_events founds) (auction_view sample_tables)"
    using replayed_events_harmless [OF lost(1) again] by blast
  obtain f g where "founds = [f, g]" using founds(1) by (auto simp: sample_events_def length_Suc_conv)
  then have "auction_view db3 ''P'' ''U'' UserLiquidation = None" using founds(2) by (simp add: sample_events_def auction_step_def)
  with lost again show ?thesis by blast
qed


end
