(* ===== verification/Queue.thy ===== *)
theory Queue
  imports Chain_Tx
begin

text \<open>
  \<open>src/queue.rs\<close>: one submission at a time per signing key, retried only when it provably
  sent nothing, and resolved by hash otherwise. The channel is the list of submissions in
  the order they arrive; waiting on it may change the world (\<open>recv\<close>).
\<close>

section \<open>Definitions\<close>

record submission =
  sb_operation :: operation
  sb_priority :: priority
  sb_label :: string
  sb_retries :: nat

datatype queue_error = Closed | ShuttingDown | Chain chain_error

definition CREATION_RETRIES :: nat where
  "CREATION_RETRIES = 3"

definition FILL_RETRIES :: nat where
  "FILL_RETRIES = 10"

definition UNWIND_RETRIES :: nat where
  "UNWIND_RETRIES = 2"

record retry_policy =
  po_initial :: nat
  po_max :: nat
  po_resolve_pause :: nat

text \<open>\<open>RetryPolicy::DEFAULT\<close>, in milliseconds.\<close>

definition RetryPolicy_DEFAULT :: retry_policy where
  "RetryPolicy_DEFAULT = \<lparr>po_initial = 1000, po_max = 30000, po_resolve_pause = 1000\<rparr>"

text \<open>\<open>SubmissionQueue::enqueue\<close>: whether the channel took it, and what the worker answered, if it did.\<close>

definition enqueue :: "bool \<Rightarrow> (queue_error, tx_outcome) result option \<Rightarrow> (queue_error, tx_outcome) result" where
  "enqueue sent answer =
     (if \<not> sent then Err Closed else case answer of None \<Rightarrow> Err Closed | Some r \<Rightarrow> r)"

definition sent_nothing :: "chain_error \<Rightarrow> bool" where
  "sent_nothing error =
     (case error of Rejected _ \<Rightarrow> True | Transport _ \<Rightarrow> True | Http _ \<Rightarrow> True | Rpc _ _ \<Rightarrow> True
      | LedgerMoved _ _ \<Rightarrow> True | _ \<Rightarrow> False)"

text \<open>Whether to go on, and the world after the pause.\<close>

definition pause_unless_shutdown :: "'w host \<Rightarrow> nat \<Rightarrow> 'w \<Rightarrow> bool \<times> 'w" where
  "pause_unless_shutdown host pause w = (let w = ho_pause host pause w in (\<not> ho_shutdown host w, w))"

definition is_unknown :: "tx_outcome \<Rightarrow> bool" where
  "is_unknown out = (case out of Unknown _ _ _ \<Rightarrow> True | _ \<Rightarrow> False)"

partial_function (option) resolve ::
  "'w host \<Rightarrow> tx_config \<Rightarrow> retry_policy \<Rightarrow> prepared \<Rightarrow> ('w, tx_outcome) io" where
  "resolve host config policy prepared s =
     (case wait_for host config (pp_hash prepared) (pp_sequence prepared) (pp_window prepared) s of
        None \<Rightarrow> None
      | Some (Inl e, w, log) \<Rightarrow> Some (Err e, w, log)
      | Some (Inr outcome, w, log) \<Rightarrow>
          if \<not> is_unknown outcome \<or> ho_shutdown host w then Some (Ok outcome, w, log)
          else
            (case pause_unless_shutdown host (po_resolve_pause policy) w of
               (go, w) \<Rightarrow>
                 if \<not> go then Some (Ok outcome, w, log)
                 else resolve host config policy prepared (w, log)))"

definition attempt :: "'w host \<Rightarrow> tx_config \<Rightarrow> retry_policy \<Rightarrow> submission \<Rightarrow> ('w, tx_outcome) io" where
  "attempt host config policy submission =
     io_bind (tx_prepare host config (sb_operation submission) (sb_priority submission)) (\<lambda>prepared.
     io_try (tx_send host config prepared) (\<lambda>sent.
     case sent of
       Inl error \<Rightarrow> if is_refusal error then io_lift (Err error) else resolve host config policy prepared
     | Inr _ \<Rightarrow> resolve host config policy prepared))"

text \<open>The loop of \<open>submit_until_settled\<close>, on the retries left.\<close>

fun settle_loop ::
  "'w host \<Rightarrow> tx_config \<Rightarrow> retry_policy \<Rightarrow> submission \<Rightarrow> nat \<Rightarrow> nat \<Rightarrow> ('w, envelope \<times> send_status chain_result, queue_error, tx_outcome) act" where
  "settle_loop host config policy submission retries_left pause s =
     (case attempt host config policy submission s of
        None \<Rightarrow> None
      | Some (Inr outcome, s) \<Rightarrow> Some (Ok outcome, s)
      | Some (Inl error, w, log) \<Rightarrow>
          if sent_nothing error \<and> 0 < retries_left then
            (case pause_unless_shutdown host pause w of
               (go, w) \<Rightarrow>
                 if \<not> go then Some (Err (Chain error), w, log)
                 else settle_loop host config policy submission (retries_left - 1)
                        (min (2 * pause) (po_max policy)) (w, log))
          else Some (Err (Chain error), w, log))"

declare settle_loop.simps [simp del]

definition submit_until_settled ::
  "'w host \<Rightarrow> tx_config \<Rightarrow> retry_policy \<Rightarrow> submission \<Rightarrow> ('w, envelope \<times> send_status chain_result, queue_error, tx_outcome) act" where
  "submit_until_settled host config policy submission =
     settle_loop host config policy submission (sb_retries submission) (min (po_initial policy) (po_max policy))"

fun run_queue_with ::
  "'w host \<Rightarrow> tx_config \<Rightarrow> retry_policy \<Rightarrow> ('w \<Rightarrow> 'w) \<Rightarrow> submission list \<Rightarrow> 'w \<times> send_log
   \<Rightarrow> ((queue_error, tx_outcome) result list \<times> 'w \<times> send_log) option" where
  "run_queue_with host config policy recv [] s = Some ([], s)"
| "run_queue_with host config policy recv (queued # rest) s =
     (case s of
        (w, log) \<Rightarrow>
          let w = recv w in
          (case (if ho_shutdown host w then Some (Err ShuttingDown, w, log)
                 else submit_until_settled host config policy queued (w, log)) of
             None \<Rightarrow> None
           | Some (answer, s) \<Rightarrow>
               (case run_queue_with host config policy recv rest s of
                  None \<Rightarrow> None
                | Some (answers, s) \<Rightarrow> Some (answer # answers, s))))"

text \<open>\<open>run_queue\<close>.\<close>

definition run_queue ::
  "'w host \<Rightarrow> tx_config \<Rightarrow> ('w \<Rightarrow> 'w) \<Rightarrow> submission list \<Rightarrow> 'w \<times> send_log
   \<Rightarrow> ((queue_error, tx_outcome) result list \<times> 'w \<times> send_log) option" where
  "run_queue host config recv queue = run_queue_with host config RetryPolicy_DEFAULT recv queue"

section \<open>Resolving\<close>

lemma resolve_answers:
  assumes "resolve host config policy prepared s = Some res"
  shows "\<exists>out w'. res = (Ok out, w', snd s) \<and> tx_outcome_hash out = pp_hash prepared
    \<and> (is_unknown out \<longrightarrow> ho_shutdown host w')"
proof (rule resolve.raw_induct [where P = "\<lambda>host config policy prepared s res.
    \<exists>out w'. res = (Ok out, w', snd s) \<and> tx_outcome_hash out = pp_hash prepared
    \<and> (is_unknown out \<longrightarrow> ho_shutdown host w')", OF _ assms])
  fix f and host :: "'a host" and config policy prepared s res
  let ?P = "\<lambda>host prepared s res. \<exists>out w'. res = (Ok out, w', snd s) \<and> tx_outcome_hash out = pp_hash prepared
    \<and> (is_unknown out \<longrightarrow> ho_shutdown host w')"
  assume IH: "\<And>host config policy prepared s res. f host config policy prepared s = Some res \<Longrightarrow> ?P host prepared s res"
    and eq: "(case wait_for host config (pp_hash prepared) (pp_sequence prepared) (pp_window prepared) s of
        None \<Rightarrow> None
      | Some (Inl e, w, log) \<Rightarrow> Some (Err e, w, log)
      | Some (Inr outcome, w, log) \<Rightarrow>
          if \<not> is_unknown outcome \<or> ho_shutdown host w then Some (Ok outcome, w, log)
          else
            (case pause_unless_shutdown host (po_resolve_pause policy) w of
               (go, w) \<Rightarrow>
                 if \<not> go then Some (Ok outcome, w, log)
                 else f host config policy prepared (w, log))) = Some res"
  from eq obtain r w log where "wait_for host config (pp_hash prepared) (pp_sequence prepared) (pp_window prepared)
      (fst s, snd s) = Some (r, w, log)" by (auto split: option.splits)
  moreover from logsD [OF wait_for_answers this] obtain out where out: "r = Ok out" "log = snd s"
    "tx_outcome_hash out = pp_hash prepared" by auto
  ultimately have body: "(if \<not> is_unknown out \<or> ho_shutdown host w then Some (Ok out, w, snd s)
          else
            (case pause_unless_shutdown host (po_resolve_pause policy) w of
               (go, w) \<Rightarrow>
                 if \<not> go then Some (Ok out, w, snd s)
                 else f host config policy prepared (w, snd s))) = Some res"
    using eq by simp
  show "?P host prepared s res"
  proof (cases "\<not> is_unknown out \<or> ho_shutdown host w")
    case True
    then show ?thesis using body out(3) by auto
  next
    case False
    let ?w = "ho_pause host (po_resolve_pause policy) w"
    have p: "pause_unless_shutdown host (po_resolve_pause policy) w = (\<not> ho_shutdown host ?w, ?w)"
      by (simp add: pause_unless_shutdown_def Let_def)
    show ?thesis
    proof (cases "ho_shutdown host ?w")
      case True
      then show ?thesis using body False out(3) by (auto simp: p)
    next
      case go: False
      then have "f host config policy prepared (?w, snd s) = Some res" using body False by (simp add: p)
      from IH [OF this] show ?thesis by simp
    qed
  qed
qed

lemma resolve_logs:
  "logs (resolve host config policy prepared) (\<lambda>r ev. ev = [] \<and> (\<exists>out. r = Ok out \<and> tx_outcome_hash out = pp_hash prepared))"
  by (rule logsI) (auto dest!: resolve_answers)

section \<open>What a submission sends\<close>

text \<open>
  A send of the submission's own operation, as opposed to a restore that \<open>prepare\<close> made;
  and a log in which one that may have been accepted is the last of all.
\<close>

definition own_send :: "envelope \<times> send_status chain_result \<Rightarrow> bool" where
  "own_send x \<longleftrightarrow> tr_operation (en_tx (fst x)) \<noteq> RestoreFootprint"

definition final_accept :: "send_log \<Rightarrow> bool" where
  "final_accept ev \<longleftrightarrow> (\<forall>ys x zs. ev = ys @ x # zs \<and> own_send x \<and> \<not> refused_answer (snd x) \<longrightarrow> zs = [])"

definition own_refused :: "send_log \<Rightarrow> bool" where
  "own_refused ev \<longleftrightarrow> (\<forall>x \<in> set ev. own_send x \<longrightarrow> refused_answer (snd x))"

lemma own_refused_append [simp]: "own_refused (xs @ ys) \<longleftrightarrow> own_refused xs \<and> own_refused ys"
  by (auto simp: own_refused_def)

lemma final_accept_append:
  assumes "own_refused xs" "final_accept ys"
  shows "final_accept (xs @ ys)"
  unfolding final_accept_def
proof (intro allI impI)
  fix as x bs
  assume *: "xs @ ys = as @ x # bs \<and> own_send x \<and> \<not> refused_answer (snd x)"
  then consider us where "xs = as @ us" "us @ ys = x # bs" | us where "as = xs @ us" "ys = us @ x # bs"
    by (auto simp: append_eq_append_conv2)
  then show "bs = []"
  proof cases
    case 1
    show ?thesis
    proof (cases us)
      case Nil
      with 1 have "ys = [] @ x # bs" by simp
      with assms(2) * show ?thesis unfolding final_accept_def by blast
    next
      case (Cons u us')
      with 1 have "x \<in> set xs" by simp
      with assms(1) * show ?thesis by (auto simp: own_refused_def)
    qed
  next
    case 2
    with assms(2) * show ?thesis unfolding final_accept_def by blast
  qed
qed

lemma restores_refused: "restores ev \<Longrightarrow> own_refused ev"
  by (auto simp: restores_def list_all_iff own_refused_def own_send_def)

lemma refused_final: "own_refused ev \<Longrightarrow> final_accept ev"
  by (auto simp: own_refused_def final_accept_def)

lemma butlast_refused_final: "all_refused (butlast ev) \<Longrightarrow> final_accept ev"
proof (cases ev rule: rev_cases)
  case (snoc xs x)
  moreover assume "all_refused (butlast ev)"
  ultimately have "own_refused xs" by (auto simp: all_refused_def list_all_iff own_refused_def)
  moreover have "final_accept [x]" by (auto simp: final_accept_def Cons_eq_append_conv)
  ultimately show ?thesis using final_accept_append snoc by blast
qed (simp add: final_accept_def)

text \<open>The judgement every attempt, and the whole submission, satisfies.\<close>

definition sent_once :: "'w host \<Rightarrow> nat \<Rightarrow> ('e, tx_outcome) result \<Rightarrow> send_log \<Rightarrow> bool" where
  "sent_once host n r ev \<longleftrightarrow> final_accept ev \<and> length ev \<le> n
     \<and> (\<forall>e. r = Err e \<longrightarrow> own_refused ev)
     \<and> (\<forall>out x. r = Ok out \<and> x \<in> set ev \<and> own_send x \<and> \<not> refused_answer (snd x) \<longrightarrow>
          xdr (ho_envelope_hash host (fst x)) = Ok (tx_outcome_hash out))"

lemma sent_once_after:
  "own_refused ev \<Longrightarrow> length ev \<le> m \<Longrightarrow> sent_once host n r ev' \<Longrightarrow> sent_once host (m + n) r (ev @ ev')"
  by (auto simp: sent_once_def own_refused_def final_accept_append)

lemma send_once:
  assumes "sealed_for host operation p" "operation \<noteq> RestoreFootprint"
  shows "logs (io_try (tx_send host config p) (\<lambda>sent.
     case sent of
       Inl error \<Rightarrow> if is_refusal error then io_lift (Err error) else resolve host config policy p
     | Inr _ \<Rightarrow> resolve host config policy p)) (sent_once host 2)"
proof (rule logs_try [OF tx_send_logs, where Q = "\<lambda>sent r ev. ev = []
    \<and> (case sent of Inl e \<Rightarrow> if is_refusal e then r = Err e else \<exists>out. r = Ok out \<and> tx_outcome_hash out = pp_hash p
       | Inr _ \<Rightarrow> \<exists>out. r = Ok out \<and> tx_outcome_hash out = pp_hash p)"], goal_cases)
  case (1 sent)
  show ?case
  proof (cases sent)
    case (Inl e)
    then show ?thesis by (cases "is_refusal e") (auto intro: logs_lift logs_mono [OF resolve_logs])
  next
    case (Inr u)
    then show ?thesis by (auto intro: logs_mono [OF resolve_logs])
  qed
next
  case (2 sent ev r ev')
  then have s: "\<forall>x \<in> set ev. fst x = pp_envelope p" "length ev \<le> 2" "all_refused (butlast ev)"
    and ref: "\<And>e. sent = Err e \<Longrightarrow> is_refusal e \<Longrightarrow> all_refused ev" and ev': "ev' = []"
    by (auto simp: sends_of_def)
  have "own_refused ev" if "r = Err e" for e
    using 2(2) that ref by (cases sent) (auto simp: all_refused_def list_all_iff own_refused_def split: if_splits)
  moreover have "tx_outcome_hash out = pp_hash p" if "r = Ok out" for out
    using 2(2) that by (cases sent) (auto split: if_splits)
  ultimately show ?case using s assms(1) butlast_refused_final [OF s(3)]
    by (auto simp: sent_once_def ev' sealed_for_def)
qed

lemma attempt_sends_once:
  assumes "sb_operation submission \<noteq> RestoreFootprint"
  shows "logs (attempt host config policy submission) (sent_once host 4)"
  unfolding attempt_def
proof (rule logs_seq [OF tx_prepare_logs], goal_cases)
  case (1 p ev)
  then have p: "sealed_for host (sb_operation submission) p" "own_refused ev" "length ev \<le> 2"
    by (auto intro: restores_refused)
  from sent_once_after [OF p(2,3), of host 2] show ?case by (intro logs_mono [OF send_once [OF p(1) assms]]) simp
next
  case (2 e ev)
  then show ?case using restores_refused refused_final by (auto simp: sent_once_def)
qed

lemma settle_loop_sends_once:
  assumes "sb_operation submission \<noteq> RestoreFootprint"
  shows "logs (settle_loop host config policy submission n pause) (sent_once host (4 * Suc n))"
proof (induction n arbitrary: pause)
  case 0
  show ?case
  proof (rule logsI)
    fix w log r w' log'
    assume run: "settle_loop host config policy submission 0 pause (w, log) = Some (r, w', log')"
    then obtain r0 where at: "attempt host config policy submission (w, log) = Some (r0, w', log')"
      and r: "r = (case r0 of Inl e \<Rightarrow> Err (Chain e) | Inr out \<Rightarrow> Ok out)"
      by (subst (asm) settle_loop.simps) (auto split: option.splits sum.splits)
    from logsD [OF attempt_sends_once [OF assms] at] r show "\<exists>ev. log' = log @ ev \<and> sent_once host (4 * Suc 0) r ev"
      by (auto simp: sent_once_def split: sum.splits)
  qed
next
  case (Suc n)
  show ?case
  proof (rule logsI)
    fix w log r w' log'
    assume run: "settle_loop host config policy submission (Suc n) pause (w, log) = Some (r, w', log')"
    then obtain r0 w1 log1 where at: "attempt host config policy submission (w, log) = Some (r0, w1, log1)"
      by (subst (asm) settle_loop.simps) (auto split: option.splits)
    from logsD [OF attempt_sends_once [OF assms] at] obtain ev where ev: "log1 = log @ ev" "sent_once host 4 r0 ev" by blast
    show "\<exists>ev. log' = log @ ev \<and> sent_once host (4 * Suc (Suc n)) r ev"
    proof (cases "\<exists>e. r0 = Err e \<and> sent_nothing e \<and> \<not> ho_shutdown host (ho_pause host pause w1)")
      case True
      then obtain e where e: "r0 = Err e" "sent_nothing e" "\<not> ho_shutdown host (ho_pause host pause w1)" by blast
      then have "settle_loop host config policy submission n (min (2 * pause) (po_max policy))
          (ho_pause host pause w1, log1) = Some (r, w', log')"
        using run at by (subst (asm) settle_loop.simps) (simp add: pause_unless_shutdown_def Let_def)
      from logsD [OF Suc this] obtain ev' where ev': "log' = log1 @ ev'" "sent_once host (4 * Suc n) r ev'" by blast
      have "own_refused ev" "length ev \<le> 4" using ev(2) e(1) by (simp_all add: sent_once_def)
      from sent_once_after [OF this ev'(2)] ev(1) ev'(1) show ?thesis by (intro exI [of _ "ev @ ev'"]) simp
    next
      case False
      with run at have "log' = log1 \<and> r = (case r0 of Inl e \<Rightarrow> Err (Chain e) | Inr out \<Rightarrow> Ok out)"
        by (subst (asm) settle_loop.simps)
          (auto simp: pause_unless_shutdown_def Let_def split: sum.splits if_splits)
      then show ?thesis using ev by (intro exI [of _ ev]) (auto simp: sent_once_def split: sum.splits)
    qed
  qed
qed


section \<open>Submissions are answered\<close>

lemma rpc_send_returns: "returns (rpc_send host envelope)"
  unfolding rpc_send_def by (intro returns_rules) (auto simp: returns_def Let_def split: prod.splits)

lemma tx_send_returns: "returns (tx_send host config p)"
  unfolding tx_send_def by (intro returns_rules rpc_send_returns) (auto intro: returns_rules rpc_send_returns)

lemma unsigned_tx_returns: "returns (unsigned_tx host config operation sequence latest_ledger fee)"
  unfolding unsigned_tx_def unix_now_def by (intro returns_rules)

lemma simulate_call_returns: "returns (simulate_call host config operation sequence latest_ledger)"
  unfolding simulate_call_def rpc_simulate_def
  by (intro returns_bind unsigned_tx_returns)
    (auto intro!: returns_rules split: prod.split simulation_outcome.split)

text \<open>
  What being answered needs of the world: the clock, pauses that last or are cut short by a
  shutdown, and a shutdown that is requested at some instant \<open>stop\<close> at the latest.
\<close>

definition stops_by :: "'w host \<Rightarrow> ('w \<Rightarrow> nat) \<Rightarrow> nat \<Rightarrow> bool" where
  "stops_by host time stop \<longleftrightarrow> clock_ok host time
     \<and> (\<forall>w d. ho_shutdown host (ho_pause host d w) \<or> time w + d \<le> time (ho_pause host d w))
     \<and> (\<forall>w. stop \<le> time w \<longrightarrow> ho_shutdown host w)"

lemma resolve_returns:
  assumes "stops_by host time stop" "0 < tc_poll_interval config" "0 < po_resolve_pause policy"
  shows "\<exists>res. resolve host config policy prepared (w, log) = Some res"
proof (induction "stop - time w" arbitrary: w rule: less_induct)
  case less
  have clock: "clock_ok host time" using assms(1) by (simp add: stops_by_def)
  obtain out w1 where wf: "wait_for host config (pp_hash prepared) (pp_sequence prepared) (pp_window prepared) (w, log)
      = Some (Ok out, w1, log)" and later: "time w \<le> time w1"
    using wait_for_returns_later [OF clock assms(2)] by blast
  let ?w = "ho_pause host (po_resolve_pause policy) w1"
  show ?case
  proof (cases "\<not> is_unknown out \<or> ho_shutdown host w1 \<or> ho_shutdown host ?w")
    case True
    then show ?thesis by (subst resolve.simps) (auto simp: wf pause_unless_shutdown_def Let_def)
  next
    case False
    then have "time w1 + po_resolve_pause policy \<le> time ?w" "\<not> stop \<le> time ?w" using assms(1) by (auto simp: stops_by_def)
    then have "stop - time ?w < stop - time w" using later assms(3) by linarith
    from less.hyps [OF this] False show ?thesis
      by (subst resolve.simps) (auto simp: wf pause_unless_shutdown_def Let_def)
  qed
qed

lemma attempt_returns:
  assumes "stops_by host time stop" "0 < tc_poll_interval config" "0 < po_resolve_pause policy"
  shows "returns (attempt host config policy submission)"
proof -
  have clock: "clock_ok host time" using assms(1) by (simp add: stops_by_def)
  have wait: "returns (tx_wait host config p)" for p
    using wait_for_returns_later [OF clock assms(2)] unfolding returns_def tx_wait_def by (metis surj_pair)
  have res: "returns (resolve host config policy p)" for p
    using resolve_returns [OF assms] unfolding returns_def by (metis surj_pair)
  have restore: "returns (tx_restore host config preamble sequence latest_ledger inclusion)"
    for preamble sequence latest_ledger inclusion
    unfolding tx_restore_def restore_sealed_def
    by (intro returns_bind returns_lift unsigned_tx_returns)
      (auto intro!: returns_rules tx_send_returns wait split: prod.split sum.split)
  have needed: "returns (restore_if_needed host config operation inclusion sequence call latest_ledger)"
    for operation inclusion sequence call latest_ledger
    unfolding restore_if_needed_def
    by (auto intro!: returns_rules restore simulate_call_returns split: option.split prod.split)
  have prepare: "returns (tx_prepare host config operation priority)" for operation priority
    unfolding tx_prepare_def Let_def
    by (intro returns_rules simulate_call_returns)
      (auto intro!: returns_rules needed unsigned_tx_returns split: prod.split)
  show ?thesis unfolding attempt_def
    by (intro returns_bind prepare returns_try tx_send_returns) (auto intro: returns_lift res split: sum.split)
qed

lemma settle_loop_returns:
  assumes "returns (attempt host config policy submission)"
  shows "returns (settle_loop host config policy submission n pause)"
proof (induction n arbitrary: pause)
  case 0
  show ?case unfolding returns_def
  proof
    fix s
    obtain r w log where "attempt host config policy submission s = Some (r, w, log)" using returnsD [OF assms] by blast
    then show "\<exists>r w log. settle_loop host config policy submission 0 pause s = Some (r, w, log)"
      by (subst settle_loop.simps) (cases r; auto)
  qed
next
  case (Suc n)
  show ?case unfolding returns_def
  proof
    fix s
    obtain r w log where at: "attempt host config policy submission s = Some (r, w, log)" using returnsD [OF assms] by blast
    obtain r' w' log' where "settle_loop host config policy submission n (min (2 * pause) (po_max policy))
        (ho_pause host pause w, log) = Some (r', w', log')" using returnsD [OF Suc] by blast
    with at show "\<exists>r w log. settle_loop host config policy submission (Suc n) pause s = Some (r, w, log)"
      by (subst settle_loop.simps) (cases r; auto simp: pause_unless_shutdown_def Let_def)
  qed
qed

section \<open>The order of the queue\<close>

lemma attempt_unknown:
  assumes "attempt host config policy submission s = Some (Ok out, w, log)" "is_unknown out"
  shows "ho_shutdown host w"
  using assms
  by (auto simp: attempt_def io_bind_def io_try_def io_lift_def split: option.splits sum.splits if_splits
      dest!: resolve_answers)

lemma settle_loop_unknown:
  "settle_loop host config policy submission n pause s = Some (Ok out, w, log) \<Longrightarrow> is_unknown out \<Longrightarrow> ho_shutdown host w"
proof (induction n arbitrary: pause s)
  case 0
  then show ?case
    by (subst (asm) settle_loop.simps) (auto split: option.splits sum.splits if_splits dest: attempt_unknown)
next
  case (Suc n)
  from Suc.prems(1) consider "attempt host config policy submission s = Some (Ok out, w, log)"
    | pause' s' where "settle_loop host config policy submission n pause' s' = Some (Ok out, w, log)"
    by (subst (asm) settle_loop.simps)
      (auto simp: pause_unless_shutdown_def Let_def split: option.splits sum.splits if_splits)
  then show ?case
  proof cases
    case 1
    then show ?thesis using Suc.prems(2) by (rule attempt_unknown)
  next
    case (2 pause' s')
    then show ?thesis using Suc.prems(2) by (rule Suc.IH)
  qed
qed

lemma queue_stopped:
  assumes "\<forall>w. ho_shutdown host w \<longrightarrow> ho_shutdown host (recv w)" "ho_shutdown host w"
  shows "\<exists>w'. run_queue_with host config policy recv queue (w, log)
    = Some (replicate (length queue) (Err ShuttingDown), w', log)"
  using assms(2)
proof (induction queue arbitrary: w)
  case (Cons q queue)
  from assms(1) Cons.prems Cons.IH [of "recv w"] show ?case by (auto simp: Let_def)
qed simp


section \<open>Properties\<close>

text \<open>
  C34: a submission is sent at most once. Of everything posted for it, a send of its own
  operation that may have reached the network is the last one, and the outcome answered is
  for that envelope's hash; an error is answered only when every send of it was refused, so
  its caller may take it that nothing was spent; and no more than four envelopes are posted
  for each of its attempts.
\<close>

theorem submission_sent_at_most_once:
  assumes "submit_until_settled host config policy submission (w, log) = Some (r, w', log')"
    and "sb_operation submission \<noteq> RestoreFootprint"
  shows "\<exists>ev. log' = log @ ev
    \<and> (\<forall>ys x zs. ev = ys @ x # zs \<and> own_send x \<and> \<not> refused_answer (snd x) \<longrightarrow> zs = [])
    \<and> (\<forall>e x. r = Err e \<and> x \<in> set ev \<and> own_send x \<longrightarrow> refused_answer (snd x))
    \<and> (\<forall>out x. r = Ok out \<and> x \<in> set ev \<and> own_send x \<and> \<not> refused_answer (snd x) \<longrightarrow>
          xdr (ho_envelope_hash host (fst x)) = Ok (tx_outcome_hash out))
    \<and> length ev \<le> 4 * Suc (sb_retries submission)"
proof -
  from logsD [OF settle_loop_sends_once [OF assms(2)] assms(1) [unfolded submit_until_settled_def]]
  show ?thesis unfolding sent_once_def final_accept_def own_refused_def by blast
qed

definition sample_submission :: submission where
  "sample_submission = \<lparr>sb_operation = InvokeHostFunction ''f'' [], sb_priority = Normal,
     sb_label = ''fill'', sb_retries = FILL_RETRIES\<rparr>"

lemma sample_stops: "stops_by sample_host fst 1000000"
  using sample_clock_ok by (auto simp: stops_by_def sample_host_def)

text \<open>
  C35: every submission is answered. Whatever the RPC does, once a shutdown is requested at
  some instant the submission in hand returns: no loop of the queue or of the write path runs
  on.
\<close>

theorem submission_always_answered:
  assumes "stops_by host time stop" "0 < tc_poll_interval config" "0 < po_resolve_pause policy"
  shows "\<exists>r w' log'. submit_until_settled host config policy submission (w, log) = Some (r, w', log')"
  unfolding submit_until_settled_def
  by (rule returnsD [OF settle_loop_returns [OF attempt_returns [OF assms]]])

theorem submission_always_answered_witness:
  "\<exists>r w' log'. submit_until_settled sample_host sample_tx_config RetryPolicy_DEFAULT sample_submission
     ((0, []), []) = Some (r, w', log')"
  by (rule submission_always_answered [OF sample_stops])
    (simp_all add: sample_tx_config_def tx_config_new_def RetryPolicy_DEFAULT_def)

theorem submission_sent_at_most_once_witness:
  "\<exists>r ev. length ev \<le> 44 \<and> (\<forall>e x. r = Err e \<and> x \<in> set ev \<and> own_send x \<longrightarrow> refused_answer (snd x))
     \<and> (\<exists>w'. submit_until_settled sample_host sample_tx_config RetryPolicy_DEFAULT sample_submission ((0, []), [])
          = Some (r, w', ev))"
proof -
  obtain r w' log' where run: "submit_until_settled sample_host sample_tx_config RetryPolicy_DEFAULT sample_submission
      ((0, []), []) = Some (r, w', log')"
    using returnsD [OF settle_loop_returns [OF attempt_returns [OF sample_stops]]]
    by (fastforce simp: submit_until_settled_def sample_tx_config_def tx_config_new_def RetryPolicy_DEFAULT_def)
  have "sb_operation sample_submission \<noteq> RestoreFootprint" by (simp add: sample_submission_def)
  from submission_sent_at_most_once [OF run this] run show ?thesis
    by (auto simp: sample_submission_def FILL_RETRIES_def)
qed

text \<open>
  C36: the key is freed only by a known outcome or by a shutdown. In a run of the queue, after
  a submission answered with an unknown outcome every later one is refused as shutting down,
  and nothing more is sent.
\<close>

theorem queue_waits_for_outcome:
  assumes "\<forall>w. ho_shutdown host w \<longrightarrow> ho_shutdown host (recv w)"
    and "run_queue_with host config policy recv queue s = Some (answers, s')"
    and "i < length queue" "answers ! i = Ok out" "is_unknown out"
  shows "length answers = length queue \<and> (\<forall>j. i < j \<and> j < length queue \<longrightarrow> answers ! j = Err ShuttingDown)
    \<and> (\<exists>w1. run_queue_with host config policy recv (take (Suc i) queue) s = Some (take (Suc i) answers, w1, snd s'))"
  using assms(2-4)
proof (induction queue arbitrary: s answers i)
  case (Cons q queue)
  obtain w log where s: "s = (w, log)" by (cases s)
  define first where "first = (if ho_shutdown host (recv w) then Some (Err ShuttingDown, recv w, log)
                 else submit_until_settled host config policy q (recv w, log))"
  from Cons.prems(1) obtain a s1 rest where first: "first = Some (a, s1)"
    and tail: "run_queue_with host config policy recv queue s1 = Some (rest, s')" and ans: "answers = a # rest"
    by (auto simp: s Let_def first_def [symmetric] split: option.splits)
  have step: "run_queue_with host config policy recv (q # qs) s = Some (a # as, s2)"
    if "run_queue_with host config policy recv qs s1 = Some (as, s2)" for qs as s2
    using first that by (auto simp: s Let_def first_def [symmetric])
  show ?case
  proof (cases i)
    case 0
    obtain w1 log1 where s1: "s1 = (w1, log1)" by (cases s1)
    have "a = Ok out" using Cons.prems(3) ans 0 by simp
    then have "ho_shutdown host w1"
      using first s1 assms(5) by (auto simp: first_def submit_until_settled_def split: if_splits dest: settle_loop_unknown)
    from queue_stopped [OF assms(1) this, of config policy queue log1] tail s1
    have rest: "rest = replicate (length queue) (Err ShuttingDown)" "snd s' = log1" by auto
    show ?thesis using rest ans 0 step [of "[]"] s1 by (auto simp: nth_Cons')
  next
    case (Suc k)
    then have k: "k < length queue" "rest ! k = Ok out" using Cons.prems ans by simp_all
    from Cons.IH [OF tail k] obtain w1 where IH: "length rest = length queue"
      "\<forall>j. k < j \<and> j < length queue \<longrightarrow> rest ! j = Err ShuttingDown"
      and run: "run_queue_with host config policy recv (take (Suc k) queue) s1 = Some (take (Suc k) rest, w1, snd s')" by blast
    have "answers ! j = Err ShuttingDown" if "i < j" "j < length (q # queue)" for j
      using that IH(2) ans Suc by (cases j) auto
    then show ?thesis using IH(1) ans Suc step [OF run] by simp
  qed
qed simp

text \<open>A run in which the RPC accepts the envelope and then cannot say what became of it.\<close>

abbreviation sample_bodies :: "string list" where
  "sample_bodies \<equiv> [[], ''PENDING'', ''OTHER'']"

lemma sample_from_hex: "from_hex (replicate 64 (CHR ''0'')) = Ok sample_hash"
proof -
  have "(of_char (CHR ''0'') :: nat) = 48" by simp
  then have "char_of (48 :: nat) = CHR ''0''" by (metis char_of_char)
  then have "to_hex (replicate n 0) = replicate (2 * n) (CHR ''0'')" for n
    by (induction n) (simp_all add: to_hex_def hex_digit_def)
  from this [of 32] have "to_hex sample_hash = replicate 64 (CHR ''0'')" by (simp add: sample_hash_def)
  then show ?thesis using hex_pairs_to_hex [of sample_hash] by (simp add: from_hex_def)
qed

definition sample_prepared :: prepared where
  "sample_prepared = (let tx = \<lparr>tr_source = ''G'', tr_fee = 105, tr_seq_num = 8, tr_max_time = 1299,
       tr_ledger_bounds = sample_window, tr_operation = InvokeHostFunction ''f'' [], tr_soroban_data = Some []\<rparr> in
     \<lparr>pp_envelope = \<lparr>en_tx = tx, en_signatures = [to_hex sample_hash]\<rparr>, pp_hash = sample_hash, pp_sequence = 8,
      pp_window = sample_window, pp_fee = 105, pp_resource_fee = 5\<rparr>)"

lemma sample_prepare:
  "tx_prepare sample_host sample_tx_config (InvokeHostFunction ''f'' []) Normal ((999999, sample_bodies), [])
     = Some (Ok sample_prepared, (999999, [''PENDING'', ''OTHER'']), [])"
  by (simp add: tx_prepare_def simulate_call_def restore_if_needed_def unsigned_tx_def unix_now_def rpc_simulate_def
      io_bind_def io_op_def io_lift_def sample_world_defs eval_simps checked_add_i64_def ledger_window_try_new_def
      assemble_def total_fee_def inclusion_fee_def seal_def sign_def TIME_BOUND_SECS_def sample_prepared_def Let_def)

abbreviation sample_log :: send_log where
  "sample_log \<equiv> [(pp_envelope sample_prepared, Ok \<lparr>ss_hash = sample_hash, ss_latest_ledger = 10, ss_outcome = Pending\<rparr>)]"

lemma sample_sent:
  "tx_send sample_host sample_tx_config sample_prepared ((999999, [''PENDING'', ''OTHER'']), [])
     = Some (Ok (), (999999, [''OTHER'']), sample_log)"
  by (simp add: tx_send_def rpc_send_def io_bind_def io_lift_def sample_host_def sample_read_send_def xdr_def
      rpc_call_def read_send_def sample_from_hex send_verdict_def)
    (simp add: io_lift_def send_verdict_def sample_prepared_def Let_def)

lemma sample_resolve:
  "resolve sample_host sample_tx_config RetryPolicy_DEFAULT sample_prepared ((999999, [''OTHER'']), log)
     = Some (Ok (Unknown sample_hash 8 sample_window), (1000999, []), log)"
  by (subst resolve.simps)
    (simp add: wait_for_def wait_loop.simps rpc_transaction_def io_bind_def io_op_def io_lift_def
      sample_host_def sample_read_transaction_def rpc_call_def read_transaction_def sample_codec_def xdr_def
      is_transient_def is_unknown_def pause_unless_shutdown_def RetryPolicy_DEFAULT_def sample_prepared_def Let_def)

lemma sample_run:
  "run_queue_with sample_host sample_tx_config RetryPolicy_DEFAULT (\<lambda>w. w) [sample_submission, sample_submission]
     ((999999, sample_bodies), [])
   = Some ([Ok (Unknown sample_hash 8 sample_window), Err ShuttingDown], (1000999, []), sample_log)"
proof -
  have "attempt sample_host sample_tx_config RetryPolicy_DEFAULT sample_submission ((999999, sample_bodies), [])
      = Some (Ok (Unknown sample_hash 8 sample_window), (1000999, []), sample_log)"
    by (simp add: attempt_def io_bind_def io_try_def sample_submission_def sample_prepare sample_sent sample_resolve)
  then have "submit_until_settled sample_host sample_tx_config RetryPolicy_DEFAULT sample_submission ((999999, sample_bodies), [])
      = Some (Ok (Unknown sample_hash 8 sample_window), (1000999, []), sample_log)"
    by (simp add: submit_until_settled_def settle_loop.simps)
  then show ?thesis by (simp add: Let_def) (simp add: sample_host_def)
qed

theorem queue_waits_for_outcome_witness:
  "[Ok (Unknown sample_hash 8 sample_window), Err ShuttingDown] ! 1 = (Err ShuttingDown :: (queue_error, tx_outcome) result)
   \<and> (\<exists>w1. run_queue_with sample_host sample_tx_config RetryPolicy_DEFAULT (\<lambda>w. w) [sample_submission]
        ((999999, sample_bodies), []) = Some ([Ok (Unknown sample_hash 8 sample_window)], w1, sample_log))"
  using queue_waits_for_outcome [OF _ sample_run, of 0 "Unknown sample_hash 8 sample_window"]
  by (simp add: is_unknown_def del: run_queue_with.simps)


end
