(* ===== verification/Setoff.thy ===== *)
theory Setoff
  imports Position
begin

text \<open>
  \<open>src/math/setoff.rs\<close>: what the pool's default path does to the reserves when a fill
  leaves the borrower with debt and no collateral. One pass over the liabilities: each is
  first set off against the borrower's own supply and the rest destroyed, charged to the
  suppliers of that reserve through its \<open>b_rate\<close>.
\<close>

section \<open>Definitions\<close>

record default_outcome =
  do_reserves :: "(nat, reserve) btree"
  do_defaulted :: bool

text \<open>Step 1 of the loop body: the borrower's own supply repays what it covers.\<close>

definition set_off :: "reserve \<Rightarrow> int \<Rightarrow> int \<Rightarrow> (reserve \<times> int) math_result" where
  "set_off reserve d_tokens claim =
     (if 0 < claim \<and> 0 < rd_b_rate (rs_data reserve) then
        rbind (to_asset_from_d_token reserve d_tokens) (\<lambda>debt_assets.
        rbind (to_b_token_up reserve debt_assets) (\<lambda>needed.
        let b_tokens = min claim needed in
        rbind (to_asset_from_b_token reserve b_tokens) (\<lambda>covered.
        rbind (to_d_token_down reserve covered) (\<lambda>freed.
        let repaid = min d_tokens freed in
        if 0 < repaid then
          rbind (ok_or Overflow (checked_sub (rd_b_supply (rs_data reserve)) b_tokens)) (\<lambda>b_supply.
          rbind (ok_or Overflow (checked_sub (rd_d_supply (rs_data reserve)) repaid)) (\<lambda>d_supply.
          rbind (ok_or Overflow (checked_sub d_tokens repaid)) (\<lambda>defaulted.
          Ok (set_data reserve ((rs_data reserve)\<lparr>rd_b_supply := b_supply, rd_d_supply := d_supply\<rparr>),
              defaulted))))
        else Ok (reserve, d_tokens)))))
      else Ok (reserve, d_tokens))"

text \<open>Step 2: what is left is destroyed and every supplier charged; the flag is \<open>defaulted_any = true\<close>.\<close>

definition charge_default :: "reserve \<Rightarrow> int \<Rightarrow> (reserve \<times> bool) math_result" where
  "charge_default reserve defaulted =
     (if 0 < defaulted then
        rbind (ok_or Overflow (checked_sub (rd_d_supply (rs_data reserve)) defaulted)) (\<lambda>d_supply.
        let reserve = set_data reserve ((rs_data reserve)\<lparr>rd_d_supply := d_supply\<rparr>) in
        if 0 < rd_b_supply (rs_data reserve) then
          rbind (to_asset_from_d_token reserve defaulted) (\<lambda>default_amount.
          rbind (div_ceil default_amount (rd_b_supply (rs_data reserve)) SCALAR_12) (\<lambda>loss.
          rbind (ok_or Overflow (checked_sub (rd_b_rate (rs_data reserve)) loss)) (\<lambda>b_rate.
          Ok (set_data reserve ((rs_data reserve)\<lparr>rd_b_rate := max b_rate 0\<rparr>), True))))
        else Ok (reserve, True))
      else Ok (reserve, False))"

definition default_reserve :: "int \<Rightarrow> int \<Rightarrow> reserve \<Rightarrow> (reserve \<times> bool) math_result" where
  "default_reserve claim d_tokens reserve =
     rbind (set_off reserve d_tokens claim) (\<lambda>(reserve, defaulted). charge_default reserve defaulted)"

text \<open>One turn of the loop over the borrower's liabilities.\<close>

definition default_liability ::
  "positions \<Rightarrow> nat \<times> int \<Rightarrow> (nat, reserve) btree \<times> bool \<Rightarrow> ((nat, reserve) btree \<times> bool) math_result" where
  "default_liability borrower = (\<lambda>(index, d_tokens) (reserves, defaulted_any).
     rbind (ok_or (MissingReserve index) (bt_get reserves index)) (\<lambda>reserve.
     rbind (default_reserve (bt_get0 (ps_supply borrower) index) d_tokens reserve) (\<lambda>(reserve, hit).
     Ok (bt_insert index reserve reserves, defaulted_any \<or> hit))))"

definition project_default ::
  "(nat, reserve) btree \<Rightarrow> oracle_prices \<Rightarrow> positions \<Rightarrow> default_outcome math_result" where
  "project_default reserves prices borrower =
     (if ps_liabilities borrower = [] then Ok \<lparr>do_reserves = reserves, do_defaulted = False\<rparr>
      else
        rbind (calculate_position_data reserves prices borrower) (\<lambda>data.
        if pd_collateral_raw data \<noteq> 0 then Ok \<lparr>do_reserves = reserves, do_defaulted = False\<rparr>
        else
          rbind (rfold (default_liability borrower) (ps_liabilities borrower) (reserves, False))
            (\<lambda>(reserves, defaulted_any).
          Ok \<lparr>do_reserves = reserves, do_defaulted = defaulted_any\<rparr>)))"

lemmas setoff_evals [eval_simps] = set_off_def charge_default_def default_reserve_def
  default_liability_def project_default_def bt_get0_def

section \<open>One reserve\<close>

text \<open>
  What the path does to one reserve: \<open>burned\<close> b-tokens of the borrower's own supply repay
  \<open>repaid\<close> d-tokens, the debt leaves \<open>d_supply\<close> whole, and the rate falls only when
  something was left to charge and only by the ceiling of the loss per remaining b-token.
\<close>

definition haircut :: "int \<Rightarrow> int \<Rightarrow> reserve \<Rightarrow> reserve \<Rightarrow> bool \<Rightarrow> bool" where
  "haircut claim d r r' hit \<longleftrightarrow>
     (\<exists>burned repaid rate.
        r' = set_data r ((rs_data r)\<lparr>rd_b_supply := rd_b_supply (rs_data r) - burned,
               rd_d_supply := rd_d_supply (rs_data r) - d, rd_b_rate := rate\<rparr>)
        \<and> 0 \<le> burned \<and> burned \<le> max 0 claim \<and> 0 \<le> repaid \<and> repaid \<le> d
        \<and> (hit \<longleftrightarrow> repaid < d)
        \<and> 0 \<le> rate \<and> rate \<le> rd_b_rate (rs_data r)
        \<and> (\<not> hit \<or> rd_b_supply (rs_data r) \<le> burned \<longrightarrow> rate = rd_b_rate (rs_data r))
        \<and> (hit \<and> burned < rd_b_supply (rs_data r) \<longrightarrow>
             (\<exists>a. to_asset_from_d_token r (d - repaid) = Ok a
                \<and> rate = max 0 (rd_b_rate (rs_data r) - cdiv (a * SCALAR_12) (rd_b_supply (rs_data r) - burned)))))"

lemma set_off_outcome:
  assumes "reserve_ok r" "0 \<le> d" "set_off r d claim = Ok (r', rest)"
  shows "\<exists>burned repaid. r' = set_data r ((rs_data r)\<lparr>rd_b_supply := rd_b_supply (rs_data r) - burned,
               rd_d_supply := rd_d_supply (rs_data r) - repaid\<rparr>)
    \<and> rest = d - repaid \<and> 0 \<le> burned \<and> burned \<le> max 0 claim \<and> 0 \<le> repaid \<and> repaid \<le> d"
proof (cases "r' = r \<and> rest = d")
  case True
  then show ?thesis using assms(2) by (intro exI [of _ 0]) (simp add: set_data_def)
next
  case False
  then have pos: "0 < claim" "0 < rd_b_rate (rs_data r)" using assms(3) by (auto simp: set_off_def split: if_splits)
  obtain a n f where a: "to_asset_from_d_token r d = Ok a" and n: "to_b_token_up r a = Ok n"
    and branch: "(if 0 < min d f then
          rbind (ok_or Overflow (checked_sub (rd_b_supply (rs_data r)) (min claim n))) (\<lambda>b_supply.
          rbind (ok_or Overflow (checked_sub (rd_d_supply (rs_data r)) (min d f))) (\<lambda>d_supply.
          rbind (ok_or Overflow (checked_sub d (min d f))) (\<lambda>defaulted.
          Ok (set_data r ((rs_data r)\<lparr>rd_b_supply := b_supply, rd_d_supply := d_supply\<rparr>), defaulted))))
        else Ok (r, d)) = Ok (r', rest)"
    using assms(3) [unfolded set_off_def if_P [OF conjI [OF pos]] Let_def] by (elim rbindE)
  have rp: "0 < min d f"
  proof (rule ccontr)
    assume "\<not> 0 < min d f"
    with branch False show False by (simp only: if_False sum.inject prod.inject simp_thms)
  qed
  have out: "r' = set_data r ((rs_data r)\<lparr>rd_b_supply := rd_b_supply (rs_data r) - min claim n,
               rd_d_supply := rd_d_supply (rs_data r) - min d f\<rparr>)" "rest = d - min d f"
    using branch unfolding if_P [OF rp] by auto
  have "0 \<le> a" using to_asset_nonneg(2) [OF a assms(2)] assms(1) by (simp add: reserve_ok_def)
  then have "0 \<le> n" using n pos by (simp add: to_b_token_up_def fixed_Ok_iff cdiv_nonneg)
  with out rp pos show ?thesis by (intro exI [of _ "min claim n"] exI [of _ "min d f"]) auto
qed

lemma charge_default_outcome:
  assumes "0 < rd_d_rate (rs_data r)" "0 \<le> rd_b_rate (rs_data r)" "0 \<le> rest"
    "charge_default r rest = Ok (r', hit)"
  shows "\<exists>rate. r' = set_data r ((rs_data r)\<lparr>rd_d_supply := rd_d_supply (rs_data r) - rest, rd_b_rate := rate\<rparr>)
    \<and> (hit \<longleftrightarrow> 0 < rest) \<and> 0 \<le> rate \<and> rate \<le> rd_b_rate (rs_data r)
    \<and> (\<not> hit \<or> rd_b_supply (rs_data r) \<le> 0 \<longrightarrow> rate = rd_b_rate (rs_data r))
    \<and> (hit \<and> 0 < rd_b_supply (rs_data r) \<longrightarrow>
        (\<exists>a. to_asset_from_d_token r rest = Ok a
          \<and> rate = max 0 (rd_b_rate (rs_data r) - cdiv (a * SCALAR_12) (rd_b_supply (rs_data r)))))"
proof (cases "0 < rest \<and> 0 < rd_b_supply (rs_data r)")
  case True
  let ?s = "rd_b_supply (rs_data r)"
  from True assms(4) obtain a where a: "to_asset_from_d_token r rest = Ok a"
    and r': "r' = set_data r ((rs_data r)\<lparr>rd_d_supply := rd_d_supply (rs_data r) - rest,
        rd_b_rate := max (rd_b_rate (rs_data r) - cdiv (a * SCALAR_12) ?s) 0\<rparr>)" and hit: hit
    by (auto simp: charge_default_def Let_def fixed_Ok_iff to_asset_from_d_token_def set_data_def)
  have "0 \<le> a" using to_asset_nonneg(2) [OF a] assms(1,3) by simp
  then have "0 \<le> cdiv (a * SCALAR_12) ?s" using True by (simp add: cdiv_nonneg)
  with a r' hit True assms(2) show ?thesis by (auto simp: max.commute)
next
  case False
  then show ?thesis using assms
    by (intro exI [of _ "rd_b_rate (rs_data r)"]) (auto simp: charge_default_def Let_def set_data_def split: if_splits)
qed

lemma default_reserve_haircut:
  assumes "reserve_ok r" "0 \<le> d" "default_reserve claim d r = Ok (r', hit)"
  shows "haircut claim d r r' hit"
proof -
  from assms(3) obtain r1 rest where s: "set_off r d claim = Ok (r1, rest)"
    and c: "charge_default r1 rest = Ok (r', hit)" by (auto simp: default_reserve_def)
  from set_off_outcome [OF assms(1,2) s] obtain burned repaid where
    r1: "r1 = set_data r ((rs_data r)\<lparr>rd_b_supply := rd_b_supply (rs_data r) - burned,
               rd_d_supply := rd_d_supply (rs_data r) - repaid\<rparr>)"
    and b: "rest = d - repaid" "0 \<le> burned" "burned \<le> max 0 claim" "0 \<le> repaid" "repaid \<le> d" by blast
  have rates: "0 < rd_d_rate (rs_data r1)" "0 \<le> rd_b_rate (rs_data r1)" "0 \<le> rest"
    using assms(1) b r1 by (auto simp: reserve_ok_def)
  have q: "to_asset_from_d_token r1 x = to_asset_from_d_token r x"
    "rd_b_supply (rs_data r1) = rd_b_supply (rs_data r) - burned"
    "rd_b_rate (rs_data r1) = rd_b_rate (rs_data r)" for x
    by (simp_all add: r1 to_asset_from_d_token_def)
  from charge_default_outcome [OF rates c, unfolded q] obtain rate where rate:
    "r' = set_data r1 ((rs_data r1)\<lparr>rd_d_supply := rd_d_supply (rs_data r1) - rest, rd_b_rate := rate\<rparr>)"
    "hit \<longleftrightarrow> 0 < rest" "0 \<le> rate" "rate \<le> rd_b_rate (rs_data r)"
    "\<not> hit \<or> rd_b_supply (rs_data r) - burned \<le> 0 \<longrightarrow> rate = rd_b_rate (rs_data r)"
    "hit \<and> 0 < rd_b_supply (rs_data r) - burned \<longrightarrow>
        (\<exists>a. to_asset_from_d_token r rest = Ok a
          \<and> rate = max 0 (rd_b_rate (rs_data r) - cdiv (a * SCALAR_12) (rd_b_supply (rs_data r) - burned)))"
    by blast
  have "r' = set_data r ((rs_data r)\<lparr>rd_b_supply := rd_b_supply (rs_data r) - burned,
               rd_d_supply := rd_d_supply (rs_data r) - d, rd_b_rate := rate\<rparr>)"
    using rate(1) b(1) by (simp add: r1 set_data_def)
  with rate(2-) b show ?thesis unfolding haircut_def
    by (intro exI [of _ burned] exI [of _ repaid] exI [of _ rate]) simp
qed

section \<open>A loop that rewrites one key a turn\<close>

text \<open>
  Distinct keys are visited at most once, so the loop is the pointwise application of its
  body: no turn reads what another wrote.
\<close>

locale keyed_loop =
  fixes step :: "'k::linorder \<times> 'a \<Rightarrow> ('k, 'v) btree \<times> bool \<Rightarrow> ('e, ('k, 'v) btree \<times> bool) result"
    and body :: "'k \<Rightarrow> 'a \<Rightarrow> 'v \<Rightarrow> ('e, 'v \<times> bool) result"
  assumes step_Ok: "step (k, a) (m, b) = Ok (m', b') \<Longrightarrow>
    \<exists>v v' hit. bt_get m k = Some v \<and> body k a v = Ok (v', hit) \<and> m' = bt_insert k v' m \<and> b' = (b \<or> hit)"
begin

definition written :: "('k, 'a) btree \<Rightarrow> ('k, 'v) btree \<Rightarrow> 'k \<Rightarrow> 'v option \<Rightarrow> bool" where
  "written es m k x \<longleftrightarrow> (case bt_get es k of
      None \<Rightarrow> x = bt_get m k
    | Some a \<Rightarrow> \<exists>v v' hit. bt_get m k = Some v \<and> body k a v = Ok (v', hit) \<and> x = Some v')"

definition any_hit :: "('k, 'a) btree \<Rightarrow> ('k, 'v) btree \<Rightarrow> bool" where
  "any_hit es m \<longleftrightarrow> (\<exists>k a v v'. (k, a) \<in> set es \<and> bt_get m k = Some v \<and> body k a v = Ok (v', True))"

lemma loop_pointwise:
  "rfold step es (m, b) = Ok (m', b') \<Longrightarrow> distinct (bt_keys es) \<Longrightarrow> bt_wf m \<Longrightarrow>
   bt_wf m' \<and> (\<forall>k. written es m k (bt_get m' k)) \<and> b' = (b \<or> any_hit es m)
   \<and> (\<forall>k \<in> set (bt_keys es). bt_get m k \<noteq> None)"
proof (induction es arbitrary: m b)
  case Nil
  then show ?case by (simp add: written_def any_hit_def)
next
  case (Cons e es)
  obtain k a where e: "e = (k, a)" by (cases e)
  from Cons.prems(1) obtain s1 where s1: "step e (m, b) = Ok s1" and rest: "rfold step es s1 = Ok (m', b')"
    by auto
  obtain m1 b1 where "s1 = (m1, b1)" by (cases s1)
  with s1 e step_Ok obtain v v' hit where v: "bt_get m k = Some v" "body k a v = Ok (v', hit)"
    and m1: "s1 = (bt_insert k v' m, b \<or> hit)" by blast
  have notin: "k \<notin> set (bt_keys es)" using Cons.prems(2) e by simp
  have "distinct (bt_keys es)" "bt_wf (bt_insert k v' m)" using Cons.prems e by simp_all
  from Cons.IH [OF rest [unfolded m1] this] have IH: "bt_wf m'"
    "\<And>j. written es (bt_insert k v' m) j (bt_get m' j)"
    "b' = ((b \<or> hit) \<or> any_hit es (bt_insert k v' m))"
    "\<forall>j \<in> set (bt_keys es). bt_get (bt_insert k v' m) j \<noteq> None" by blast+
  have "written (e # es) m j (bt_get m' j)" for j
  proof (cases "j = k")
    case True
    then show ?thesis using IH(2) [of k] notin v e
      by (simp add: written_def bt_get_eq_None_iff [THEN iffD2])
  next
    case False
    then show ?thesis using IH(2) [of j] e by (simp add: written_def split: option.splits)
  qed
  moreover have "any_hit (e # es) m \<longleftrightarrow> hit \<or> any_hit es (bt_insert k v' m)"
  proof -
    have "(j, x) \<in> set es \<Longrightarrow> j \<noteq> k" for j x using notin by (force simp: bt_keys_def)
    then show ?thesis using v e unfolding any_hit_def by (auto split: if_splits) (metis Inr_inject Pair_inject)+
  qed
  moreover have "\<forall>j \<in> set (bt_keys (e # es)). bt_get m j \<noteq> None"
    using IH(4) v e notin by (auto split: if_splits)
  ultimately show ?case using IH(1,3) by blast
qed

end

interpretation dl: keyed_loop "default_liability borrower"
  "\<lambda>k a r. default_reserve (bt_get0 (ps_supply borrower) k) a r" for borrower
  by unfold_locales (auto simp: default_liability_def)

section \<open>The whole path\<close>

definition gate_closed :: "(nat, reserve) btree \<Rightarrow> oracle_prices \<Rightarrow> positions \<Rightarrow> bool" where
  "gate_closed rs p borrower \<longleftrightarrow> ps_liabilities borrower = []
     \<or> (\<exists>d. calculate_position_data rs p borrower = Ok d \<and> pd_collateral_raw d \<noteq> 0)"

lemma project_default_cases:
  assumes "project_default rs p borrower = Ok out"
  shows "if gate_closed rs p borrower then out = \<lparr>do_reserves = rs, do_defaulted = False\<rparr>
    else rfold (default_liability borrower) (ps_liabilities borrower) (rs, False)
      = Ok (do_reserves out, do_defaulted out)"
  using assms by (auto simp: project_default_def gate_closed_def split: if_splits)

lemma project_default_open:
  assumes "reserves_ok rs" "positions_ok borrower" "project_default rs p borrower = Ok out"
    and "\<not> gate_closed rs p borrower"
  shows "bt_wf (do_reserves out)"
    and "bt_get (ps_liabilities borrower) i = None \<Longrightarrow> bt_get (do_reserves out) i = bt_get rs i"
    and "bt_get (ps_liabilities borrower) i = Some d \<Longrightarrow>
      \<exists>r r' hit. bt_get rs i = Some r \<and> bt_get (do_reserves out) i = Some r'
        \<and> haircut (bt_get0 (ps_supply borrower) i) d r r' hit \<and> (hit \<longrightarrow> do_defaulted out)"
proof -
  have wf: "bt_wf rs" "distinct (bt_keys (ps_liabilities borrower))"
    using assms(1,2) by (simp_all add: reserves_ok_def positions_ok_def bt_wf_distinct)
  from project_default_cases [OF assms(3)] assms(4)
  have loop: "rfold (default_liability borrower) (ps_liabilities borrower) (rs, False)
      = Ok (do_reserves out, do_defaulted out)" by simp
  note pw = dl.loop_pointwise [OF loop wf(2,1)]
  then have w: "dl.written borrower (ps_liabilities borrower) rs i (bt_get (do_reserves out) i)" by blast
  show "bt_wf (do_reserves out)" using pw by blast
  show "bt_get (do_reserves out) i = bt_get rs i" if "bt_get (ps_liabilities borrower) i = None"
    using w that by (simp add: dl.written_def)
  assume d: "bt_get (ps_liabilities borrower) i = Some d"
  with w obtain r r' hit where r: "bt_get rs i = Some r" "bt_get (do_reserves out) i = Some r'"
    and b: "default_reserve (bt_get0 (ps_supply borrower) i) d r = Ok (r', hit)"
    by (auto simp: dl.written_def)
  have "0 \<le> d" using bt_get_value [OF d] assms(2) by (simp add: positions_ok_def)
  moreover have "reserve_ok r" using reserves_okD [OF assms(1) r(1)] by simp
  ultimately have "haircut (bt_get0 (ps_supply borrower) i) d r r' hit" using b default_reserve_haircut by blast
  moreover have "hit \<longrightarrow> do_defaulted out" using pw r b bt_get_in_set [OF d] by (auto simp: dl.any_hit_def)
  ultimately show "\<exists>r r' hit. bt_get rs i = Some r \<and> bt_get (do_reserves out) i = Some r'
        \<and> haircut (bt_get0 (ps_supply borrower) i) d r r' hit \<and> (hit \<longrightarrow> do_defaulted out)" using r by blast
qed

text \<open>The same reserve at a rate that is no higher.\<close>

definition lowered :: "reserve \<Rightarrow> reserve \<Rightarrow> bool" where
  "lowered r r' \<longleftrightarrow> rs_asset r' = rs_asset r \<and> rs_config r' = rs_config r \<and> rs_scalar r' = rs_scalar r
     \<and> rd_d_rate (rs_data r') = rd_d_rate (rs_data r)
     \<and> 0 \<le> rd_b_rate (rs_data r') \<and> rd_b_rate (rs_data r') \<le> rd_b_rate (rs_data r)"

lemma haircut_lowered: "haircut claim d r r' hit \<Longrightarrow> lowered r r'"
  by (auto simp: haircut_def lowered_def)

lemma project_default_lowered:
  assumes "reserves_ok rs" "positions_ok borrower" "project_default rs p borrower = Ok out"
  shows "rel_option lowered (bt_get rs i) (bt_get (do_reserves out) i)"
proof (cases "gate_closed rs p borrower \<or> bt_get (ps_liabilities borrower) i = None")
  case True
  then have "bt_get (do_reserves out) i = bt_get rs i"
    using project_default_cases [OF assms(3)] project_default_open(2) [OF assms] by fastforce
  moreover have "lowered r r" if "bt_get rs i = Some r" for r
    using reserves_okD [OF assms(1) that] by (simp add: lowered_def reserve_ok_def)
  ultimately show ?thesis by (cases "bt_get rs i") simp_all
next
  case False
  then obtain d where "bt_get (ps_liabilities borrower) i = Some d" by auto
  from project_default_open(3) [OF assms _ this] False haircut_lowered show ?thesis by fastforce
qed

section \<open>What a lowered rate does to a valuation\<close>

lemma lowered_collateral_value:
  assumes "rel_option lowered (bt_get rs i) (bt_get rs' i)" "reserves_ok rs" "prices_ok p" "0 \<le> b"
    and "collateral_value rs p (i, b) = Ok (vb, vr)" "collateral_value rs' p (i, b) = Ok (vb', vr')"
  shows "vb' \<le> vb \<and> vr' \<le> vr"
proof (cases "b = 0")
  case False
  with assms(5) obtain r x e a where r: "bt_get rs i = Some r" and x: "oracle_price p (rs_asset r) = Ok x"
    and ea: "to_effective_asset_from_b_token r b = Ok e" "to_asset_from_b_token r b = Ok a"
    and v: "mul_floor x e (rs_scalar r) = Ok vb" "mul_floor x a (rs_scalar r) = Ok vr"
    by (auto simp: collateral_value_def)
  from assms(1) r obtain r' where r': "bt_get rs' i = Some r'" and low: "lowered r r'" by (auto elim: option.rel_cases)
  from assms(6) False r' low x obtain e' a' where
    ea': "to_effective_asset_from_b_token r' b = Ok e'" "to_asset_from_b_token r' b = Ok a'"
    and v': "mul_floor x e' (rs_scalar r) = Ok vb'" "mul_floor x a' (rs_scalar r) = Ok vr'"
    by (auto simp: collateral_value_def lowered_def)
  have a: "a' \<le> a" using ea(2) ea'(2) low assms(4)
    by (auto simp: to_asset_from_b_token_def lowered_def intro: mul_floor_mono2 mult_left_mono)
  then have "a' * int (rc_c_factor (rs_config r)) \<le> a * int (rc_c_factor (rs_config r))"
    by (simp add: mult_right_mono)
  then have e: "e' \<le> e" using ea ea' low
    by (auto simp: to_effective_asset_from_b_token_def lowered_def elim: mul_floor_mono2)
  have "0 < x" by (rule price_pos [OF assms(3) x])
  moreover have "0 < rs_scalar r" using reserve_ok_scalar_pos reserves_okD [OF assms(2) r] by blast
  ultimately show ?thesis using mul_floor_mono2 [OF v'(1) v(1)] mul_floor_mono2 [OF v'(2) v(2)] a e
    by (simp add: mult_left_mono)
qed (use assms in \<open>simp add: collateral_value_def\<close>)

lemma lowered_liability_value:
  assumes "rel_option lowered (bt_get rs i) (bt_get rs' i)"
  shows "liability_value rs' p (i, d) = liability_value rs p (i, d)"
  using assms
  by (cases "bt_get rs i"; cases "bt_get rs' i")
    (auto simp: liability_value_def lowered_def to_effective_asset_from_d_token_def to_asset_from_d_token_def)

lemma lowered_collateral_sums:
  assumes "\<And>i. rel_option lowered (bt_get rs i) (bt_get rs' i)" "reserves_ok rs" "prices_ok p"
  shows "\<forall>v \<in> set (bt_values es). 0 \<le> v \<Longrightarrow> valued (collateral_value rs p) es \<Longrightarrow>
    valued (collateral_value rs' p) es \<Longrightarrow>
    base_sum (collateral_value rs' p) es \<le> base_sum (collateral_value rs p) es
    \<and> raw_sum (collateral_value rs' p) es \<le> raw_sum (collateral_value rs p) es"
proof (induction es)
  case (Cons e es)
  obtain i b where e: "e = (i, b)" by (cases e)
  from Cons.prems e obtain vb vr vb' vr' where v: "collateral_value rs p (i, b) = Ok (vb, vr)"
    "collateral_value rs' p (i, b) = Ok (vb', vr')" by auto
  have "0 \<le> b" using Cons.prems(1) e by simp
  from lowered_collateral_value [OF assms(1) assms(2,3) this v] Cons e v show ?case by simp
qed simp

lemma lowered_liability_sums:
  assumes "\<And>i. rel_option lowered (bt_get rs i) (bt_get rs' i)"
  shows "base_sum (liability_value rs' p) es = base_sum (liability_value rs p) es"
    and "raw_sum (liability_value rs' p) es = raw_sum (liability_value rs p) es"
proof -
  have "liability_value rs' p = liability_value rs p"
    using lowered_liability_value [OF assms] by (intro ext) (metis surj_pair)
  then show "base_sum (liability_value rs' p) es = base_sum (liability_value rs p) es"
    "raw_sum (liability_value rs' p) es = raw_sum (liability_value rs p) es" by simp_all
qed

section \<open>Properties\<close>


definition sample_defaulter :: positions where
  "sample_defaulter = \<lparr>ps_collateral = [], ps_liabilities = [(1, 10 ^ 8)], ps_supply = []\<rparr>"

lemma sample_defaulter_ok: "positions_ok sample_defaulter"
  by (simp add: positions_ok_def sample_defaulter_def)

lemma sample_default_runs:
  "\<not> gate_closed sample_reserves sample_prices sample_defaulter
   \<and> (\<exists>out. project_default sample_reserves sample_prices sample_defaulter = Ok out
        \<and> do_defaulted out \<and> bt_get (do_reserves out) 0 = bt_get sample_reserves 0
        \<and> (\<exists>r. bt_get (do_reserves out) 1 = Some r \<and> rd_b_rate (rs_data r) < rd_b_rate (rs_data sample_reserve)))"
  by (simp add: gate_closed_def sample_defaulter_def sample_pool_defs eval_simps Let_def)


text \<open>
  C14. Projecting against the defaulted reserves is never optimistic: any holder's
  collateral, effective or raw, is worth no more after the path than in the snapshot before
  it, and every liability is worth the same.
\<close>

theorem default_projection_never_optimistic:
  assumes "reserves_ok rs" "prices_ok p" "positions_ok borrower" "positions_ok holder"
    and "project_default rs p borrower = Ok out"
    and "calculate_position_data rs p holder = Ok before"
    and "calculate_position_data (do_reserves out) p holder = Ok later"
  shows "pd_collateral_base later \<le> pd_collateral_base before
    \<and> pd_collateral_raw later \<le> pd_collateral_raw before
    \<and> pd_liability_base later = pd_liability_base before
    \<and> pd_liability_raw later = pd_liability_raw before"
proof -
  note low = project_default_lowered [OF assms(1,3,5)]
  note b = calculate_position_data_sums [OF assms(6)] and l = calculate_position_data_sums [OF assms(7)]
  have "\<forall>v \<in> set (bt_values (ps_collateral holder)). 0 \<le> v" using assms(4) by (simp add: positions_ok_def)
  from lowered_collateral_sums [OF low assms(1,2) this] b l lowered_liability_sums [OF low]
  show ?thesis by simp
qed

definition sample_holder :: positions where
  "sample_holder = \<lparr>ps_collateral = [(1, 10 ^ 9)], ps_liabilities = [(0, 10 ^ 8)], ps_supply = []\<rparr>"

lemma sample_holder_ok: "positions_ok sample_holder"
  by (simp add: positions_ok_def sample_holder_def)

theorem default_projection_never_optimistic_witness:
  "\<exists>out before later. project_default sample_reserves sample_prices sample_defaulter = Ok out
    \<and> calculate_position_data sample_reserves sample_prices sample_holder = Ok before
    \<and> calculate_position_data (do_reserves out) sample_prices sample_holder = Ok later
    \<and> pd_collateral_base later \<le> pd_collateral_base before \<and> pd_collateral_base later \<noteq> pd_collateral_base before"
proof -
  have "\<exists>out before later. project_default sample_reserves sample_prices sample_defaulter = Ok out
    \<and> calculate_position_data sample_reserves sample_prices sample_holder = Ok before
    \<and> calculate_position_data (do_reserves out) sample_prices sample_holder = Ok later
    \<and> pd_collateral_base later \<noteq> pd_collateral_base before"
    by (simp add: sample_defaulter_def sample_holder_def sample_pool_defs eval_simps Let_def)
  then obtain out before later where
    ev: "project_default sample_reserves sample_prices sample_defaulter = Ok out"
      "calculate_position_data sample_reserves sample_prices sample_holder = Ok before"
      "calculate_position_data (do_reserves out) sample_prices sample_holder = Ok later"
    and ne: "pd_collateral_base later \<noteq> pd_collateral_base before" by blast
  note le = default_projection_never_optimistic
    [OF sample_reserves_ok sample_prices_ok sample_defaulter_ok sample_holder_ok ev]
  show ?thesis using conjI [OF ev(1) conjI [OF ev(2) conjI [OF ev(3) conjI [OF le [THEN conjunct1] ne]]]]
    by (intro exI)
qed

text \<open>
  The documentation of \<open>DefaultOutcome::defaulted\<close> says that when the set-off cleared every
  liability \<open>reserves\<close> is an unchanged clone. The code burns the b-tokens and the d-tokens
  the set-off used, so both supplies move although no rate does.
\<close>

lemma full_set_off_changes_supplies:
  "let borrower = \<lparr>ps_collateral = [], ps_liabilities = [(1, 10 ^ 6)], ps_supply = [(1, 10 ^ 8)]\<rparr> in
   case project_default sample_reserves sample_prices borrower of
     Err _ \<Rightarrow> False
   | Ok out \<Rightarrow> \<not> do_defaulted out
       \<and> (case bt_get (do_reserves out) 1 of None \<Rightarrow> False
          | Some r \<Rightarrow> rd_b_supply (rs_data r) < rd_b_supply (rs_data sample_reserve)
              \<and> rd_d_supply (rs_data r) < rd_d_supply (rs_data sample_reserve))"
  by (simp add: sample_pool_defs eval_simps Let_def)

end
