(* ===== verification/Fill.thy ===== *)
theory Fill
  imports Setoff Auction Liquidation
begin

text \<open>
  The pricing half of \<open>src/math/fill.rs\<close>: an auction as a position, the delay at which a
  fill meets its margin, the health floor, the small map helpers, and the largest supply a
  reserve's cap has room for. The planner that uses them is \<open>Fill_Plan\<close>.
\<close>

section \<open>Definitions\<close>

definition FORCE_FILL_MAX_DELAY :: nat where
  "FORCE_FILL_MAX_DELAY = 350"

definition BPS :: int where
  "BPS = 10000"

definition insert_side ::
  "(string, nat) btree \<Rightarrow> string \<times> int \<Rightarrow> (nat, int) btree \<Rightarrow> (nat, int) btree math_result" where
  "insert_side asset_index = (\<lambda>(asset, amount) m.
     rbind (ok_or (InvalidInput ''an auction names an asset that is not a reserve of this pool'')
             (bt_get asset_index asset)) (\<lambda>index.
     Ok (bt_insert index amount m)))"

definition auction_positions :: "auction_data \<Rightarrow> (string, nat) btree \<Rightarrow> positions math_result" where
  "auction_positions auction asset_index =
     rbind (rfold (insert_side asset_index) (ad_lot auction) []) (\<lambda>collateral.
     rbind (rfold (insert_side asset_index) (ad_bid auction) []) (\<lambda>liabilities.
     Ok (positions_default\<lparr>ps_collateral := collateral, ps_liabilities := liabilities\<rparr>)))"

text \<open>
  The comparison of \<open>fill_delay\<close> and the products of \<open>meets_margin\<close> are computed in 256
  bits, where they are exact: they are written on \<^typ>\<open>int\<close>.
\<close>

definition fill_delay :: "int \<Rightarrow> int \<Rightarrow> nat \<Rightarrow> bool \<Rightarrow> nat math_result" where
  "fill_delay lot_raw bid_raw profit_bps force_fill =
     (if lot_raw < 0 \<or> bid_raw < 0 then Err (InvalidInput ''an auction's value is never negative'')
      else
        let ramp = int RAMP_BLOCKS in
        rbind (ok_or Overflow (checked_add BPS (int profit_bps))) (\<lambda>margin.
        rbind
          (if bid_raw = 0 then Ok 0
           else if lot_raw = 0 then Ok RAMP_END_BLOCKS
           else if bid_raw * margin \<le> lot_raw * BPS then
             rbind (ok_or Overflow (checked_mul lot_raw BPS)) (\<lambda>denominator.
             rbind (ok_or Overflow (checked_mul ramp margin)) (\<lambda>factor.
             rbind (mul_ceil bid_raw factor denominator) (\<lambda>delay.
             ok_or Overflow (u32_try_from delay))))
           else
             rbind (ok_or Overflow (checked_mul bid_raw margin)) (\<lambda>denominator.
             rbind (ok_or Overflow (checked_mul ramp BPS)) (\<lambda>factor.
             rbind (mul_floor lot_raw factor denominator) (\<lambda>covered.
             rbind (ok_or Overflow (u32_try_from covered)) (\<lambda>covered.
             ok_or Overflow (checked_sub_unsigned RAMP_END_BLOCKS covered))))))
        (\<lambda>delay. Ok (if force_fill then min delay FORCE_FILL_MAX_DELAY else delay))))"

definition meets_margin :: "nat \<Rightarrow> int \<Rightarrow> int \<Rightarrow> nat \<Rightarrow> bool" where
  "meets_margin delay lot_raw bid_raw profit_bps \<longleftrightarrow>
     (let margin = BPS + int profit_bps in
      bid_raw * bid_modifier delay * margin \<le> lot_raw * lot_modifier delay * BPS)"

text \<open>The function \<open>health_floor\<close>; the field of the same name belongs to \<open>FillTerms\<close>.\<close>

definition health_floor :: "int \<Rightarrow> int \<Rightarrow> int math_result" where
  "health_floor min_health_factor multiplier = mul_ceil min_health_factor multiplier SCALAR_7"

definition to_oracle_units :: "int \<Rightarrow> int \<Rightarrow> int math_result" where
  "to_oracle_units value oracle_scalar = mul_floor value oracle_scalar SCALAR_7"

definition add_to :: "('k::linorder, int) btree \<Rightarrow> 'k \<Rightarrow> int \<Rightarrow> ('k, int) btree math_result" where
  "add_to m key amount =
     (if amount = 0 then Ok m
      else rbind (ok_or Overflow (checked_add (bt_get0 m key) amount)) (\<lambda>v. Ok (bt_insert key v m)))"

definition remove_from :: "(nat, int) btree \<Rightarrow> nat \<Rightarrow> int \<Rightarrow> (nat, int) btree math_result" where
  "remove_from m index amount =
     (case bt_get m index of
        None \<Rightarrow> Ok m
      | Some held \<Rightarrow>
          rbind (ok_or Overflow (checked_sub held amount)) (\<lambda>left.
          Ok (if 0 < left then bt_insert index left m else bt_remove index m)))"

text \<open>The closure \<open>fits\<close> of \<open>supply_headroom\<close>.\<close>

definition fits :: "reserve \<Rightarrow> int \<Rightarrow> bool math_result" where
  "fits reserve amount =
     rbind (to_b_token_down reserve amount) (\<lambda>minted.
     rbind (ok_or Overflow (checked_add (rd_b_supply (rs_data reserve)) minted)) (\<lambda>after.
     rbind (to_asset_from_b_token reserve after) (\<lambda>total.
     Ok (total \<le> rc_supply_cap (rs_config reserve)))))"

text \<open>
  Its \<open>while\<close> loop. \<open>low\<close> and \<open>high\<close> are never negative here, so \<open>/ 2\<close> is \<open>div\<close> and
  \<open>& 1\<close> is \<open>mod 2\<close>.
\<close>

function bisect :: "(int \<Rightarrow> bool math_result) \<Rightarrow> int \<Rightarrow> int \<Rightarrow> int math_result" where
  "bisect holds low high =
     (if low < high then
        let mid = low + (high - low) div 2 + (high - low) mod 2 in
        rbind (holds mid) (\<lambda>ok.
        if ok then bisect holds mid high else bisect holds low (mid - 1))
      else Ok low)"
  by pat_completeness auto
termination
  by (relation "measure (\<lambda>(holds, low, high). nat (high - low))") (simp_all; presburger)+

declare bisect.simps [simp del]

definition supply_headroom :: "reserve \<Rightarrow> int \<Rightarrow> int math_result" where
  "supply_headroom reserve wanted =
     (if wanted \<le> 0 then Ok 0
      else
        rbind (fits reserve wanted) (\<lambda>ok.
        if ok then Ok wanted else bisect (fits reserve) 0 wanted))"

lemmas fill_evals [eval_simps] = FORCE_FILL_MAX_DELAY_def BPS_def insert_side_def auction_positions_def
  fill_delay_def meets_margin_def health_floor_def to_oracle_units_def add_to_def remove_from_def
  fits_def supply_headroom_def

section \<open>Maps of amounts\<close>

text \<open>A map the contract could hold: sorted, and nothing in it negative.\<close>

definition nonneg :: "('k::linorder, int) btree \<Rightarrow> bool" where
  "nonneg m \<longleftrightarrow> bt_wf m \<and> (\<forall>k v. bt_get m k = Some v \<longrightarrow> 0 \<le> v)"

lemma nonneg_values: "nonneg m \<longleftrightarrow> bt_wf m \<and> (\<forall>v \<in> set (bt_values m). 0 \<le> v)"
  unfolding nonneg_def bt_values_def using bt_in_set_get by force

lemma positions_ok_nonneg:
  "positions_ok p \<longleftrightarrow> nonneg (ps_collateral p) \<and> nonneg (ps_liabilities p) \<and> nonneg (ps_supply p)"
  by (auto simp: positions_ok_def nonneg_values)

lemma nonneg_Nil [simp]: "nonneg []"
  by (simp add: nonneg_def)

lemma nonneg_insert [simp]: "nonneg m \<Longrightarrow> 0 \<le> v \<Longrightarrow> nonneg (bt_insert k v m)"
  by (auto simp: nonneg_def)

lemma nonneg_remove [simp]: "nonneg m \<Longrightarrow> nonneg (bt_remove k m)"
  by (auto simp: nonneg_def)

lemma nonneg_get0: "nonneg m \<Longrightarrow> 0 \<le> bt_get0 m k"
  by (auto simp: nonneg_def bt_get0_def split: option.splits)

lemma add_to_get0: "add_to m k a = Ok m' \<Longrightarrow> bt_get0 m' j = (if j = k then bt_get0 m k + a else bt_get0 m j)"
  by (auto simp: add_to_def split: if_splits)

lemma add_to_nonneg: "add_to m k a = Ok m' \<Longrightarrow> nonneg m \<Longrightarrow> 0 \<le> a \<Longrightarrow> nonneg m'"
  by (auto simp: add_to_def nonneg_get0 split: if_splits)

lemma remove_from_nonneg: "remove_from m k a = Ok m' \<Longrightarrow> nonneg m \<Longrightarrow> nonneg m'"
  by (auto simp: remove_from_def split: option.splits if_splits)

section \<open>The books of a plan\<close>

text \<open>
  What a planner keeps of the wallet \<open>w\<close> it was given: the copy it debits, the amounts it
  records as spent and what its requests spend agree, and no asset is spent past what the
  wallet held. Both planners are proved against it.
\<close>

definition balanced ::
  "(string, int) btree \<Rightarrow> (string, int) btree \<Rightarrow> (string, int) btree \<Rightarrow> (string \<Rightarrow> int) \<Rightarrow> bool" where
  "balanced w wallet spend spent \<longleftrightarrow>
     (\<forall>k. spent k = bt_get0 spend k \<and> bt_get0 wallet k = bt_get0 w k - bt_get0 spend k
        \<and> 0 \<le> bt_get0 spend k \<and> bt_get0 spend k \<le> max 0 (bt_get0 w k))"

lemma balancedD:
  assumes "balanced w wallet spend spent"
  shows "spent k = bt_get0 spend k" and "bt_get0 wallet k = bt_get0 w k - bt_get0 spend k"
    and "0 \<le> bt_get0 spend k" and "bt_get0 spend k \<le> max 0 (bt_get0 w k)"
  using assms by (simp_all add: balanced_def)

lemma balanced_start: "(\<And>k. spent k = 0) \<Longrightarrow> balanced w w [] spent"
  by (simp add: balanced_def)

lemma balanced_pay:
  assumes "balanced w wallet spend spent" "add_to spend k a = Ok spend'" "0 < a" "a \<le> bt_get0 wallet k"
    and "\<And>j. spent' j = spent j + (if j = k then a else 0)"
  shows "balanced w (bt_insert k (bt_get0 wallet k - a) wallet) spend' spent'"
  unfolding balanced_def
proof
  fix j
  show "spent' j = bt_get0 spend' j
    \<and> bt_get0 (bt_insert k (bt_get0 wallet k - a) wallet) j = bt_get0 w j - bt_get0 spend' j
    \<and> 0 \<le> bt_get0 spend' j \<and> bt_get0 spend' j \<le> max 0 (bt_get0 w j)"
    using balancedD [OF assms(1), of j] add_to_get0 [OF assms(2), of j] assms(3-) by auto
qed

section \<open>The delay\<close>

lemma meets_margin_mono:
  assumes "meets_margin d lot bid bps" "d \<le> e" "0 \<le> lot" "0 \<le> bid"
  shows "meets_margin e lot bid bps"
proof -
  have "bid * bid_modifier e * (BPS + int bps) \<le> bid * bid_modifier d * (BPS + int bps)"
    using bid_modifier_antimono [OF assms(2)] assms(4)
    by (intro mult_right_mono mult_left_mono) (simp_all add: BPS_def)
  also have "\<dots> \<le> lot * lot_modifier d * BPS" using assms(1) by (simp add: meets_margin_def)
  also have "\<dots> \<le> lot * lot_modifier e * BPS"
    using lot_modifier_mono [OF assms(2)] assms(3)
    by (intro mult_right_mono mult_left_mono) (simp_all add: BPS_def)
  finally show ?thesis by (simp add: meets_margin_def)
qed

lemma meets_margin_lot_ramp:
  assumes "d \<le> RAMP_BLOCKS"
  shows "meets_margin d lot bid bps \<longleftrightarrow> bid * (200 * (BPS + int bps)) \<le> int d * (lot * BPS)"
proof -
  have "bid * bid_modifier d * (BPS + int bps) = 50000 * (bid * (200 * (BPS + int bps)))"
    "lot * lot_modifier d * BPS = 50000 * (int d * (lot * BPS))"
    using assms by (simp_all add: bid_modifier_def lot_modifier_def ramp_defs)
  then show ?thesis unfolding meets_margin_def Let_def by linarith
qed

lemma meets_margin_bid_ramp:
  assumes "RAMP_BLOCKS \<le> d" "d \<le> RAMP_END_BLOCKS"
  shows "meets_margin d lot bid bps \<longleftrightarrow> int (RAMP_END_BLOCKS - d) * (bid * (BPS + int bps)) \<le> lot * (200 * BPS)"
proof -
  have l: "lot_modifier d = SCALAR_7" using assms by (simp add: lot_modifier_full_iff)
  have b: "bid_modifier d = 50000 * int (RAMP_END_BLOCKS - d)"
    using assms by (auto simp: bid_modifier_def ramp_defs of_nat_diff)
  have "meets_margin d lot bid bps \<longleftrightarrow>
      50000 * (int (RAMP_END_BLOCKS - d) * (bid * (BPS + int bps))) \<le> 50000 * (lot * (200 * BPS))"
    unfolding meets_margin_def l b Let_def by (simp add: SCALAR_7_def algebra_simps)
  then show ?thesis by linarith
qed

lemma fill_delay_lot_ramp:
  assumes "0 < lot" "0 < bid" "bid * (BPS + int bps) \<le> lot * BPS"
    and d: "int d = cdiv (bid * (200 * (BPS + int bps))) (lot * BPS)"
  shows "d \<le> RAMP_BLOCKS \<and> (\<forall>e. meets_margin e lot bid bps \<longleftrightarrow> d \<le> e)"
proof -
  have pos: "0 < lot * BPS" using assms(1) by (simp add: BPS_def)
  have le: "d \<le> e \<longleftrightarrow> bid * (200 * (BPS + int bps)) \<le> int e * (lot * BPS)" for e
    using cdiv_le_iff [OF pos, of _ "int e"] d by (metis of_nat_le_iff)
  have "bid * (200 * (BPS + int bps)) \<le> int 200 * (lot * BPS)" using assms(3) by (simp add: algebra_simps)
  then have r: "d \<le> RAMP_BLOCKS" using le [of 200] by (simp add: RAMP_BLOCKS_def)
  have "meets_margin e lot bid bps \<longleftrightarrow> d \<le> e" for e
  proof (cases "e \<le> RAMP_BLOCKS")
    case True
    then show ?thesis using meets_margin_lot_ramp le by blast
  next
    case False
    have "meets_margin d lot bid bps" using meets_margin_lot_ramp [OF r] le by blast
    then show ?thesis using meets_margin_mono [of d lot bid bps e] False r assms(1,2) by simp
  qed
  with r show ?thesis by blast
qed

lemma fill_delay_bid_ramp:
  assumes "0 < lot" "0 < bid" "lot * BPS < bid * (BPS + int bps)"
    and c: "int c = lot * (200 * BPS) div (bid * (BPS + int bps))"
  shows "c < RAMP_BLOCKS \<and> (\<forall>e. meets_margin e lot bid bps \<longleftrightarrow> RAMP_END_BLOCKS - c \<le> e)"
proof -
  have pos: "0 < bid * (BPS + int bps)" using assms(2) by (simp add: BPS_def)
  have le: "k \<le> c \<longleftrightarrow> int k * (bid * (BPS + int bps)) \<le> lot * (200 * BPS)" for k
    using le_fdiv_iff [OF pos, of "int k"] c by (metis of_nat_le_iff)
  have "\<not> int 200 * (bid * (BPS + int bps)) \<le> lot * (200 * BPS)" using assms(3) by (simp add: algebra_simps)
  then have r: "c < RAMP_BLOCKS" using le [of 200] by (simp add: RAMP_BLOCKS_def)
  have at_ramp: "meets_margin e lot bid bps \<longleftrightarrow> RAMP_END_BLOCKS - c \<le> e"
    if "RAMP_BLOCKS \<le> e" "e \<le> RAMP_END_BLOCKS" for e
    unfolding meets_margin_bid_ramp [OF that] le [symmetric] using that r by (auto simp: ramp_defs)
  have "meets_margin e lot bid bps \<longleftrightarrow> RAMP_END_BLOCKS - c \<le> e" for e
  proof -
    consider "e < RAMP_BLOCKS" | "RAMP_BLOCKS \<le> e \<and> e \<le> RAMP_END_BLOCKS" | "RAMP_END_BLOCKS < e" by linarith
    then show ?thesis
    proof cases
      case 1
      then have "\<not> meets_margin e lot bid bps"
        using meets_margin_mono [of e lot bid bps RAMP_BLOCKS] at_ramp [of RAMP_BLOCKS] assms(1,2) r
        by (auto simp: ramp_defs)
      with 1 r show ?thesis by (auto simp: ramp_defs)
    next
      case 3
      then show ?thesis
        using meets_margin_mono [of RAMP_END_BLOCKS lot bid bps e] at_ramp [of RAMP_END_BLOCKS] assms(1,2)
        by (auto simp: ramp_defs)
    qed (use at_ramp in blast)
  qed
  with r show ?thesis by blast
qed

lemma meets_margin_free: "0 \<le> lot \<Longrightarrow> meets_margin e lot 0 bps"
  by (simp add: meets_margin_def modifier_range BPS_def)

lemma meets_margin_worthless: "0 < bid \<Longrightarrow> meets_margin e 0 bid bps \<longleftrightarrow> RAMP_END_BLOCKS \<le> e"
  using modifier_range(1) [of e]
  by (auto simp: meets_margin_def BPS_def mult_le_0_iff simp flip: bid_modifier_zero_iff)

lemma fill_delay_threshold:
  assumes "fill_delay lot bid bps False = Ok d"
  shows "0 \<le> lot \<and> 0 \<le> bid \<and> d \<le> RAMP_END_BLOCKS \<and> (\<forall>e. meets_margin e lot bid bps \<longleftrightarrow> d \<le> e)"
proof -
  have nn: "0 \<le> lot" "0 \<le> bid" using assms by (auto simp: fill_delay_def split: if_splits)
  consider "bid = 0" | "lot = 0" "0 < bid" | "0 < lot" "0 < bid" "bid * (BPS + int bps) \<le> lot * BPS"
    | "0 < lot" "0 < bid" "lot * BPS < bid * (BPS + int bps)" using nn by linarith
  then show ?thesis
  proof cases
    case 3
    then have "int d = cdiv (bid * (200 * (BPS + int bps))) (lot * BPS)"
      using assms by (auto simp: fill_delay_def Let_def fixed_Ok_iff BPS_def RAMP_BLOCKS_def)
    from fill_delay_lot_ramp [OF 3 this] nn show ?thesis by (auto simp: ramp_defs)
  next
    case 4
    then have "0 < bid * (BPS + int bps)" by (simp add: BPS_def)
    with 4 assms have "int (nat (lot * (200 * BPS) div (bid * (BPS + int bps)))) = lot * (200 * BPS) div (bid * (BPS + int bps))"
      "d = RAMP_END_BLOCKS - nat (lot * (200 * BPS) div (bid * (BPS + int bps)))"
      by (auto simp: fill_delay_def Let_def fixed_Ok_iff RAMP_BLOCKS_def)
    with fill_delay_bid_ramp [OF 4 this(1)] nn show ?thesis by auto
  qed (use assms nn meets_margin_free meets_margin_worthless in \<open>auto simp: fill_delay_def\<close>)
qed

lemma fill_delay_force: "fill_delay lot bid bps True = rmap (min FORCE_FILL_MAX_DELAY) (fill_delay lot bid bps False)"
  by (simp add: fill_delay_def rmap_def Let_def rbind_assoc min.commute)

lemma fill_delay_total:
  assumes "0 \<le> lot" "0 \<le> bid" "in_i128 (lot * BPS)" "in_i128 (bid * (BPS + int bps))" "bps \<le> u32_max"
  shows "\<exists>d. fill_delay lot bid bps False = Ok d"
proof -
  have m: "in_i128 (BPS + int bps)" "in_i128 (200 * BPS)" "in_i128 (200 * (BPS + int bps))"
    using assms(5) by (simp_all add: BPS_def i128_defs u32_max_def)
  consider "bid = 0 \<or> lot = 0" | "0 < lot" "0 < bid" "bid * (BPS + int bps) \<le> lot * BPS"
    | "0 < lot" "0 < bid" "lot * BPS < bid * (BPS + int bps)" using assms(1,2) by linarith
  then show ?thesis
  proof cases
    case 2
    let ?q = "cdiv (bid * (200 * (BPS + int bps))) (lot * BPS)"
    have pos: "0 < lot * BPS" using 2 by (simp add: BPS_def)
    have "0 \<le> ?q" using pos 2 by (simp add: cdiv_nonneg BPS_def)
    moreover have "?q \<le> 200" unfolding cdiv_le_iff [OF pos] using 2(3) by (simp add: algebra_simps)
    ultimately show ?thesis using 2 assms(3) m pos
      by (simp add: fill_delay_def Let_def RAMP_BLOCKS_def fixed_evals checked_add_def checked_mul_def
          checked_i128_def u32_try_from_def i128_defs u32_max_def flip: cdiv_def)
  next
    case 3
    let ?q = "lot * (200 * BPS) div (bid * (BPS + int bps))"
    have pos: "0 < bid * (BPS + int bps)" using 3 by (simp add: BPS_def)
    have "0 \<le> ?q" using pos 3 by (simp add: fdiv_nonneg BPS_def)
    moreover have "\<not> 200 \<le> ?q" unfolding le_fdiv_iff [OF pos] using 3(3) by (simp add: algebra_simps)
    ultimately show ?thesis using 3 assms(4) m pos
      by (simp add: fill_delay_def Let_def ramp_defs fixed_evals checked_add_def checked_mul_def
          checked_i128_def u32_try_from_def i128_defs u32_max_def checked_sub_unsigned_def)
  qed (use m assms(1,2) in \<open>auto simp: fill_delay_def checked_add_def checked_i128_def Let_def\<close>)
qed

section \<open>The largest supply that fits\<close>

text \<open>
  A test that fails monotonically: once an amount fits so does every smaller one, and an
  amount that can be tested can be tested at every smaller size.
\<close>

locale monotone_test =
  fixes test :: "'r \<Rightarrow> int \<Rightarrow> bool math_result"
    and invar :: "'r \<Rightarrow> bool"
  assumes test_mono: "invar r \<Longrightarrow> test r a = Ok True \<Longrightarrow> 0 \<le> b \<Longrightarrow> b \<le> a \<Longrightarrow> test r b = Ok True"
    and test_total: "invar r \<Longrightarrow> test r a = Ok v \<Longrightarrow> 0 \<le> b \<Longrightarrow> b \<le> a \<Longrightarrow> \<exists>w. test r b = Ok w"
begin

lemma bisect_finds:
  assumes "invar r" "0 \<le> low" "low \<le> high" "test r cap = Ok v" "high \<le> cap"
    and "low = 0 \<or> test r low = Ok True" "\<And>a. high < a \<Longrightarrow> a \<le> cap \<Longrightarrow> test r a = Ok False"
  shows "\<exists>n. bisect (test r) low high = Ok n \<and> 0 \<le> n \<and> n \<le> high \<and> (n = 0 \<or> test r n = Ok True)
    \<and> (\<forall>a. n < a \<and> a \<le> cap \<longrightarrow> test r a = Ok False)"
  using assms(2-)
proof (induction "test r" low high rule: bisect.induct)
  case (1 low high)
  show ?case
  proof (cases "low < high")
    case False
    with "1.prems" show ?thesis by (subst bisect.simps) auto
  next
    case True
    let ?mid = "low + (high - low) div 2 + (high - low) mod 2"
    have mid: "low < ?mid" "?mid \<le> high" using True by presburger+
    obtain ok where ok: "test r ?mid = Ok ok"
      using test_total [OF assms(1) "1.prems"(3), of ?mid] mid "1.prems" by fastforce
    have step: "bisect (test r) low high = (if ok then bisect (test r) ?mid high else bisect (test r) low (?mid - 1))"
      using True ok by (subst bisect.simps) simp
    show ?thesis
    proof (cases ok)
      case True
      with "1.hyps"(1) [OF \<open>low < high\<close> refl ok] mid "1.prems" ok step show ?thesis by simp
    next
      case False
      have above: "test r a = Ok False" if "?mid - 1 < a" and le: "a \<le> cap" for a
      proof -
        have "0 \<le> ?mid" "?mid \<le> a" using mid "1.prems"(1) that by linarith+
        then have "test r a \<noteq> Ok True" using test_mono [OF assms(1), of a ?mid] ok False by auto
        moreover obtain w where "test r a = Ok w"
          using test_total [OF assms(1) "1.prems"(3), of a] \<open>0 \<le> ?mid\<close> \<open>?mid \<le> a\<close> le by fastforce
        ultimately show ?thesis by simp
      qed
      have "low \<le> ?mid - 1" "?mid - 1 \<le> cap" using mid "1.prems"(4) by linarith+
      from "1.hyps"(2) [OF \<open>low < high\<close> refl ok False "1.prems"(1) this(1) "1.prems"(3) this(2) "1.prems"(5) above]
      obtain n where "bisect (test r) low (?mid - 1) = Ok n" "0 \<le> n" "n \<le> ?mid - 1"
        "n = 0 \<or> test r n = Ok True" "\<forall>a. n < a \<and> a \<le> cap \<longrightarrow> test r a = Ok False" by blast
      moreover have "bisect (test r) low high = bisect (test r) low (?mid - 1)" using step False by simp
      ultimately show ?thesis using mid(2) by (intro exI [of _ n]) simp
    qed
  qed
qed

end

definition mintable :: "reserve \<Rightarrow> bool" where
  "mintable r \<longleftrightarrow> 0 < rd_b_rate (rs_data r) \<and> 0 \<le> rd_b_supply (rs_data r)"

lemma fits_Ok_iff:
  assumes "mintable r"
  shows "fits r a = Ok v \<longleftrightarrow>
    (let m = a * SCALAR_12 div rd_b_rate (rs_data r); s = rd_b_supply (rs_data r) + m;
         t = s * rd_b_rate (rs_data r) div SCALAR_12 in
     in_i128 m \<and> in_i128 s \<and> in_i128 t \<and> v = (t \<le> rc_supply_cap (rs_config r)))"
  using assms
  by (auto simp: fits_def mintable_def to_b_token_down_def to_asset_from_b_token_def fixed_Ok_iff Let_def)

interpretation hr: monotone_test fits mintable
proof unfold_locales
  fix r a b and v :: bool
  assume r: "mintable r" and f: "fits r a = Ok v" and b: "0 \<le> b" "b \<le> a"
  let ?m = "\<lambda>x. x * SCALAR_12 div rd_b_rate (rs_data r)" and ?s = "\<lambda>x. rd_b_supply (rs_data r) + x"
  let ?t = "\<lambda>x. x * rd_b_rate (rs_data r) div SCALAR_12"
  have m: "0 \<le> ?m b" "?m b \<le> ?m a" using r b by (auto simp: mintable_def fdiv_nonneg zdiv_mono1 mult_right_mono)
  have t: "0 \<le> ?t (?s (?m b))" "?t (?s (?m b)) \<le> ?t (?s (?m a))"
    using r m by (auto simp: mintable_def fdiv_nonneg intro!: zdiv_mono1 mult_right_mono)
  from f have "in_i128 (?m a)" "in_i128 (?s (?m a))" "in_i128 (?t (?s (?m a)))"
    by (simp_all add: fits_Ok_iff [OF r] Let_def)
  note bound = this [THEN in_i128_nonneg_le]
  have *: "in_i128 (?m b)" "in_i128 (?s (?m b))" "in_i128 (?t (?s (?m b)))"
    using bound(1) [OF m] bound(2) [of "?s (?m b)"] bound(3) [OF t] m r by (auto simp: mintable_def)
  then show "\<exists>w. fits r b = Ok w" by (simp add: fits_Ok_iff [OF r] Let_def)
  show "fits r b = Ok True" if "fits r a = Ok True"
    using that * t by (auto simp: fits_Ok_iff [OF r] Let_def)
qed

lemma supply_headroom_largest:
  assumes "mintable r" "0 < wanted" "fits r wanted = Ok v"
  shows "\<exists>n. supply_headroom r wanted = Ok n \<and> 0 \<le> n \<and> n \<le> wanted \<and> (n = 0 \<or> fits r n = Ok True)
    \<and> (\<forall>a. n < a \<and> a \<le> wanted \<longrightarrow> fits r a = Ok False)"
proof (cases v)
  case True
  with assms show ?thesis by (auto simp: supply_headroom_def)
next
  case False
  then have "\<And>a. wanted < a \<Longrightarrow> a \<le> wanted \<Longrightarrow> fits r a = Ok False" by simp
  from hr.bisect_finds [OF assms(1) _ _ assms(3) _ _ this, of 0] assms False
  show ?thesis by (simp add: supply_headroom_def)
qed

section \<open>Properties\<close>

text \<open>
  C15. \<open>fill_delay\<close>'s closed form is the search it replaces: for every pair of values it
  answers, its delay is at most 400 and is the first at which \<open>meets_margin\<close>, the
  contract's own modifiers cross-multiplied without rounding, holds, and from then on it
  holds for good. A forced fill answers the same delay capped at 350. It answers whenever
  the two values fit their margin in an \<open>i128\<close>.
\<close>

theorem fill_delay_is_first:
  "(fill_delay lot bid bps False = Ok d \<longrightarrow>
      d \<le> RAMP_END_BLOCKS \<and> (\<forall>e. meets_margin e lot bid bps \<longleftrightarrow> d \<le> e)
      \<and> fill_delay lot bid bps True = Ok (min FORCE_FILL_MAX_DELAY d))
   \<and> (0 \<le> lot \<and> 0 \<le> bid \<and> in_i128 (lot * BPS) \<and> in_i128 (bid * (BPS + int bps)) \<and> bps \<le> u32_max
      \<longrightarrow> (\<exists>d. fill_delay lot bid bps False = Ok d))"
  using fill_delay_threshold [of lot bid bps d] fill_delay_total [of lot bid bps]
  by (simp add: fill_delay_force)

theorem fill_delay_is_first_witness:
  "fill_delay 1000 900 500 False = Ok 189 \<and> meets_margin 189 1000 900 500 \<and> \<not> meets_margin 188 1000 900 500"
proof -
  have "fill_delay 1000 900 500 False = Ok 189" by (simp add: eval_simps Let_def)
  with fill_delay_is_first [of 1000 900 500 189] show ?thesis by simp
qed

text \<open>
  C16. \<open>supply_headroom\<close> answers the largest amount the contract's cap check admits, up to
  the amount wanted: whenever the wanted amount itself can be tested the search returns,
  with an amount that fits (or zero), and every larger one up to the wanted amount is over
  the cap.
\<close>

theorem supply_headroom_exact:
  assumes "mintable r" "0 < wanted" "fits r wanted = Ok v"
  shows "\<exists>n. supply_headroom r wanted = Ok n \<and> 0 \<le> n \<and> n \<le> wanted \<and> (n = 0 \<or> fits r n = Ok True)
    \<and> (\<forall>a. n < a \<and> a \<le> wanted \<longrightarrow> fits r a = Ok False)"
  using assms by (rule supply_headroom_largest)

definition capped_reserve :: reserve where
  "capped_reserve = sample_reserve\<lparr>rs_config := sample_config\<lparr>rc_supply_cap := 1100000000005\<rparr>\<rparr>"

theorem supply_headroom_exact_witness:
  "fits capped_reserve 100 = Ok False \<and> (\<exists>n. supply_headroom capped_reserve 100 = Ok n \<and> n < 100)"
proof -
  have f: "fits capped_reserve 100 = Ok False" by (simp add: capped_reserve_def sample_reserve_defs eval_simps)
  have m: "mintable capped_reserve" by (simp add: mintable_def capped_reserve_def sample_reserve_defs)
  obtain n where n: "supply_headroom capped_reserve 100 = Ok n" "n \<le> 100" "n = 0 \<or> fits capped_reserve n = Ok True"
    using supply_headroom_exact [OF m _ f] by auto
  with f have "n \<noteq> 100" by auto
  with n f show ?thesis by simp
qed

end
