(* ===== verification/Fill_Plan.thy ===== *)
theory Fill_Plan
  imports Fill
begin

text \<open>
  The planner half of \<open>src/math/fill.rs\<close>: \<open>plan_fill\<close>, which decides the ledger, the
  percent and the requests of one fill so that the filler's own position stays above its
  floor, and \<open>project\<close>, the exact projection every decision is made on.
\<close>

section \<open>Definitions\<close>

datatype fill_objective = FreeFill | EarliestProfitable

record fill_terms =
  ft_min_collateral :: int
  ft_max_positions :: nat
  ft_supply_allowed :: bool
  ft_primary_asset :: string
  ft_health_floor :: int
  ft_profit_bps :: nat
  ft_force_fill :: bool
  ft_objective :: fill_objective
  ft_plan_iterations :: nat

record fill_inputs =
  fi_reserves :: "(nat, reserve) btree"
  fi_asset_index :: "(string, nat) btree"
  fi_prices :: oracle_prices
  fi_filler :: positions
  fi_borrower :: positions
  fi_wallet :: "(string, int) btree"
  fi_auction :: auction_data
  fi_earliest_ledger :: nat
  fi_max_percent :: fill_percent

datatype fill_action =
    FillRepay string int
  | FillWithdrawAll string
  | FillSupplyCollateral string int

record fill_draft =
  fd_fill_ledger :: nat
  fd_percent :: fill_percent
  fd_actions :: "fill_action list"
  fd_to_fill :: auction_data
  fd_lot_value :: int
  fd_bid_value :: int
  fd_est_profit :: int
  fd_spend :: "(string, int) btree"
  fd_projected_health :: "int option"

datatype fill_skip = Unprofitable | TooManyPositions | Unfunded | SupplyCapped | Health

datatype planned_fill = PlannedFill fill_draft | PlannedSkip fill_skip

definition REPAY_ALLOWANCE_BPS :: int where
  "REPAY_ALLOWANCE_BPS = 1"

definition SUPPLY_ROUNDING_ALLOWANCE :: int where
  "SUPPLY_ROUNDING_ALLOWANCE = 2"

record projection =
  pj_to_fill :: auction_data
  pj_positions :: positions
  pj_actions :: "fill_action list"
  pj_spend :: "(string, int) btree"
  pj_primary_available :: int
  pj_data :: position_data

definition reserve_for :: "fill_inputs \<Rightarrow> string \<Rightarrow> (nat \<times> reserve) math_result" where
  "reserve_for inputs asset =
     rbind (ok_or (InvalidInput ''a fill names an asset that is not a reserve of this pool'')
             (bt_get (fi_asset_index inputs) asset)) (\<lambda>index.
     rbind (ok_or (MissingReserve index) (bt_get (fi_reserves inputs) index)) (\<lambda>reserve.
     Ok (index, reserve)))"

text \<open>One turn of the loops that move an auction side into or out of a position map.\<close>

definition add_side ::
  "fill_inputs \<Rightarrow> string \<times> int \<Rightarrow> (nat, int) btree \<Rightarrow> (nat, int) btree math_result" where
  "add_side inputs = (\<lambda>(asset, tokens) m.
     rbind (reserve_for inputs asset) (\<lambda>(index, _). add_to m index tokens))"

definition remove_side ::
  "fill_inputs \<Rightarrow> string \<times> int \<Rightarrow> (nat, int) btree \<Rightarrow> (nat, int) btree math_result" where
  "remove_side inputs = (\<lambda>(asset, tokens) m.
     rbind (reserve_for inputs asset) (\<lambda>(index, _). remove_from m index tokens))"

definition defaulted_reserves :: "fill_inputs \<Rightarrow> auction_data \<Rightarrow> (nat, reserve) btree math_result" where
  "defaulted_reserves inputs to_fill =
     (let borrower = fi_borrower inputs in
      rbind (rfold (remove_side inputs) (ad_lot to_fill) (ps_collateral borrower)) (\<lambda>collateral.
      rbind (rfold (remove_side inputs) (ad_bid to_fill) (ps_liabilities borrower)) (\<lambda>liabilities.
      rbind (project_default (fi_reserves inputs) (fi_prices inputs)
              (borrower\<lparr>ps_collateral := collateral, ps_liabilities := liabilities\<rparr>)) (\<lambda>outcome.
      Ok (do_reserves outcome)))))"

text \<open>The mutable locals of \<open>project\<close>.\<close>

record fill_state =
  fs_positions :: positions
  fs_wallet :: "(string, int) btree"
  fs_actions :: "fill_action list"
  fs_spend :: "(string, int) btree"

text \<open>What a repay of \<open>d_tokens\<close> asks for before the wallet caps it.\<close>

definition repay_amount :: "reserve \<Rightarrow> int \<Rightarrow> int math_result" where
  "repay_amount reserve d_tokens =
     rbind (to_asset_from_d_token reserve d_tokens) (\<lambda>owed.
     rbind (mul_floor owed REPAY_ALLOWANCE_BPS BPS) (\<lambda>allowance.
     ok_or Overflow (Option.bind (checked_add owed allowance) (\<lambda>amount. checked_add amount 1))))"

text \<open>One turn of the repay loop.\<close>

definition repay_bid :: "fill_inputs \<Rightarrow> string \<times> int \<Rightarrow> fill_state \<Rightarrow> fill_state math_result" where
  "repay_bid inputs = (\<lambda>(asset, d_tokens) st.
     let held = bt_get0 (fs_wallet st) asset in
     if held \<le> 0 then Ok st
     else
       rbind (reserve_for inputs asset) (\<lambda>(index, reserve).
       rbind (repay_amount reserve d_tokens) (\<lambda>asked.
       let amount = min asked held; liabilities = ps_liabilities (fs_positions st);
           owing = bt_get0 liabilities index in
       rbind (to_d_token_down reserve amount) (\<lambda>tokens.
       let burnt = min tokens owing in
       rbind (ok_or Overflow (checked_sub owing burnt)) (\<lambda>left.
       let liabilities = (if 0 < left then bt_insert index left liabilities else bt_remove index liabilities) in
       rbind (ok_or Overflow (checked_sub held amount)) (\<lambda>rest.
       rbind (add_to (fs_spend st) asset amount) (\<lambda>spend.
       Ok \<lparr>fs_positions = (fs_positions st)\<lparr>ps_liabilities := liabilities\<rparr>,
           fs_wallet = bt_insert asset rest (fs_wallet st),
           fs_actions = fs_actions st @ [FillRepay asset amount],
           fs_spend = spend\<rparr>)))))))"

text \<open>One turn of the loop over the lot's keys.\<close>

definition withdraw_lot :: "fill_inputs \<Rightarrow> string \<Rightarrow> fill_state \<Rightarrow> fill_state math_result" where
  "withdraw_lot inputs asset st =
     rbind (reserve_for inputs asset) (\<lambda>(index, reserve).
     if rc_c_factor (rs_config reserve) = 0 then
       Ok (st\<lparr>fs_positions := (fs_positions st)\<lparr>ps_collateral := bt_remove index (ps_collateral (fs_positions st))\<rparr>,
              fs_actions := fs_actions st @ [FillWithdrawAll asset]\<rparr>)
     else Ok st)"

text \<open>The supply of the primary asset, once clamped to what the wallet holds.\<close>

definition supply_primary :: "fill_terms \<Rightarrow> fill_inputs \<Rightarrow> int \<Rightarrow> fill_state \<Rightarrow> fill_state math_result" where
  "supply_primary terms inputs supply st =
     (if 0 < supply then
        rbind (reserve_for inputs (ft_primary_asset terms)) (\<lambda>(index, reserve).
        rbind (to_b_token_down reserve supply) (\<lambda>b_tokens.
        if 0 < b_tokens then
          rbind (add_to (ps_collateral (fs_positions st)) index b_tokens) (\<lambda>collateral.
          rbind (add_to (fs_spend st) (ft_primary_asset terms) supply) (\<lambda>spend.
          Ok (st\<lparr>fs_positions := (fs_positions st)\<lparr>ps_collateral := collateral\<rparr>,
                 fs_spend := spend,
                 fs_actions := fs_actions st @ [FillSupplyCollateral (ft_primary_asset terms) supply]\<rparr>)))
        else Ok st))
      else Ok st)"

text \<open>\<open>project\<close>.\<close>

definition fill_project ::
  "fill_terms \<Rightarrow> fill_inputs \<Rightarrow> nat \<Rightarrow> fill_percent \<Rightarrow> int \<Rightarrow> projection math_result" where
  "fill_project terms inputs ledger percent supply =
     rbind (scale_auction (fi_auction inputs) ledger (fp_get percent)) (\<lambda>scaled.
     let to_fill = sa_to_fill scaled; filler = fi_filler inputs in
     rbind (rfold (add_side inputs) (ad_lot to_fill) (ps_collateral filler)) (\<lambda>collateral.
     rbind (rfold (add_side inputs) (ad_bid to_fill) (ps_liabilities filler)) (\<lambda>liabilities.
     let st = \<lparr>fs_positions = filler\<lparr>ps_collateral := collateral, ps_liabilities := liabilities\<rparr>,
               fs_wallet = fi_wallet inputs, fs_actions = [], fs_spend = []\<rparr> in
     rbind (rfold (repay_bid inputs) (ad_bid to_fill) st) (\<lambda>st.
     rbind (rfold (withdraw_lot inputs) (bt_keys (ad_lot to_fill)) st) (\<lambda>st.
     let primary_available = max (bt_get0 (fs_wallet st) (ft_primary_asset terms)) 0 in
     rbind (supply_primary terms inputs (min supply primary_available) st) (\<lambda>st.
     rbind (if sa_remaining scaled = None then defaulted_reserves inputs to_fill
            else Ok (fi_reserves inputs)) (\<lambda>reserves.
     rbind (calculate_position_data reserves (fi_prices inputs) (fs_positions st)) (\<lambda>data.
     Ok \<lparr>pj_to_fill = to_fill, pj_positions = fs_positions st, pj_actions = fs_actions st,
         pj_spend = fs_spend st, pj_primary_available = primary_available, pj_data = data\<rparr>))))))))"

definition healthy :: "fill_terms \<Rightarrow> projection \<Rightarrow> bool math_result" where
  "healthy terms projection =
     (if ps_liabilities (pj_positions projection) = [] then Ok True
      else
        rbind (is_hf_under (pj_data projection) (ft_health_floor terms)) (\<lambda>below.
        Ok (\<not> below \<and> ft_min_collateral terms \<le> pd_collateral_base (pj_data projection))))"

definition over_positions :: "fill_terms \<Rightarrow> fill_inputs \<Rightarrow> projection \<Rightarrow> bool" where
  "over_positions terms inputs projection \<longleftrightarrow>
     (let before = effective_count (fi_filler inputs); after = effective_count (pj_positions projection) in
      before < after \<and> (u32_max < after \<or> ft_max_positions terms < after))"

definition supply_for :: "fill_terms \<Rightarrow> fill_inputs \<Rightarrow> position_data \<Rightarrow> int math_result" where
  "supply_for terms inputs data =
     rbind (mul_ceil (pd_liability_base data) (ft_health_floor terms) SCALAR_7) (\<lambda>needed.
     let wanted = max needed (ft_min_collateral terms) in
     rbind (ok_or Overflow (checked_sub wanted (pd_collateral_base data))) (\<lambda>gap.
     let shortfall = max gap 0 in
     if shortfall = 0 then Ok 0
     else
       rbind (reserve_for inputs (ft_primary_asset terms)) (\<lambda>(_, reserve).
       let c_factor = int (rc_c_factor (rs_config reserve)) in
       if c_factor = 0 then Ok 0
       else
         rbind (oracle_price (fi_prices inputs) (rs_asset reserve)) (\<lambda>price.
         rbind (mul_ceil shortfall (rs_scalar reserve) price) (\<lambda>underlying.
         rbind (div_ceil underlying c_factor SCALAR_7) (\<lambda>supply.
         ok_or Overflow (checked_add supply SUPPLY_ROUNDING_ALLOWANCE)))))))"

text \<open>The body of both searches: the candidate's projection when it is healthy.\<close>

definition healthy_candidate ::
  "fill_terms \<Rightarrow> fill_inputs \<Rightarrow> nat \<Rightarrow> fill_percent \<Rightarrow> int \<Rightarrow> projection option math_result" where
  "healthy_candidate terms inputs ledger percent supply =
     rbind (fill_project terms inputs ledger percent supply) (\<lambda>projection.
     rbind (healthy terms projection) (\<lambda>h. Ok (if h then Some projection else None)))"

definition largest_healthy_percent ::
  "fill_terms \<Rightarrow> fill_inputs \<Rightarrow> nat \<Rightarrow> fill_percent \<Rightarrow> int \<Rightarrow> (fill_percent \<times> projection) option math_result" where
  "largest_healthy_percent terms inputs ledger below supply =
     rfind (\<lambda>v.
       rbind (ok_or (InvalidInput ''a fill percent is 1 to 100'') (fill_percent_try_from v)) (\<lambda>percent.
       rmap (map_option (Pair percent)) (healthy_candidate terms inputs ledger percent supply)))
     (rev [1..<fp_get below])"

definition first_healthy_ledger ::
  "fill_terms \<Rightarrow> fill_inputs \<Rightarrow> nat \<Rightarrow> nat \<Rightarrow> int \<Rightarrow> (nat \<times> projection) option math_result" where
  "first_healthy_ledger terms inputs after last_ledger supply =
     (case checked_add_u32 after 1 of
        None \<Rightarrow> Ok None
      | Some first \<Rightarrow>
          rfind (\<lambda>ledger. rmap (map_option (Pair ledger))
              (healthy_candidate terms inputs ledger (fi_max_percent inputs) supply))
            [first..<Suc last_ledger])"

text \<open>\<open>draft\<close>.\<close>

definition fill_draft_of ::
  "fill_inputs \<Rightarrow> nat \<Rightarrow> fill_percent \<Rightarrow> projection \<Rightarrow> fill_draft math_result" where
  "fill_draft_of inputs ledger percent projection =
     rbind (auction_positions (pj_to_fill projection) (fi_asset_index inputs)) (\<lambda>positions.
     rbind (calculate_position_data (fi_reserves inputs) (fi_prices inputs) positions) (\<lambda>value.
     rbind (ok_or Overflow (checked_sub (pd_collateral_raw value) (pd_liability_raw value))) (\<lambda>est_profit.
     rbind (if ps_liabilities (pj_positions projection) = [] then Ok None
            else health_factor (pj_data projection)) (\<lambda>projected_health.
     Ok \<lparr>fd_fill_ledger = ledger, fd_percent = percent, fd_actions = pj_actions projection,
         fd_to_fill = pj_to_fill projection, fd_lot_value = pd_collateral_raw value,
         fd_bid_value = pd_liability_raw value, fd_est_profit = est_profit,
         fd_spend = pj_spend projection, fd_projected_health = projected_health\<rparr>))))"

definition settle ::
  "fill_terms \<Rightarrow> fill_inputs \<Rightarrow> nat \<Rightarrow> fill_percent \<Rightarrow> projection \<Rightarrow> planned_fill math_result" where
  "settle terms inputs ledger percent projection =
     (if over_positions terms inputs projection then Ok (PlannedSkip TooManyPositions)
      else
        rbind (fill_draft_of inputs ledger percent projection) (\<lambda>draft.
        if \<not> ft_force_fill terms \<and> fd_est_profit draft \<le> 0 then Ok (PlannedSkip Unprofitable)
        else Ok (PlannedFill draft)))"

text \<open>The answer once the rounds or the candidates run out.\<close>

definition exhausted :: "bool \<Rightarrow> bool \<Rightarrow> planned_fill" where
  "exhausted unfunded capped =
     PlannedSkip (if capped then SupplyCapped else if unfunded then Unfunded else Health)"

text \<open>
  The supply step of one round: the next supply and the two flags. The round continues with
  it only when it raised the supply.
\<close>

definition raise_supply ::
  "fill_terms \<Rightarrow> fill_inputs \<Rightarrow> projection \<Rightarrow> int \<Rightarrow> bool \<Rightarrow> bool \<Rightarrow> (int \<times> bool \<times> bool) math_result" where
  "raise_supply terms inputs projection supply unfunded capped =
     (if ft_supply_allowed terms then
        rbind (supply_for terms inputs (pj_data projection)) (\<lambda>more.
        rbind (ok_or Overflow (checked_add supply more)) (\<lambda>wanted.
        rbind (reserve_for inputs (ft_primary_asset terms)) (\<lambda>(_, primary).
        rbind (supply_headroom primary wanted) (\<lambda>room.
        let available = pj_primary_available projection in
        Ok (min (min wanted available) room,
            unfunded \<or> available < wanted,
            capped \<or> room < wanted \<and> room < available)))))
      else Ok (supply, unfunded, capped))"

text \<open>The \<open>for\<close> loop of \<open>plan_fill\<close>; its first argument is the rounds left.\<close>

fun plan_rounds ::
  "nat \<Rightarrow> fill_terms \<Rightarrow> fill_inputs \<Rightarrow> nat \<Rightarrow> nat \<Rightarrow> int \<Rightarrow> bool \<Rightarrow> bool \<Rightarrow> planned_fill math_result" where
  "plan_rounds 0 terms inputs ledger last_ledger supply unfunded capped = Ok (exhausted unfunded capped)"
| "plan_rounds (Suc n) terms inputs ledger last_ledger supply unfunded capped =
     (let percent = fi_max_percent inputs in
      rbind (fill_project terms inputs ledger percent supply) (\<lambda>projection.
      if over_positions terms inputs projection then Ok (PlannedSkip TooManyPositions)
      else
        rbind (healthy terms projection) (\<lambda>h.
        if h then settle terms inputs ledger percent projection
        else
          rbind (raise_supply terms inputs projection supply unfunded capped) (\<lambda>(next, unfunded, capped).
          if supply < next then plan_rounds n terms inputs ledger last_ledger next unfunded capped
          else
            rbind (largest_healthy_percent terms inputs ledger percent supply) (\<lambda>lower.
            case lower of
              Some (lower, projection) \<Rightarrow> settle terms inputs ledger lower projection
            | None \<Rightarrow>
                rbind (first_healthy_ledger terms inputs ledger last_ledger supply) (\<lambda>later.
                case later of
                  Some (later, projection) \<Rightarrow> settle terms inputs later percent projection
                | None \<Rightarrow> Ok (exhausted unfunded capped)))))))"

text \<open>The window: the ledger the objective picks and the last one a search may reach.\<close>

definition fill_target :: "fill_terms \<Rightarrow> position_data \<Rightarrow> nat math_result" where
  "fill_target terms whole =
     rbind (case ft_objective terms of
        FreeFill \<Rightarrow> Ok RAMP_END_BLOCKS
      | EarliestProfitable \<Rightarrow>
          fill_delay (pd_collateral_raw whole) (pd_liability_raw whole) (ft_profit_bps terms) (ft_force_fill terms))
     (\<lambda>delay. Ok (if ft_force_fill terms then min delay FORCE_FILL_MAX_DELAY else delay))"

definition plan_fill :: "fill_terms \<Rightarrow> fill_inputs \<Rightarrow> planned_fill math_result" where
  "plan_fill terms inputs =
     rbind (auction_positions (fi_auction inputs) (fi_asset_index inputs)) (\<lambda>positions.
     rbind (calculate_position_data (fi_reserves inputs) (fi_prices inputs) positions) (\<lambda>whole.
     if pd_collateral_raw whole = 0 then Ok (PlannedSkip Unprofitable)
     else
       let start = ad_block (fi_auction inputs); earliest = max (fi_earliest_ledger inputs) start in
       rbind (fill_target terms whole) (\<lambda>delay.
       rbind (ok_or Overflow (checked_add_u32 start delay)) (\<lambda>target.
       let ledger = max target earliest;
           reach = (if ft_force_fill terms then FORCE_FILL_MAX_DELAY else RAMP_END_BLOCKS) in
       rbind (ok_or Overflow (checked_add_u32 start reach)) (\<lambda>limit.
       let last_ledger = max limit ledger in
       plan_rounds (ft_plan_iterations terms) terms inputs ledger last_ledger 0 False False)))))"

lemmas fill_plan_evals [eval_simps] = REPAY_ALLOWANCE_BPS_def SUPPLY_ROUNDING_ALLOWANCE_def reserve_for_def
  add_side_def remove_side_def defaulted_reserves_def repay_amount_def repay_bid_def withdraw_lot_def
  supply_primary_def fill_project_def healthy_def over_positions_def supply_for_def healthy_candidate_def
  largest_healthy_percent_def first_healthy_ledger_def fill_draft_of_def settle_def exhausted_def
  raise_supply_def fill_target_def plan_fill_def

section \<open>What a projection spends\<close>

fun action_spend :: "fill_action \<Rightarrow> string \<Rightarrow> int" where
  "action_spend (FillRepay asset amount) k = (if k = asset then amount else 0)"
| "action_spend (FillWithdrawAll asset) k = 0"
| "action_spend (FillSupplyCollateral asset amount) k = (if k = asset then amount else 0)"

definition spent_by :: "fill_action list \<Rightarrow> string \<Rightarrow> int" where
  "spent_by actions k = (\<Sum>a\<leftarrow>actions. action_spend a k)"

lemma spent_by_simps [simp]:
  "spent_by [] k = 0" "spent_by (as @ [a]) k = spent_by as k + action_spend a k"
  by (simp_all add: spent_by_def)

text \<open>The books of a projection in progress.\<close>

abbreviation books :: "(string, int) btree \<Rightarrow> fill_state \<Rightarrow> bool" where
  "books w st \<equiv> balanced w (fs_wallet st) (fs_spend st) (spent_by (fs_actions st))"

lemma reserve_for_Ok:
  "reserve_for inputs asset = Ok (i, r) \<longleftrightarrow>
    bt_get (fi_asset_index inputs) asset = Some i \<and> bt_get (fi_reserves inputs) i = Some r"
  by (auto simp: reserve_for_def)

lemma repay_amount_pos:
  assumes "repay_amount r d = Ok a" "0 \<le> d" "0 \<le> rd_d_rate (rs_data r)"
  shows "0 < a"
proof -
  from assms(1) obtain owed where o: "to_asset_from_d_token r d = Ok owed"
    and a: "a = owed + owed * REPAY_ALLOWANCE_BPS div BPS + 1"
    by (auto simp: repay_amount_def fixed_Ok_iff BPS_def bind_eq_Some_conv)
  have "0 \<le> owed" using to_asset_nonneg(2) [OF o assms(2,3)] .
  then show ?thesis by (simp add: a REPAY_ALLOWANCE_BPS_def BPS_def pos_imp_zdiv_nonneg_iff)
qed

lemma repay_bid_books:
  assumes "repay_bid inputs (asset, d) st = Ok st'" "books w st" "0 \<le> d" "reserves_ok (fi_reserves inputs)"
  shows "books w st'"
proof (cases "bt_get0 (fs_wallet st) asset \<le> 0")
  case False
  let ?held = "bt_get0 (fs_wallet st) asset"
  from assms(1) False obtain i r asked spend liabilities where
    r: "reserve_for inputs asset = Ok (i, r)" and asked: "repay_amount r d = Ok asked"
    and spend: "add_to (fs_spend st) asset (min asked ?held) = Ok spend"
    and st': "st' = \<lparr>fs_positions = (fs_positions st)\<lparr>ps_liabilities := liabilities\<rparr>,
           fs_wallet = bt_insert asset (?held - min asked ?held) (fs_wallet st),
           fs_actions = fs_actions st @ [FillRepay asset (min asked ?held)], fs_spend = spend\<rparr>"
    unfolding repay_bid_def Let_def prod.case if_not_P [OF False]
    by (elim rbindE; clarsimp simp: reserve_for_Ok; blast)
  have "reserve_ok r" using r reserves_okD [OF assms(4)] by (auto simp: reserve_for_Ok)
  then have "0 < asked" using repay_amount_pos [OF asked assms(3)] by (simp add: reserve_ok_def)
  then have pay: "0 < min asked ?held" "min asked ?held \<le> ?held" using False by simp_all
  show ?thesis unfolding st' by (simp add: balanced_pay [OF assms(2) spend pay])
qed (use assms in \<open>simp add: repay_bid_def\<close>)

lemma withdraw_lot_books:
  "withdraw_lot inputs asset st = Ok st' \<Longrightarrow> books w st \<Longrightarrow> books w st'"
  by (auto simp: withdraw_lot_def balanced_def split: if_splits)

lemma supply_primary_books:
  assumes "supply_primary terms inputs s st = Ok st'" "books w st"
    "s \<le> max (bt_get0 (fs_wallet st) (ft_primary_asset terms)) 0"
  shows "bt_get0 (fs_spend st') k = spent_by (fs_actions st') k \<and> 0 \<le> bt_get0 (fs_spend st') k
    \<and> bt_get0 (fs_spend st') k \<le> max 0 (bt_get0 w k)"
proof -
  note b = balancedD [OF assms(2)]
  consider "fs_spend st' = fs_spend st" "fs_actions st' = fs_actions st"
    | "0 < s" "add_to (fs_spend st) (ft_primary_asset terms) s = Ok (fs_spend st')"
      "fs_actions st' = fs_actions st @ [FillSupplyCollateral (ft_primary_asset terms) s]"
    using assms(1) by (fastforce simp: supply_primary_def split: if_splits)
  then show ?thesis
  proof cases
    case 1
    then show ?thesis using b by simp
  next
    case 2
    note get = add_to_get0 [OF 2(2)]
    have "s \<le> bt_get0 w (ft_primary_asset terms) - bt_get0 (fs_spend st) (ft_primary_asset terms)"
      using assms(3) 2(1) b(2) [of "ft_primary_asset terms"] by simp
    then show ?thesis using b 2(1,3) by (auto simp: get)
  qed
qed

text \<open>The chain state a plan is made against: what the contract keeps of each part.\<close>

definition inputs_ok :: "fill_inputs \<Rightarrow> bool" where
  "inputs_ok inputs \<longleftrightarrow> reserves_ok (fi_reserves inputs) \<and> prices_ok (fi_prices inputs)
     \<and> positions_ok (fi_filler inputs) \<and> positions_ok (fi_borrower inputs) \<and> auction_ok (fi_auction inputs)"

text \<open>The parts of a projection, as its \<open>?\<close> chain produces them.\<close>

lemma fill_project_parts:
  assumes "fill_project terms inputs ledger percent supply = Ok pr"
  obtains scaled collateral liabilities st1 st2 st3 reserves data where
    "scale_auction (fi_auction inputs) ledger (fp_get percent) = Ok scaled"
    "rfold (add_side inputs) (ad_lot (sa_to_fill scaled)) (ps_collateral (fi_filler inputs)) = Ok collateral"
    "rfold (add_side inputs) (ad_bid (sa_to_fill scaled)) (ps_liabilities (fi_filler inputs)) = Ok liabilities"
    "rfold (repay_bid inputs) (ad_bid (sa_to_fill scaled))
       \<lparr>fs_positions = (fi_filler inputs)\<lparr>ps_collateral := collateral, ps_liabilities := liabilities\<rparr>,
        fs_wallet = fi_wallet inputs, fs_actions = [], fs_spend = []\<rparr> = Ok st1"
    "rfold (withdraw_lot inputs) (bt_keys (ad_lot (sa_to_fill scaled))) st1 = Ok st2"
    "supply_primary terms inputs (min supply (max (bt_get0 (fs_wallet st2) (ft_primary_asset terms)) 0)) st2 = Ok st3"
    "(if sa_remaining scaled = None then defaulted_reserves inputs (sa_to_fill scaled) else Ok (fi_reserves inputs))
       = Ok reserves"
    "calculate_position_data reserves (fi_prices inputs) (fs_positions st3) = Ok data"
    "Ok \<lparr>pj_to_fill = sa_to_fill scaled, pj_positions = fs_positions st3, pj_actions = fs_actions st3,
         pj_spend = fs_spend st3,
         pj_primary_available = max (bt_get0 (fs_wallet st2) (ft_primary_asset terms)) 0, pj_data = data\<rparr>
       = (Ok pr :: projection math_result)"
  using assms unfolding fill_project_def Let_def by (elim rbindE) (rule that)

lemma fill_project_books:
  assumes "fill_project terms inputs ledger percent supply = Ok pr" "inputs_ok inputs"
  shows "bt_get0 (pj_spend pr) k = spent_by (pj_actions pr) k \<and> 0 \<le> bt_get0 (pj_spend pr) k
    \<and> bt_get0 (pj_spend pr) k \<le> max 0 (bt_get0 (fi_wallet inputs) k)"
  using assms(1)
proof (rule fill_project_parts)
  fix scaled :: scaled_auction and collateral liabilities st1 st2 st3 reserves data
  let ?st0 = "\<lparr>fs_positions = (fi_filler inputs)\<lparr>ps_collateral := collateral, ps_liabilities := liabilities\<rparr>,
        fs_wallet = fi_wallet inputs, fs_actions = [], fs_spend = []\<rparr>"
  assume sc: "scale_auction (fi_auction inputs) ledger (fp_get percent) = Ok scaled"
    and st1: "rfold (repay_bid inputs) (ad_bid (sa_to_fill scaled)) ?st0 = Ok st1"
    and st2: "rfold (withdraw_lot inputs) (bt_keys (ad_lot (sa_to_fill scaled))) st1 = Ok st2"
    and st3: "supply_primary terms inputs (min supply (max (bt_get0 (fs_wallet st2) (ft_primary_asset terms)) 0)) st2 = Ok st3"
    and pr: "Ok \<lparr>pj_to_fill = sa_to_fill scaled, pj_positions = fs_positions st3, pj_actions = fs_actions st3,
         pj_spend = fs_spend st3,
         pj_primary_available = max (bt_get0 (fs_wallet st2) (ft_primary_asset terms)) 0, pj_data = data\<rparr>
       = (Ok pr :: projection math_result)"
  have ok: "auction_ok (fi_auction inputs)" "reserves_ok (fi_reserves inputs)"
    using assms(2) by (simp_all add: inputs_ok_def)
  have "amounts_ok (ad_bid (sa_to_fill scaled))"
    using scale_auction_Ok [OF sc ok(1)] scaled_to_fill_ok [OF _ ok(1)] by (auto simp: auction_ok_def)
  then have nn: "0 \<le> d" if "(asset, d) \<in> set (ad_bid (sa_to_fill scaled))" for asset d
    using that by (force simp: amounts_ok_def bt_values_def)
  have "books (fi_wallet inputs) ?st0" by (simp add: balanced_start)
  with st1 have "books (fi_wallet inputs) st1"
    by (rule rfold_invariant) (use repay_bid_books [OF _ _ _ ok(2)] nn in auto)
  with st2 have b2: "books (fi_wallet inputs) st2"
    by (rule rfold_invariant) (rule withdraw_lot_books)
  from pr have "pj_spend pr = fs_spend st3" "pj_actions pr = fs_actions st3" by auto
  with supply_primary_books [OF st3 b2, of k] show ?thesis by simp
qed

section \<open>A projection keeps the position well formed\<close>

lemma add_side_nonneg:
  assumes "rfold (add_side inputs) es m = Ok m'" "nonneg m" "\<And>k v. (k, v) \<in> set es \<Longrightarrow> 0 \<le> v"
  shows "nonneg m'"
  using assms(1,2)
  by (rule rfold_invariant) (use assms(3) in \<open>auto simp: add_side_def elim!: add_to_nonneg\<close>)

lemma remove_side_nonneg:
  assumes "rfold (remove_side inputs) es m = Ok m'" "nonneg m"
  shows "nonneg m'"
  using assms by (rule rfold_invariant) (auto simp: remove_side_def intro: remove_from_nonneg)

lemma repay_bid_positions:
  assumes "repay_bid inputs e st = Ok st'" "positions_ok (fs_positions st)"
  shows "positions_ok (fs_positions st')"
proof (cases "fs_positions st' = fs_positions st")
  case False
  obtain asset d where e: "e = (asset, d)" by (cases e)
  have held: "\<not> bt_get0 (fs_wallet st) asset \<le> 0" using False assms(1) by (auto simp: e repay_bid_def)
  show ?thesis
    using assms unfolding e repay_bid_def Let_def prod.case if_not_P [OF held]
    by (elim rbindE) (auto elim!: rbindE simp: positions_ok_nonneg simp del: rbind_eq_Ok)
qed (use assms in simp)

lemma withdraw_lot_positions:
  "withdraw_lot inputs asset st = Ok st' \<Longrightarrow> positions_ok (fs_positions st) \<Longrightarrow> positions_ok (fs_positions st')"
  by (auto simp: withdraw_lot_def positions_ok_nonneg split: if_splits)

lemma supply_primary_positions:
  "supply_primary terms inputs s st = Ok st' \<Longrightarrow> positions_ok (fs_positions st) \<Longrightarrow> positions_ok (fs_positions st')"
  by (auto simp: supply_primary_def positions_ok_nonneg intro: add_to_nonneg [OF _ _ less_imp_le] split: if_splits)

lemma fill_project_positions:
  assumes "fill_project terms inputs ledger percent s = Ok pr" "inputs_ok inputs"
  shows "positions_ok (pj_positions pr)"
  using assms(1)
proof (rule fill_project_parts)
  fix scaled :: scaled_auction and collateral liabilities st1 st2 st3 reserves data
  let ?st0 = "\<lparr>fs_positions = (fi_filler inputs)\<lparr>ps_collateral := collateral, ps_liabilities := liabilities\<rparr>,
        fs_wallet = fi_wallet inputs, fs_actions = [], fs_spend = []\<rparr>"
  let ?tf = "sa_to_fill scaled"
  assume sc: "scale_auction (fi_auction inputs) ledger (fp_get percent) = Ok scaled"
    and cl: "rfold (add_side inputs) (ad_lot ?tf) (ps_collateral (fi_filler inputs)) = Ok collateral"
      "rfold (add_side inputs) (ad_bid ?tf) (ps_liabilities (fi_filler inputs)) = Ok liabilities"
    and st1: "rfold (repay_bid inputs) (ad_bid ?tf) ?st0 = Ok st1"
    and st2: "rfold (withdraw_lot inputs) (bt_keys (ad_lot ?tf)) st1 = Ok st2"
    and st3: "supply_primary terms inputs (min s (max (bt_get0 (fs_wallet st2) (ft_primary_asset terms)) 0)) st2 = Ok st3"
    and pr: "Ok \<lparr>pj_to_fill = ?tf, pj_positions = fs_positions st3, pj_actions = fs_actions st3,
         pj_spend = fs_spend st3,
         pj_primary_available = max (bt_get0 (fs_wallet st2) (ft_primary_asset terms)) 0, pj_data = data\<rparr>
       = (Ok pr :: projection math_result)"
  have ok: "auction_ok (fi_auction inputs)" "positions_ok (fi_filler inputs)"
    using assms(2) by (simp_all add: inputs_ok_def)
  have "amounts_ok (ad_bid ?tf)" "amounts_ok (ad_lot ?tf)"
    using scale_auction_Ok [OF sc ok(1)] scaled_to_fill_ok [OF _ ok(1)] by (auto simp: auction_ok_def)
  then have nn: "0 \<le> v" if "(k, v) \<in> set (ad_bid ?tf) \<union> set (ad_lot ?tf)" for k v
    using that by (force simp: amounts_ok_def bt_values_def)
  have "nonneg collateral" "nonneg liabilities"
    using add_side_nonneg [OF cl(1)] add_side_nonneg [OF cl(2)] ok(2) nn by (auto simp: positions_ok_nonneg)
  then have "positions_ok (fs_positions ?st0)" using ok(2) by (simp add: positions_ok_nonneg)
  with st1 have "positions_ok (fs_positions st1)" by (rule rfold_invariant) (rule repay_bid_positions)
  with st2 have "positions_ok (fs_positions st2)" by (rule rfold_invariant) (rule withdraw_lot_positions)
  from supply_primary_positions [OF st3 this] pr show ?thesis by auto
qed

text \<open>The reserves a projection is valued against are the snapshot's, at rates no higher.\<close>

lemma defaulted_reserves_lowered:
  assumes "defaulted_reserves inputs tf = Ok rs" "inputs_ok inputs"
  shows "rel_option lowered (bt_get (fi_reserves inputs) i) (bt_get rs i)"
proof -
  from assms(1) obtain c l out where
    c: "rfold (remove_side inputs) (ad_lot tf) (ps_collateral (fi_borrower inputs)) = Ok c"
    and l: "rfold (remove_side inputs) (ad_bid tf) (ps_liabilities (fi_borrower inputs)) = Ok l"
    and out: "project_default (fi_reserves inputs) (fi_prices inputs)
        ((fi_borrower inputs)\<lparr>ps_collateral := c, ps_liabilities := l\<rparr>) = Ok out" and rs: "rs = do_reserves out"
    by (auto simp: defaulted_reserves_def Let_def)
  have "positions_ok ((fi_borrower inputs)\<lparr>ps_collateral := c, ps_liabilities := l\<rparr>)"
    using assms(2) remove_side_nonneg [OF c] remove_side_nonneg [OF l]
    by (simp add: inputs_ok_def positions_ok_nonneg)
  from project_default_lowered [OF _ this out] assms(2) rs show ?thesis by (simp add: inputs_ok_def)
qed

lemma lowered_refl: "reserves_ok rs \<Longrightarrow> rel_option lowered (bt_get rs i) (bt_get rs i)"
  by (cases "bt_get rs i") (auto simp: lowered_def reserve_ok_def dest: reserves_okD)

lemma fill_project_data:
  assumes "fill_project terms inputs ledger percent s = Ok pr" "inputs_ok inputs"
  obtains rs where "\<And>i. rel_option lowered (bt_get (fi_reserves inputs) i) (bt_get rs i)"
    "calculate_position_data rs (fi_prices inputs) (pj_positions pr) = Ok (pj_data pr)"
  using assms(1)
proof (rule fill_project_parts)
  fix scaled collateral liabilities st1 st2 st3 rs data
  assume rs: "(if sa_remaining scaled = None then defaulted_reserves inputs (sa_to_fill scaled)
        else Ok (fi_reserves inputs)) = Ok rs"
    and d: "calculate_position_data rs (fi_prices inputs) (fs_positions st3) = Ok data"
    and pr: "Ok \<lparr>pj_to_fill = sa_to_fill scaled, pj_positions = fs_positions st3, pj_actions = fs_actions st3,
         pj_spend = fs_spend st3,
         pj_primary_available = max (bt_get0 (fs_wallet st2) (ft_primary_asset terms)) 0, pj_data = data\<rparr>
       = (Ok pr :: projection math_result)"
  have "rel_option lowered (bt_get (fi_reserves inputs) i) (bt_get rs i)" for i
    using rs defaulted_reserves_lowered [OF _ assms(2)] lowered_refl assms(2)
    by (auto simp: inputs_ok_def split: if_splits)
  moreover have "calculate_position_data rs (fi_prices inputs) (pj_positions pr) = Ok (pj_data pr)"
    using d pr by auto
  ultimately show thesis by (rule that)
qed

lemma fill_project_liability_nonneg:
  assumes "fill_project terms inputs ledger percent s = Ok pr" "inputs_ok inputs"
  shows "0 \<le> pd_liability_base (pj_data pr)"
  using assms
proof (rule fill_project_data)
  fix rs
  assume low: "\<And>i. rel_option lowered (bt_get (fi_reserves inputs) i) (bt_get rs i)"
    and d: "calculate_position_data rs (fi_prices inputs) (pj_positions pr) = Ok (pj_data pr)"
  let ?es = "ps_liabilities (pj_positions pr)"
  have "liability_value rs (fi_prices inputs) = liability_value (fi_reserves inputs) (fi_prices inputs)"
    using lowered_liability_value [OF low] by (intro ext) (metis surj_pair)
  with calculate_position_data_sums [OF d] have
    v: "valued (liability_value (fi_reserves inputs) (fi_prices inputs)) ?es"
    and b: "pd_liability_base (pj_data pr) = base_sum (liability_value (fi_reserves inputs) (fi_prices inputs)) ?es"
    by simp_all
  have "\<forall>x \<in> set (bt_values ?es). 0 \<le> x"
    using fill_project_positions [OF assms] by (simp add: positions_ok_def)
  from liability_sums_bounds [OF _ _ this v] assms(2) b show ?thesis by (simp add: inputs_ok_def)
qed

section \<open>The searches\<close>

lemma rmap_Pair:
  "rmap (map_option (Pair a)) m = Ok (Some (b, x)) \<longleftrightarrow> b = a \<and> m = Ok (Some x)"
  "rmap (map_option (Pair a)) m = Ok None \<longleftrightarrow> m = Ok None"
  by (cases m; auto)+

lemma healthy_candidate_Some:
  "healthy_candidate terms inputs ledger percent supply = Ok (Some pr) \<longleftrightarrow>
    fill_project terms inputs ledger percent supply = Ok pr \<and> healthy terms pr = Ok True"
  by (auto simp: healthy_candidate_def split: if_splits)

lemma largest_healthy_percent_Some:
  assumes "largest_healthy_percent terms inputs ledger below supply = Ok (Some (p, pr))"
  shows "1 \<le> fp_get p \<and> fp_get p < fp_get below
    \<and> healthy_candidate terms inputs ledger p supply = Ok (Some pr)
    \<and> (\<forall>q. fp_get p < q \<and> q < fp_get below \<longrightarrow>
         healthy_candidate terms inputs ledger (FillPercent q) supply = Ok None)"
proof -
  let ?f = "\<lambda>v. rbind (ok_or (InvalidInput ''a fill percent is 1 to 100'') (fill_percent_try_from v))
     (\<lambda>percent. rmap (map_option (Pair percent)) (healthy_candidate terms inputs ledger percent supply))"
  from assms [unfolded largest_healthy_percent_def rfind_Some] obtain ys x zs where
    split: "rev [1..<fp_get below] = ys @ x # zs" and miss: "\<forall>z \<in> set ys. ?f z = Ok None"
    and hit: "?f x = Ok (Some (p, pr))" by blast
  from split have "[1..<fp_get below] = rev zs @ x # rev ys" by (metis rev_append rev_rev_ident rev.simps(2) append.assoc append_Cons append_Nil)
  then have below: "[1..<fp_get below] = rev zs @ x # rev ys" .
  then have x: "1 \<le> x" "x < fp_get below" by (metis atLeastLessThan_iff in_set_conv_decomp set_upt)+
  have p: "p = FillPercent x" "healthy_candidate terms inputs ledger p supply = Ok (Some pr)"
    using hit by (auto simp: fill_percent_try_from_def rmap_Pair simp del: rmap_eq_Ok split: if_splits)
  have "healthy_candidate terms inputs ledger (FillPercent q) supply = Ok None" if "x < q" "q < fp_get below" for q
  proof -
    have "sorted (rev zs @ x # rev ys)" using below by (metis sorted_upt)
    then have "q \<notin> set (rev zs)" using that by (auto simp: sorted_append)
    moreover have "q \<in> set (rev zs @ x # rev ys)" using that x unfolding below [symmetric] by simp
    ultimately have "q \<in> set ys" using that by auto
    with miss have "?f q = Ok None" by blast
    then show ?thesis by (auto simp: fill_percent_try_from_def rmap_Pair simp del: rmap_eq_Ok split: if_splits)
  qed
  with x p show ?thesis by simp
qed

lemma largest_healthy_percent_None:
  assumes "largest_healthy_percent terms inputs ledger below supply = Ok None" "1 \<le> q" "q < fp_get below"
  shows "healthy_candidate terms inputs ledger (FillPercent q) supply = Ok None"
  using assms unfolding largest_healthy_percent_def rfind_None
  by (fastforce simp: fill_percent_try_from_def rmap_Pair simp del: rmap_eq_Ok split: if_splits)

lemma first_healthy_ledger_Some:
  assumes "first_healthy_ledger terms inputs after last_ledger supply = Ok (Some (l, pr))"
  shows "after < l \<and> l \<le> last_ledger
    \<and> healthy_candidate terms inputs l (fi_max_percent inputs) supply = Ok (Some pr)
    \<and> (\<forall>m. after < m \<and> m < l \<longrightarrow> healthy_candidate terms inputs m (fi_max_percent inputs) supply = Ok None)"
proof -
  let ?f = "\<lambda>ledger. rmap (map_option (Pair ledger)) (healthy_candidate terms inputs ledger (fi_max_percent inputs) supply)"
  from assms have "rfind ?f [after + 1..<Suc last_ledger] = Ok (Some (l, pr))"
    by (auto simp: first_healthy_ledger_def simp del: upt_Suc split: option.splits)
  then obtain ys x zs where split: "[after + 1..<Suc last_ledger] = ys @ x # zs"
    and miss: "\<forall>z \<in> set ys. ?f z = Ok None" and hit: "?f x = Ok (Some (l, pr))" unfolding rfind_Some by blast
  have "x \<in> {after + 1..<Suc last_ledger}" using split by (metis in_set_conv_decomp set_upt)
  then have x: "after < x" "x \<le> last_ledger" by auto
  have l: "l = x" "healthy_candidate terms inputs l (fi_max_percent inputs) supply = Ok (Some pr)"
    using hit unfolding rmap_Pair by auto
  have "healthy_candidate terms inputs m (fi_max_percent inputs) supply = Ok None" if "after < m" "m < x" for m
  proof -
    have "sorted (ys @ x # zs)" using split by (metis sorted_upt)
    then have "m \<notin> set zs" using that by (auto simp: sorted_append)
    moreover have "m \<in> set (ys @ x # zs)" using that x unfolding split [symmetric] by simp
    ultimately have "m \<in> set ys" using that by auto
    with miss show ?thesis unfolding rmap_Pair by blast
  qed
  with x l show ?thesis by simp
qed

lemma first_healthy_ledger_None:
  assumes "first_healthy_ledger terms inputs after last_ledger supply = Ok None" "last_ledger \<le> u32_max"
    "after < l" "l \<le> last_ledger"
  shows "healthy_candidate terms inputs l (fi_max_percent inputs) supply = Ok None"
  using assms
  by (auto simp: first_healthy_ledger_def checked_add_u32_def rfind_None rmap_Pair
      simp del: rmap_eq_Ok upt_Suc split: if_splits)

section \<open>Where a plan comes from\<close>

text \<open>
  A fill the planner may answer with: a healthy projection of its own ledger and percent,
  within the window, drafted from that very projection.
\<close>

definition drafted ::
  "fill_terms \<Rightarrow> fill_inputs \<Rightarrow> nat \<Rightarrow> nat \<Rightarrow> fill_draft \<Rightarrow> projection \<Rightarrow> bool" where
  "drafted terms inputs ledger last_ledger d pr \<longleftrightarrow>
     (\<exists>supply. fill_project terms inputs (fd_fill_ledger d) (fd_percent d) supply = Ok pr)
     \<and> healthy terms pr = Ok True \<and> \<not> over_positions terms inputs pr
     \<and> fill_draft_of inputs (fd_fill_ledger d) (fd_percent d) pr = Ok d
     \<and> (ft_force_fill terms \<or> 0 < fd_est_profit d)
     \<and> ledger \<le> fd_fill_ledger d \<and> fd_fill_ledger d \<le> last_ledger
     \<and> fp_get (fd_percent d) \<le> fp_get (fi_max_percent inputs)"

lemma fill_draft_of_fields:
  "fill_draft_of inputs l p pr = Ok d \<Longrightarrow> fd_fill_ledger d = l \<and> fd_percent d = p \<and> fd_to_fill d = pj_to_fill pr
     \<and> fd_spend d = pj_spend pr \<and> fd_actions d = pj_actions pr
     \<and> fd_est_profit d = fd_lot_value d - fd_bid_value d"
  by (auto simp: fill_draft_of_def)

lemma settle_drafted:
  assumes "settle terms inputs l p pr = Ok (PlannedFill d)"
    and "fill_project terms inputs l p supply = Ok pr" "healthy terms pr = Ok True"
    and "ledger \<le> l" "l \<le> last_ledger" "fp_get p \<le> fp_get (fi_max_percent inputs)"
  shows "drafted terms inputs ledger last_ledger d pr"
proof -
  have d: "\<not> over_positions terms inputs pr" "fill_draft_of inputs l p pr = Ok d"
    "ft_force_fill terms \<or> 0 < fd_est_profit d"
    using assms(1) by (auto simp: settle_def split: if_splits)
  then have "fd_fill_ledger d = l" "fd_percent d = p" using fill_draft_of_fields by blast+
  with d assms(2-) show ?thesis by (auto simp: drafted_def)
qed

lemma plan_rounds_drafted:
  assumes "plan_rounds n terms inputs ledger last_ledger s u c = Ok (PlannedFill d)" "ledger \<le> last_ledger"
  shows "\<exists>pr. drafted terms inputs ledger last_ledger d pr"
  using assms(1)
proof (induction n arbitrary: s u c)
  case 0
  then show ?case by (simp add: exhausted_def)
next
  case (Suc n)
  let ?p = "fi_max_percent inputs"
  from Suc.prems obtain pr h where pr: "fill_project terms inputs ledger ?p s = Ok pr"
    and h: "healthy terms pr = Ok h" and o: "\<not> over_positions terms inputs pr"
    by (auto simp: Let_def split: if_splits)
  note body = Suc.prems [unfolded plan_rounds.simps Let_def pr rbind_Ok if_not_P [OF o] h]
  show ?case
  proof (cases h)
    case True
    with body have "settle terms inputs ledger ?p pr = Ok (PlannedFill d)" by simp
    from settle_drafted [OF this pr _ _ assms(2)] h True show ?thesis by auto
  next
    case False
    with body obtain nx u' c' where raise: "raise_supply terms inputs pr s u c = Ok (nx, u', c')" by auto
    note body = body [unfolded if_not_P [OF False] raise rbind_Ok prod.case]
    show ?thesis
    proof (cases "s < nx")
      case True
      with body Suc.IH show ?thesis by simp
    next
      case no_raise: False
      with body obtain lower where lower: "largest_healthy_percent terms inputs ledger ?p s = Ok lower" by auto
      note body = body [unfolded if_not_P [OF no_raise] lower rbind_Ok]
      show ?thesis
      proof (cases lower)
        case (Some lp)
        obtain p pr' where lp: "lp = (p, pr')" by (cases lp)
        from body Some lp have set: "settle terms inputs ledger p pr' = Ok (PlannedFill d)" by simp
        from largest_healthy_percent_Some [OF lower [unfolded Some lp]] settle_drafted [OF set _ _ _ assms(2)]
        show ?thesis unfolding healthy_candidate_Some by auto
      next
        case None
        with body obtain l pr' where
          later: "first_healthy_ledger terms inputs ledger last_ledger s = Ok (Some (l, pr'))"
          and set: "settle terms inputs l ?p pr' = Ok (PlannedFill d)"
          by (auto simp: exhausted_def split: option.splits)
        from first_healthy_ledger_Some [OF later] settle_drafted [OF set, of s ledger last_ledger]
        show ?thesis unfolding healthy_candidate_Some by auto
      qed
    qed
  qed
qed

section \<open>Giving up\<close>

text \<open>
  The rounds of a plan that only raised its supply: from one supply and pair of flags to
  another in a number of rounds, each of which projected an unhealthy fill.
\<close>

inductive raised ::
  "fill_terms \<Rightarrow> fill_inputs \<Rightarrow> nat \<Rightarrow> int \<times> bool \<times> bool \<Rightarrow> nat \<Rightarrow> int \<times> bool \<times> bool \<Rightarrow> bool"
  for terms inputs ledger where
  raised_none: "raised terms inputs ledger st 0 st"
| raised_more:
    "\<lbrakk> fill_project terms inputs ledger (fi_max_percent inputs) s = Ok pr; healthy terms pr = Ok False;
       raise_supply terms inputs pr s u c = Ok (s', u', c'); s < s';
       raised terms inputs ledger (s', u', c') n st \<rbrakk>
     \<Longrightarrow> raised terms inputs ledger (s, u, c) (Suc n) st"

text \<open>No lower percent and no later ledger of the window is healthy at this supply.\<close>

definition no_candidate :: "fill_terms \<Rightarrow> fill_inputs \<Rightarrow> nat \<Rightarrow> nat \<Rightarrow> int \<Rightarrow> bool" where
  "no_candidate terms inputs ledger last_ledger s \<longleftrightarrow>
     (\<forall>q. 1 \<le> q \<and> q \<le> fp_get (fi_max_percent inputs) \<longrightarrow>
        healthy_candidate terms inputs ledger (FillPercent q) s = Ok None)
     \<and> (\<forall>l. ledger < l \<and> l \<le> last_ledger \<longrightarrow>
        healthy_candidate terms inputs l (fi_max_percent inputs) s = Ok None)"

lemma raised_supply_le: "raised terms inputs ledger (s, u, c) n (s', u', c') \<Longrightarrow> s + int n \<le> s'"
  by (induction "(s, u, c)" n "(s', u', c')" arbitrary: s u c rule: raised.induct) auto

lemma settle_skip: "settle terms inputs l p pr = Ok (PlannedSkip k) \<Longrightarrow> k = TooManyPositions \<or> k = Unprofitable"
  by (auto simp: settle_def split: if_splits)

lemma plan_rounds_gives_up:
  assumes "plan_rounds n terms inputs ledger last_ledger s u c = Ok (PlannedSkip k)"
    and "k \<noteq> TooManyPositions" "k \<noteq> Unprofitable" "last_ledger \<le> u32_max"
  shows "\<exists>m s' u' c'. m \<le> n \<and> raised terms inputs ledger (s, u, c) m (s', u', c')
    \<and> (m = n \<and> PlannedSkip k = exhausted u' c' \<or> no_candidate terms inputs ledger last_ledger s')"
  using assms(1)
proof (induction n arbitrary: s u c)
  case 0
  then show ?case using raised_none by fastforce
next
  case (Suc n)
  let ?p = "fi_max_percent inputs"
  from Suc.prems assms(2) obtain pr h where pr: "fill_project terms inputs ledger ?p s = Ok pr"
    and h: "healthy terms pr = Ok h" and o: "\<not> over_positions terms inputs pr"
    by (auto simp: Let_def split: if_splits)
  note body = Suc.prems [unfolded plan_rounds.simps Let_def pr rbind_Ok if_not_P [OF o] h]
  have nh: "\<not> h" using body assms(2,3) by (auto dest!: settle_skip split: if_splits)
  then obtain nx u' c' where raise: "raise_supply terms inputs pr s u c = Ok (nx, u', c')" using body by auto
  note body = body [unfolded if_not_P [OF nh] raise rbind_Ok prod.case]
  show ?case
  proof (cases "s < nx")
    case True
    with body Suc.IH obtain m s' u'' c'' where "m \<le> n" and r: "raised terms inputs ledger (nx, u', c') m (s', u'', c'')"
      and e: "m = n \<and> PlannedSkip k = exhausted u'' c'' \<or> no_candidate terms inputs ledger last_ledger s'" by auto blast
    moreover have "raised terms inputs ledger (s, u, c) (Suc m) (s', u'', c'')"
      using raised_more [OF pr _ raise True r] h nh by simp
    ultimately show ?thesis by (intro exI [of _ "Suc m"]) blast
  next
    case False
    with body obtain lower where lower: "largest_healthy_percent terms inputs ledger ?p s = Ok lower" by auto
    note body = body [unfolded if_not_P [OF False] lower rbind_Ok]
    have "lower = None" using body assms(2,3) by (cases lower) (auto dest!: settle_skip)
    note lower = lower [unfolded this] and body = body [unfolded this option.case]
    obtain later where later: "first_healthy_ledger terms inputs ledger last_ledger s = Ok later"
      using body by auto
    have "later = None" using body assms(2,3) unfolding later by (cases later) (auto dest!: settle_skip)
    with later have l: "first_healthy_ledger terms inputs ledger last_ledger s = Ok None" by simp
    have "healthy_candidate terms inputs ledger (FillPercent q) s = Ok None" if "1 \<le> q" "q \<le> fp_get ?p" for q
    proof (cases "q = fp_get ?p")
      case True
      then show ?thesis using pr h nh by (simp add: healthy_candidate_def)
    qed (use that largest_healthy_percent_None [OF lower] in simp)
    then have "no_candidate terms inputs ledger last_ledger s"
      using first_healthy_ledger_None [OF l assms(4)] by (auto simp: no_candidate_def)
    then show ?thesis using raised_none [of terms inputs ledger "(s, u, c)"] by blast
  qed
qed

lemma fill_target_range:
  assumes "fill_target terms whole = Ok d"
  shows "d \<le> (if ft_force_fill terms then FORCE_FILL_MAX_DELAY else RAMP_END_BLOCKS)"
proof -
  have "d \<le> RAMP_END_BLOCKS" if "fill_delay lot bid bps False = Ok d" for lot bid bps d
    using fill_delay_threshold [OF that] by blast
  with assms show ?thesis
    by (cases "ft_force_fill terms") (auto simp: fill_target_def fill_delay_force split: fill_objective.splits)
qed

text \<open>\<open>plan_fill\<close> past its valuation: the rounds, run over the window it computed.\<close>

definition fill_reach :: "fill_terms \<Rightarrow> nat" where
  "fill_reach terms = (if ft_force_fill terms then FORCE_FILL_MAX_DELAY else RAMP_END_BLOCKS)"

lemma plan_fill_rounds:
  assumes "plan_fill terms inputs = Ok out" "out \<noteq> PlannedSkip Unprofitable"
  shows "\<exists>ledger last_ledger. plan_rounds (ft_plan_iterations terms) terms inputs ledger last_ledger 0 False False = Ok out
    \<and> ad_block (fi_auction inputs) \<le> ledger \<and> fi_earliest_ledger inputs \<le> ledger \<and> ledger \<le> last_ledger
    \<and> last_ledger = max (ad_block (fi_auction inputs) + fill_reach terms) (fi_earliest_ledger inputs)
    \<and> ad_block (fi_auction inputs) + fill_reach terms \<le> u32_max"
proof -
  let ?start = "ad_block (fi_auction inputs)"
  from assms obtain whole d where d: "fill_target terms whole = Ok d" and u: "?start + fill_reach terms \<le> u32_max"
    and rounds: "plan_rounds (ft_plan_iterations terms) terms inputs
      (max (?start + d) (max (fi_earliest_ledger inputs) ?start))
      (max (?start + fill_reach terms) (max (?start + d) (max (fi_earliest_ledger inputs) ?start))) 0 False False = Ok out"
    unfolding fill_reach_def by (auto simp: plan_fill_def Let_def split: if_splits)
  let ?ledger = "max (?start + d) (max (fi_earliest_ledger inputs) ?start)"
  have "max (?start + fill_reach terms) ?ledger = max (?start + fill_reach terms) (fi_earliest_ledger inputs)"
    using fill_target_range [OF d] by (auto simp: fill_reach_def)
  with rounds have "plan_rounds (ft_plan_iterations terms) terms inputs ?ledger
      (max (?start + fill_reach terms) (fi_earliest_ledger inputs)) 0 False False = Ok out" by simp
  moreover have "?start \<le> ?ledger" "fi_earliest_ledger inputs \<le> ?ledger"
    "?ledger \<le> max (?start + fill_reach terms) (fi_earliest_ledger inputs)"
    using fill_target_range [OF d] by (auto simp: fill_reach_def)
  ultimately show ?thesis using u by blast
qed

section \<open>Properties\<close>

text \<open>What \<open>healthy\<close> accepts, without the divisions it is computed with.\<close>

definition holds_floor :: "fill_terms \<Rightarrow> projection \<Rightarrow> bool" where
  "holds_floor terms pr \<longleftrightarrow> ps_liabilities (pj_positions pr) = []
     \<or> ft_min_collateral terms \<le> pd_collateral_base (pj_data pr)
       \<and> (pd_liability_base (pj_data pr) = 0
          \<or> (pd_scalar (pj_data pr) * ft_health_floor terms div SCALAR_7) * pd_liability_base (pj_data pr)
             \<le> pd_collateral_base (pj_data pr) * pd_scalar (pj_data pr))"

lemma healthy_holds_floor:
  assumes "healthy terms pr = Ok True" "0 \<le> pd_liability_base (pj_data pr)"
  shows "holds_floor terms pr"
proof (cases "ps_liabilities (pj_positions pr) = []")
  case False
  with assms(1) have "is_hf_under (pj_data pr) (ft_health_floor terms) = Ok False"
    "ft_min_collateral terms \<le> pd_collateral_base (pj_data pr)" by (auto simp: healthy_def)
  with is_hf_under_exact [OF this(1) assms(2)] show ?thesis by (auto simp: holds_floor_def)
qed (simp add: holds_floor_def)


definition sample_terms :: fill_terms where
  "sample_terms = \<lparr>ft_min_collateral = 0, ft_max_positions = 4, ft_supply_allowed = True,
     ft_primary_asset = ''XLM'', ft_health_floor = 11000000, ft_profit_bps = 500, ft_force_fill = False,
     ft_objective = EarliestProfitable, ft_plan_iterations = 1\<rparr>"

definition sample_inputs :: fill_inputs where
  "sample_inputs = \<lparr>fi_reserves = sample_reserves, fi_asset_index = [(''USDC'', 1), (''XLM'', 0)],
     fi_prices = sample_prices,
     fi_filler = positions_default, fi_borrower = sample_positions,
     fi_wallet = [(''USDC'', 10 ^ 9)],
     fi_auction = \<lparr>ad_bid = [(''USDC'', 5 * 10 ^ 7)], ad_lot = [(''XLM'', 10 ^ 9)], ad_block = 1000\<rparr>,
     fi_earliest_ledger = 1050, fi_max_percent = FillPercent 100\<rparr>"

lemmas sample_fill_defs = sample_terms_def sample_inputs_def sample_pool_defs

lemma sample_inputs_ok: "inputs_ok sample_inputs"
  using sample_reserves_ok sample_prices_ok sample_positions_ok
  by (simp add: inputs_ok_def sample_inputs_def auction_ok_def amounts_ok_def i128_defs
      positions_ok_def positions_default_def)

definition sample_to_fill :: auction_data where
  "sample_to_fill = \<lparr>ad_bid = [(''USDC'', 5 * 10 ^ 7)], ad_lot = [(''XLM'', 575000000)], ad_block = 1000\<rparr>"

definition sample_projection :: projection where
  "sample_projection = \<lparr>pj_to_fill = sample_to_fill,
     pj_positions = \<lparr>ps_collateral = [(0, 575000000)], ps_liabilities = [], ps_supply = []\<rparr>,
     pj_actions = [FillRepay ''USDC'' 60006001], pj_spend = [(''USDC'', 60006001)], pj_primary_available = 0,
     pj_data = \<lparr>pd_collateral_base = 56925000, pd_collateral_raw = 63250000, pd_liability_base = 0,
                pd_liability_raw = 0, pd_scalar = 10 ^ 7\<rparr>\<rparr>"

definition sample_draft :: fill_draft where
  "sample_draft = \<lparr>fd_fill_ledger = 1115, fd_percent = FillPercent 100,
     fd_actions = [FillRepay ''USDC'' 60006001], fd_to_fill = sample_to_fill,
     fd_lot_value = 63250000, fd_bid_value = 60000000, fd_est_profit = 3250000,
     fd_spend = [(''USDC'', 60006001)], fd_projected_health = None\<rparr>"

lemmas sample_answer_defs = sample_to_fill_def sample_projection_def sample_draft_def

lemma sample_scaled:
  "scale_auction (fi_auction sample_inputs) 1115 100 = Ok \<lparr>sa_to_fill = sample_to_fill, sa_remaining = None\<rparr>"
  by (simp add: sample_answer_defs sample_fill_defs eval_simps Let_def less_char_def)

lemma sample_projected:
  "fill_project sample_terms sample_inputs 1115 (FillPercent 100) 0 = Ok sample_projection"
  unfolding fill_project_def fill_percent.sel sample_scaled rbind_Ok Let_def
  by (simp add: sample_answer_defs sample_fill_defs eval_simps Let_def less_char_def)

lemma sample_settled:
  "settle sample_terms sample_inputs 1115 (FillPercent 100) sample_projection = Ok (PlannedFill sample_draft)"
  by (simp add: sample_answer_defs sample_fill_defs eval_simps Let_def less_char_def)

lemma sample_healthy:
  "healthy sample_terms sample_projection = Ok True" "\<not> over_positions sample_terms sample_inputs sample_projection"
  by (simp_all add: sample_answer_defs sample_fill_defs eval_simps Let_def)

lemma sample_plan: "plan_fill sample_terms sample_inputs = Ok (PlannedFill sample_draft)"
proof -
  have whole: "auction_positions (fi_auction sample_inputs) (fi_asset_index sample_inputs) = Ok sample_positions"
    "calculate_position_data (fi_reserves sample_inputs) (fi_prices sample_inputs) sample_positions =
      Ok \<lparr>pd_collateral_base = 99000000, pd_collateral_raw = 110000000,
            pd_liability_base = 66666667, pd_liability_raw = 60000000, pd_scalar = 10000000\<rparr>"
    by (simp_all add: sample_fill_defs eval_simps less_char_def)
  have target: "fill_target sample_terms \<lparr>pd_collateral_base = 99000000, pd_collateral_raw = 110000000,
            pd_liability_base = 66666667, pd_liability_raw = 60000000, pd_scalar = 10000000\<rparr> = Ok 115"
    by (simp add: sample_fill_defs eval_simps Let_def)
  have fields: "ad_block (fi_auction sample_inputs) = 1000" "fi_earliest_ledger sample_inputs = 1050"
    "fi_max_percent sample_inputs = FillPercent 100" "ft_plan_iterations sample_terms = 1"
    "ft_force_fill sample_terms = False"
    by (simp_all add: sample_terms_def sample_inputs_def)
  show ?thesis
    by (simp add: sample_healthy plan_fill_def whole target fields sample_projected sample_settled Let_def
        RAMP_END_BLOCKS_def checked_add_u32_def u32_max_def)
qed


text \<open>
  C18. A plan never spends what the wallet does not hold: for every asset the amount it
  reserves is exactly what its requests spend, is never negative, and is within the
  wallet's balance.
\<close>

theorem plan_fill_spend_covered:
  assumes "inputs_ok inputs" "plan_fill terms inputs = Ok (PlannedFill d)"
  shows "bt_get0 (fd_spend d) k = spent_by (fd_actions d) k \<and> 0 \<le> bt_get0 (fd_spend d) k
    \<and> bt_get0 (fd_spend d) k \<le> max 0 (bt_get0 (fi_wallet inputs) k)"
proof -
  from plan_fill_rounds [OF assms(2)] plan_rounds_drafted obtain s pr where
    pr: "fill_project terms inputs (fd_fill_ledger d) (fd_percent d) s = Ok pr"
    and "fill_draft_of inputs (fd_fill_ledger d) (fd_percent d) pr = Ok d"
    unfolding drafted_def by blast
  with fill_draft_of_fields have "fd_spend d = pj_spend pr" "fd_actions d = pj_actions pr" by blast+
  with fill_project_books [OF pr assms(1), of k] show ?thesis by simp
qed

theorem plan_fill_spend_covered_witness:
  "bt_get0 (fd_spend sample_draft) ''USDC'' = 60006001
   \<and> bt_get0 (fd_spend sample_draft) ''USDC'' \<le> max 0 (bt_get0 (fi_wallet sample_inputs) ''USDC'')"
  using plan_fill_spend_covered [OF sample_inputs_ok sample_plan, of "''USDC''"]
  by (simp add: sample_draft_def bt_get0_def)

text \<open>
  C19. The two fallback searches are exact: the percent found is the largest below the
  bound whose projection is healthy, the ledger found the first after the target that is,
  and an empty answer means that none is.
\<close>

theorem fallback_searches_exact:
  "(largest_healthy_percent terms inputs ledger below s = Ok (Some (p, pr)) \<longrightarrow>
      1 \<le> fp_get p \<and> fp_get p < fp_get below
      \<and> healthy_candidate terms inputs ledger p s = Ok (Some pr)
      \<and> (\<forall>q. fp_get p < q \<and> q < fp_get below \<longrightarrow>
           healthy_candidate terms inputs ledger (FillPercent q) s = Ok None))
   \<and> (largest_healthy_percent terms inputs ledger below s = Ok None \<longrightarrow>
      (\<forall>q. 1 \<le> q \<and> q < fp_get below \<longrightarrow>
           healthy_candidate terms inputs ledger (FillPercent q) s = Ok None))
   \<and> (first_healthy_ledger terms inputs ledger last_ledger s = Ok (Some (l, pr')) \<longrightarrow>
      ledger < l \<and> l \<le> last_ledger
      \<and> healthy_candidate terms inputs l (fi_max_percent inputs) s = Ok (Some pr')
      \<and> (\<forall>m. ledger < m \<and> m < l \<longrightarrow> healthy_candidate terms inputs m (fi_max_percent inputs) s = Ok None))
   \<and> (first_healthy_ledger terms inputs ledger last_ledger s = Ok None \<and> last_ledger \<le> u32_max \<longrightarrow>
      (\<forall>m. ledger < m \<and> m \<le> last_ledger \<longrightarrow> healthy_candidate terms inputs m (fi_max_percent inputs) s = Ok None))"
  using largest_healthy_percent_Some [of terms inputs ledger below s p pr]
    largest_healthy_percent_None [of terms inputs ledger below s]
    first_healthy_ledger_Some [of terms inputs ledger last_ledger s l pr']
    first_healthy_ledger_None [of terms inputs ledger last_ledger s]
  by (intro conjI; blast)

theorem fallback_searches_exact_witness:
  "first_healthy_ledger sample_terms sample_inputs 1114 1115 0 = Ok (Some (1115, sample_projection))
   \<and> healthy_candidate sample_terms sample_inputs 1115 (fi_max_percent sample_inputs) 0 = Ok (Some sample_projection)"
proof -
  have mx: "fi_max_percent sample_inputs = FillPercent 100" by (simp add: sample_inputs_def)
  have upt: "[1115..<Suc 1115] = [1115]" by simp
  have ev: "first_healthy_ledger sample_terms sample_inputs 1114 1115 0 = Ok (Some (1115, sample_projection))"
    unfolding first_healthy_ledger_def
    by (simp add: checked_add_u32_def u32_max_def upt healthy_candidate_def mx sample_projected sample_healthy
        del: upt_Suc)
  from fallback_searches_exact [of sample_terms sample_inputs 1114 "FillPercent 1" 0 _ _ 1115 1115 sample_projection] ev
  show ?thesis by blast
qed



end
