(* ===== verification/Unwind.thy ===== *)
theory Unwind
  imports Fill_Plan
begin

text \<open>
  \<open>src/math/unwind.rs\<close>: one pass of the unwinder, which repays the filler's debts from its
  wallet and withdraws what collateral its floor allows. Each \<open>&mut\<close> parameter of the
  source is an argument and a component of the result.
\<close>

section \<open>Definitions\<close>

definition HEALTH_MARGIN_BPS :: int where
  "HEALTH_MARGIN_BPS = 50"

definition DUST_FLOOR_BPS :: int where
  "DUST_FLOOR_BPS = 100"

definition BACKOFF_BPS :: int where
  "BACKOFF_BPS = 1"

definition BACKOFF_ROUNDS :: nat where
  "BACKOFF_ROUNDS = 8"

record unwind_terms =
  ut_primary_asset :: string
  ut_min_primary_collateral :: int
  ut_min_health_factor :: int
  ut_min_collateral :: int

record unwind_inputs =
  ui_reserves :: "(nat, reserve) btree"
  ui_asset_index :: "(string, nat) btree"
  ui_prices :: oracle_prices
  ui_positions :: positions
  ui_wallet :: "(string, int) btree"

datatype unwind_action =
    UnwindRepay string int
  | UnwindWithdraw string int
  | UnwindWithdrawAll string

record unwind_plan =
  up_actions :: "unwind_action list"
  up_spend :: "(string, int) btree"
  up_remaining_liabilities :: "string list"
  up_projected_health :: "int option"

text \<open>\<open>UnwindPlan::is_idle\<close>.\<close>

definition unwind_is_idle :: "unwind_plan \<Rightarrow> bool" where
  "unwind_is_idle self \<longleftrightarrow> up_actions self = []"

definition reserve_at :: "unwind_inputs \<Rightarrow> nat \<Rightarrow> reserve math_result" where
  "reserve_at inputs index = ok_or (MissingReserve index) (bt_get (ui_reserves inputs) index)"

definition primary_index :: "unwind_terms \<Rightarrow> unwind_inputs \<Rightarrow> nat math_result" where
  "primary_index terms inputs =
     ok_or (InvalidInput ''the primary asset is not a reserve of this pool'')
       (bt_get (ui_asset_index inputs) (ut_primary_asset terms))"

text \<open>\<open>project\<close>.\<close>

definition unwind_project :: "unwind_inputs \<Rightarrow> positions \<Rightarrow> position_data math_result" where
  "unwind_project inputs positions = calculate_position_data (ui_reserves inputs) (ui_prices inputs) positions"

definition dust :: "unwind_terms \<Rightarrow> int \<Rightarrow> bool math_result" where
  "dust terms amount =
     rbind (mul_floor (max (ut_min_primary_collateral terms) 0) DUST_FLOOR_BPS BPS) (\<lambda>floor.
     Ok (amount < floor))"

definition primary_excess :: "unwind_terms \<Rightarrow> unwind_inputs \<Rightarrow> positions \<Rightarrow> int math_result" where
  "primary_excess terms inputs positions =
     rbind (primary_index terms inputs) (\<lambda>primary.
     rbind (reserve_at inputs primary) (\<lambda>reserve.
     let held = bt_get0 (ps_collateral positions) primary in
     if held \<le> 0 then Ok 0
     else
       rbind (to_b_token_up reserve (max (ut_min_primary_collateral terms) 0)) (\<lambda>floor.
       rbind (ok_or Overflow (checked_sub held floor)) (\<lambda>goes.
       if goes \<le> 0 then Ok 0 else to_asset_from_b_token reserve goes))))"

text \<open>\<open>if left > 0 { insert } else { remove }\<close>, as every update of a position map is written.\<close>

definition set_left :: "nat \<Rightarrow> int \<Rightarrow> (nat, int) btree \<Rightarrow> (nat, int) btree" where
  "set_left index left m = (if 0 < left then bt_insert index left m else bt_remove index m)"

definition after_withdrawal :: "unwind_inputs \<Rightarrow> positions \<Rightarrow> nat \<Rightarrow> int \<Rightarrow> positions math_result" where
  "after_withdrawal inputs positions index amount =
     rbind (reserve_at inputs index) (\<lambda>reserve.
     let held = bt_get0 (ps_collateral positions) index in
     rbind (to_b_token_up reserve amount) (\<lambda>tokens.
     let burnt = min tokens held in
     rbind (ok_or Overflow (checked_sub held burnt)) (\<lambda>left.
     Ok (positions\<lparr>ps_collateral := set_left index left (ps_collateral positions)\<rparr>))))"

record bounds =
  bo_margin :: int
  bo_min_collateral :: int

text \<open>\<open>Bounds::of\<close> and \<open>Bounds::accepts\<close>.\<close>

definition bounds_of :: "unwind_terms \<Rightarrow> bounds math_result" where
  "bounds_of terms =
     rbind (ok_or Overflow (checked_add BPS HEALTH_MARGIN_BPS)) (\<lambda>factor.
     rbind (mul_ceil (ut_min_health_factor terms) factor BPS) (\<lambda>margin.
     Ok \<lparr>bo_margin = margin, bo_min_collateral = ut_min_collateral terms\<rparr>))"

definition accepts :: "bounds \<Rightarrow> position_data \<Rightarrow> bool math_result" where
  "accepts self data =
     rbind (is_hf_under data (bo_margin self)) (\<lambda>below.
     Ok (\<not> below \<and> bo_min_collateral self \<le> pd_collateral_base data))"

type_synonym unwinding = "positions \<times> unwind_action list"

definition take_withdrawal ::
  "bounds \<Rightarrow> unwind_inputs \<Rightarrow> nat \<Rightarrow> int \<Rightarrow> unwinding \<Rightarrow> (bool \<times> unwinding) math_result" where
  "take_withdrawal bounds inputs index amount = (\<lambda>(positions, actions).
     if amount \<le> 0 then Ok (False, positions, actions)
     else
       rbind (after_withdrawal inputs positions index amount) (\<lambda>next.
       rbind (unwind_project inputs next) (\<lambda>data.
       rbind (accepts bounds data) (\<lambda>ok.
       if \<not> ok then Ok (False, positions, actions)
       else
         rbind (reserve_at inputs index) (\<lambda>reserve.
         Ok (True, next, actions @ [UnwindWithdraw (rs_asset reserve) amount]))))))"

text \<open>The back-off loop of \<open>partial\<close>; its first argument is the turns left.\<close>

fun backoff ::
  "nat \<Rightarrow> unwind_terms \<Rightarrow> bounds \<Rightarrow> unwind_inputs \<Rightarrow> nat \<Rightarrow> bool \<Rightarrow> int \<Rightarrow> unwinding \<Rightarrow> unwinding math_result" where
  "backoff 0 terms bounds inputs index is_primary amount st = Ok st"
| "backoff (Suc n) terms bounds inputs index is_primary amount st =
     (if amount \<le> 0 then Ok st
      else
        rbind (if is_primary then dust terms amount else Ok False) (\<lambda>small.
        if small then Ok st
        else
          rbind (take_withdrawal bounds inputs index amount st) (\<lambda>(taken, st).
          if taken then Ok st
          else
            rbind (mul_ceil amount BACKOFF_BPS BPS) (\<lambda>cut.
            rbind (ok_or Overflow (checked_sub amount cut)) (\<lambda>amount.
            backoff n terms bounds inputs index is_primary amount st)))))"

text \<open>The b-tokens \<open>partial\<close>'s formula lets go of a candidate, before the primary's floor.\<close>

definition partial_goes ::
  "bounds \<Rightarrow> unwind_inputs \<Rightarrow> position_data \<Rightarrow> reserve \<Rightarrow> int \<Rightarrow> int math_result" where
  "partial_goes bounds inputs data reserve held =
     (let c_factor = int (rc_c_factor (rs_config reserve)) in
      rbind (oracle_price (ui_prices inputs) (rs_asset reserve)) (\<lambda>price.
      rbind (mul_ceil (pd_liability_base data) (bo_margin bounds) SCALAR_7) (\<lambda>needed.
      let required = max needed (bo_min_collateral bounds) in
      rbind (ok_or Overflow (checked_sub (pd_collateral_base data) required)) (\<lambda>may_go.
      rbind (to_effective_asset_from_b_token reserve held) (\<lambda>effective.
      rbind (mul_floor price effective (rs_scalar reserve)) (\<lambda>carries.
      rbind (ok_or Overflow (checked_sub carries may_go)) (\<lambda>kept.
      let stays_base = max kept 0 in
      rbind (mul_ceil stays_base (rs_scalar reserve) price) (\<lambda>effective_underlying.
      rbind (div_ceil effective_underlying c_factor SCALAR_7) (\<lambda>underlying.
      rbind (to_b_token_up reserve underlying) (\<lambda>stays.
      ok_or Overflow (checked_sub held stays)))))))))))"

definition partial_withdrawal ::
  "unwind_terms \<Rightarrow> bounds \<Rightarrow> unwind_inputs \<Rightarrow> position_data \<Rightarrow> nat \<Rightarrow> unwinding \<Rightarrow> unwinding math_result" where
  "partial_withdrawal terms bounds inputs data index = (\<lambda>(positions, actions).
     rbind (reserve_at inputs index) (\<lambda>reserve.
     if rc_c_factor (rs_config reserve) = 0 then Ok (positions, actions)
     else
       let held = bt_get0 (ps_collateral positions) index in
       if held \<le> 0 then Ok (positions, actions)
       else
         rbind (partial_goes bounds inputs data reserve held) (\<lambda>goes.
         rbind (primary_index terms inputs) (\<lambda>primary.
         let is_primary = (index = primary) in
         rbind (if is_primary then
                  rbind (to_b_token_up reserve (max (ut_min_primary_collateral terms) 0)) (\<lambda>floor.
                  rbind (ok_or Overflow (checked_sub held floor)) (\<lambda>above.
                  Ok (min goes above)))
                else Ok goes) (\<lambda>goes.
         if goes \<le> 0 then Ok (positions, actions)
         else
           rbind (to_asset_from_b_token reserve goes) (\<lambda>amount.
           backoff (Suc BACKOFF_ROUNDS) terms bounds inputs index is_primary amount (positions, actions)))))))"

definition withdraw_candidate ::
  "unwind_terms \<Rightarrow> bounds \<Rightarrow> unwind_inputs \<Rightarrow> position_data \<Rightarrow> nat \<Rightarrow> unwinding \<Rightarrow> unwinding math_result" where
  "withdraw_candidate terms bounds inputs data index = (\<lambda>(positions, actions).
     rbind (primary_index terms inputs) (\<lambda>primary.
     if index = primary then
       rbind (primary_excess terms inputs positions) (\<lambda>excess.
       rbind (if excess \<le> 0 then Ok True else dust terms excess) (\<lambda>stop.
       if stop then Ok (positions, actions)
       else
         rbind (take_withdrawal bounds inputs index excess (positions, actions)) (\<lambda>(taken, st).
         if taken then Ok st else partial_withdrawal terms bounds inputs data index st)))
     else
       rbind (reserve_at inputs index) (\<lambda>reserve.
       let whole = positions\<lparr>ps_collateral := bt_remove index (ps_collateral positions)\<rparr> in
       rbind (unwind_project inputs whole) (\<lambda>whole_data.
       rbind (accepts bounds whole_data) (\<lambda>ok.
       if ok then Ok (whole, actions @ [UnwindWithdrawAll (rs_asset reserve)])
       else partial_withdrawal terms bounds inputs data index (positions, actions))))))"

text \<open>One turn of \<open>candidates\<close>' loop over the collateral.\<close>

definition sort_candidate ::
  "unwind_inputs \<Rightarrow> positions \<Rightarrow> nat \<Rightarrow> nat \<times> int \<Rightarrow> nat list \<times> (int \<times> nat) list \<times> bool
   \<Rightarrow> (nat list \<times> (int \<times> nat) list \<times> bool) math_result" where
  "sort_candidate inputs positions primary = (\<lambda>(index, b_tokens) (order, rest, holds_primary).
     if b_tokens \<le> 0 then Ok (order, rest, holds_primary)
     else if index = primary then Ok (order, rest, True)
     else if bt_get (ps_liabilities positions) index \<noteq> None then Ok (order @ [index], rest, holds_primary)
     else
       rbind (reserve_at inputs index) (\<lambda>reserve.
       rbind (oracle_price (ui_prices inputs) (rs_asset reserve)) (\<lambda>price.
       rbind (to_effective_asset_from_b_token reserve b_tokens) (\<lambda>effective.
       rbind (mul_floor price effective (rs_scalar reserve)) (\<lambda>value.
       Ok (order, rest @ [(value, index)], holds_primary))))))"

definition candidates :: "unwind_terms \<Rightarrow> unwind_inputs \<Rightarrow> positions \<Rightarrow> nat list math_result" where
  "candidates terms inputs positions =
     rbind (primary_index terms inputs) (\<lambda>primary.
     rbind (rfold (sort_candidate inputs positions primary) (ps_collateral positions) ([], [], False))
       (\<lambda>(order, rest, holds_primary).
     Ok (order @ map snd (sort rest) @ (if holds_primary then [primary] else []))))"

text \<open>The loop of \<open>withdraw_within_floor\<close>, with its \<open>break\<close>.\<close>

fun floor_walk ::
  "unwind_terms \<Rightarrow> bounds \<Rightarrow> unwind_inputs \<Rightarrow> nat list \<Rightarrow> unwinding \<Rightarrow> unwinding math_result" where
  "floor_walk terms bounds inputs [] st = Ok st"
| "floor_walk terms bounds inputs (index # rest) st =
     rbind (unwind_project inputs (fst st)) (\<lambda>data.
     rbind (is_hf_under data (bo_margin bounds)) (\<lambda>below.
     if below then Ok st
     else rbind (withdraw_candidate terms bounds inputs data index st) (floor_walk terms bounds inputs rest)))"

definition withdraw_within_floor ::
  "unwind_terms \<Rightarrow> unwind_inputs \<Rightarrow> unwinding \<Rightarrow> (unwinding \<times> int option) math_result" where
  "withdraw_within_floor terms inputs st =
     rbind (bounds_of terms) (\<lambda>bounds.
     rbind (candidates terms inputs (fst st)) (\<lambda>order.
     rbind (floor_walk terms bounds inputs order st) (\<lambda>st.
     rbind (unwind_project inputs (fst st)) (\<lambda>data.
     rbind (health_factor data) (\<lambda>hf. Ok (st, hf))))))"

text \<open>One turn of \<open>withdraw_free\<close>'s loop over the collateral's keys.\<close>

definition free_other :: "unwind_inputs \<Rightarrow> nat \<Rightarrow> nat \<Rightarrow> unwinding \<Rightarrow> unwinding math_result" where
  "free_other inputs primary index = (\<lambda>(positions, actions).
     if index = primary then Ok (positions, actions)
     else
       let empty = bt_get0 (ps_collateral positions) index \<le> 0 in
       rbind (reserve_at inputs index) (\<lambda>reserve.
       Ok (positions\<lparr>ps_collateral := bt_remove index (ps_collateral positions)\<rparr>,
           if empty then actions else actions @ [UnwindWithdrawAll (rs_asset reserve)])))"

definition withdraw_free :: "unwind_terms \<Rightarrow> unwind_inputs \<Rightarrow> unwinding \<Rightarrow> unwinding math_result" where
  "withdraw_free terms inputs st =
     rbind (primary_index terms inputs) (\<lambda>primary.
     rbind (rfold (free_other inputs primary) (bt_keys (ps_collateral (fst st))) st) (\<lambda>(positions, actions).
     let held = bt_get0 (ps_collateral positions) primary in
     if held \<le> 0 then Ok (positions, actions)
     else
       rbind (reserve_at inputs primary) (\<lambda>reserve.
       if ut_min_primary_collateral terms \<le> 0 then
         Ok (positions\<lparr>ps_collateral := bt_remove primary (ps_collateral positions)\<rparr>,
             actions @ [UnwindWithdrawAll (rs_asset reserve)])
       else
         rbind (primary_excess terms inputs positions) (\<lambda>excess.
         rbind (if excess \<le> 0 then Ok True else dust terms excess) (\<lambda>stop.
         if stop then Ok (positions, actions)
         else
           rbind (after_withdrawal inputs positions primary excess) (\<lambda>positions.
           Ok (positions, actions @ [UnwindWithdraw (rs_asset reserve) excess])))))))"

text \<open>The mutable parameters of \<open>repay\<close>.\<close>

record unwind_state =
  us_positions :: positions
  us_wallet :: "(string, int) btree"
  us_actions :: "unwind_action list"
  us_spend :: "(string, int) btree"

definition repay_debt :: "unwind_inputs \<Rightarrow> nat \<Rightarrow> unwind_state \<Rightarrow> unwind_state math_result" where
  "repay_debt inputs index st =
     rbind (reserve_at inputs index) (\<lambda>reserve.
     let positions = us_positions st; liabilities = ps_liabilities positions;
         owing = bt_get0 liabilities index in
     if owing \<le> 0 then
       Ok (st\<lparr>us_positions := positions\<lparr>ps_liabilities := bt_remove index liabilities\<rparr>\<rparr>)
     else
       let held = bt_get0 (us_wallet st) (rs_asset reserve) in
       if held \<le> 0 then Ok st
       else
         rbind (repay_amount reserve owing) (\<lambda>wanted.
         let amount = min wanted held in
         rbind (to_d_token_down reserve amount) (\<lambda>tokens.
         let burnt = min tokens owing in
         rbind (ok_or Overflow (checked_sub owing burnt)) (\<lambda>left.
         let left = (if left = 0 \<and> amount < wanted then owing else left) in
         rbind (ok_or Overflow (checked_sub held amount)) (\<lambda>rest.
         rbind (add_to (us_spend st) (rs_asset reserve) amount) (\<lambda>spend.
         Ok \<lparr>us_positions = positions\<lparr>ps_liabilities := set_left index left liabilities\<rparr>,
             us_wallet = bt_insert (rs_asset reserve) rest (us_wallet st),
             us_actions = us_actions st @ [UnwindRepay (rs_asset reserve) amount],
             us_spend = spend\<rparr>))))))"

text \<open>\<open>repay\<close>.\<close>

definition unwind_repay :: "unwind_inputs \<Rightarrow> unwind_state \<Rightarrow> unwind_state math_result" where
  "unwind_repay inputs st = rfold (repay_debt inputs) (bt_keys (ps_liabilities (us_positions st))) st"

text \<open>The loop of \<open>plan_unwind\<close> that names what is still owed.\<close>

definition remaining_assets :: "unwind_inputs \<Rightarrow> positions \<Rightarrow> string list math_result" where
  "remaining_assets inputs positions =
     rfold (\<lambda>index acc. rbind (reserve_at inputs index) (\<lambda>reserve. Ok (acc @ [rs_asset reserve])))
       (bt_keys (ps_liabilities positions)) []"

definition plan_unwind :: "unwind_terms \<Rightarrow> unwind_inputs \<Rightarrow> unwind_plan math_result" where
  "plan_unwind terms inputs =
     rbind (unwind_repay inputs \<lparr>us_positions = ui_positions inputs, us_wallet = ui_wallet inputs,
              us_actions = [], us_spend = []\<rparr>) (\<lambda>st.
     rbind (remaining_assets inputs (us_positions st)) (\<lambda>remaining_liabilities.
     rbind (if ps_liabilities (us_positions st) = [] then
              rbind (withdraw_free terms inputs (us_positions st, us_actions st)) (\<lambda>done. Ok (done, None))
            else withdraw_within_floor terms inputs (us_positions st, us_actions st))
       (\<lambda>((_, actions), projected_health).
     Ok \<lparr>up_actions = actions, up_spend = us_spend st,
         up_remaining_liabilities = remaining_liabilities, up_projected_health = projected_health\<rparr>)))"

lemmas unwind_evals [eval_simps] = HEALTH_MARGIN_BPS_def DUST_FLOOR_BPS_def BACKOFF_BPS_def
  reserve_at_def primary_index_def unwind_project_def dust_def primary_excess_def set_left_def
  after_withdrawal_def bounds_of_def accepts_def take_withdrawal_def partial_goes_def
  partial_withdrawal_def withdraw_candidate_def sort_candidate_def candidates_def
  withdraw_within_floor_def free_other_def withdraw_free_def repay_debt_def unwind_repay_def
  remaining_assets_def plan_unwind_def

section \<open>The repays\<close>

definition unwind_inputs_ok :: "unwind_inputs \<Rightarrow> bool" where
  "unwind_inputs_ok inputs \<longleftrightarrow> reserves_ok (ui_reserves inputs) \<and> prices_ok (ui_prices inputs)
     \<and> positions_ok (ui_positions inputs)"

fun unwind_spend :: "unwind_action \<Rightarrow> string \<Rightarrow> int" where
  "unwind_spend (UnwindRepay asset amount) k = (if k = asset then amount else 0)"
| "unwind_spend (UnwindWithdraw asset amount) k = 0"
| "unwind_spend (UnwindWithdrawAll asset) k = 0"

definition repaid_by :: "unwind_action list \<Rightarrow> string \<Rightarrow> int" where
  "repaid_by actions k = (\<Sum>a\<leftarrow>actions. unwind_spend a k)"

lemma repaid_by_simps [simp]:
  "repaid_by [] k = 0" "repaid_by (as @ bs) k = repaid_by as k + repaid_by bs k"
  "repaid_by [a] k = unwind_spend a k"
  by (simp_all add: repaid_by_def)

lemma reserve_at_Ok [simp]: "reserve_at inputs i = Ok r \<longleftrightarrow> bt_get (ui_reserves inputs) i = Some r"
  by (simp add: reserve_at_def)

lemma set_left_get: "bt_get (set_left i l m) j = (if j = i then (if 0 < l then Some l else None) else bt_get m j)"
  by (simp add: set_left_def)

lemma set_left_get0: "0 \<le> l \<Longrightarrow> bt_get0 (set_left i l m) j = (if j = i then l else bt_get0 m j)"
  by (auto simp: set_left_def)

lemma set_left_nonneg [simp]: "nonneg m \<Longrightarrow> nonneg (set_left i l m)"
  by (simp add: set_left_def)

text \<open>What one turn of the repay loop can do to the debt it looks at.\<close>

lemma repay_debt_cases:
  assumes "repay_debt inputs i st = Ok st'"
  obtains (no_debt) r where "bt_get (ui_reserves inputs) i = Some r"
      "bt_get0 (ps_liabilities (us_positions st)) i \<le> 0"
      "st' = st\<lparr>us_positions := (us_positions st)\<lparr>ps_liabilities := bt_remove i (ps_liabilities (us_positions st))\<rparr>\<rparr>"
    | (no_funds) r where "bt_get (ui_reserves inputs) i = Some r"
      "0 < bt_get0 (ps_liabilities (us_positions st)) i" "bt_get0 (us_wallet st) (rs_asset r) \<le> 0" "st' = st"
    | (repay) r wanted left spend where "bt_get (ui_reserves inputs) i = Some r"
      "0 < bt_get0 (ps_liabilities (us_positions st)) i" "0 < bt_get0 (us_wallet st) (rs_asset r)"
      "repay_amount r (bt_get0 (ps_liabilities (us_positions st)) i) = Ok wanted"
      "0 \<le> left" "left = 0 \<longrightarrow> wanted \<le> bt_get0 (us_wallet st) (rs_asset r)"
      "add_to (us_spend st) (rs_asset r) (min wanted (bt_get0 (us_wallet st) (rs_asset r))) = Ok spend"
      "st' = \<lparr>us_positions = (us_positions st)\<lparr>ps_liabilities := set_left i left (ps_liabilities (us_positions st))\<rparr>,
             us_wallet = bt_insert (rs_asset r)
               (bt_get0 (us_wallet st) (rs_asset r) - min wanted (bt_get0 (us_wallet st) (rs_asset r))) (us_wallet st),
             us_actions = us_actions st @ [UnwindRepay (rs_asset r) (min wanted (bt_get0 (us_wallet st) (rs_asset r)))],
             us_spend = spend\<rparr>"
proof -
  from assms obtain r where r: "bt_get (ui_reserves inputs) i = Some r" by (auto simp: repay_debt_def)
  let ?owing = "bt_get0 (ps_liabilities (us_positions st)) i" and ?held = "bt_get0 (us_wallet st) (rs_asset r)"
  consider "?owing \<le> 0" | "0 < ?owing" "?held \<le> 0" | "0 < ?owing" "0 < ?held" by linarith
  then show thesis
  proof cases
    case 1
    show ?thesis by (rule no_debt [OF r 1]) (use assms r 1 in \<open>simp add: repay_debt_def Let_def\<close>)
  next
    case 2
    show ?thesis by (rule no_funds [OF r 2]) (use assms r 2 in \<open>simp add: repay_debt_def Let_def\<close>)
  next
    case 3
    then have c: "\<not> ?owing \<le> 0" "\<not> ?held \<le> 0" by simp_all
    have ra: "reserve_at inputs i = Ok r" using r by simp
    from assms [unfolded repay_debt_def ra rbind_Ok Let_def if_not_P [OF c(1)] if_not_P [OF c(2)]]
    obtain wanted tokens l rest spend where
      w: "repay_amount r ?owing = Ok wanted" and t: "to_d_token_down r (min wanted ?held) = Ok tokens"
      and l: "ok_or Overflow (checked_sub ?owing (min tokens ?owing)) = Ok l"
      and rest: "ok_or Overflow (checked_sub ?held (min wanted ?held)) = Ok rest"
      and sp: "add_to (us_spend st) (rs_asset r) (min wanted ?held) = Ok spend"
      and st': "Ok \<lparr>us_positions = (us_positions st)\<lparr>ps_liabilities :=
               set_left i (if l = 0 \<and> min wanted ?held < wanted then ?owing else l) (ps_liabilities (us_positions st))\<rparr>,
             us_wallet = bt_insert (rs_asset r) rest (us_wallet st),
             us_actions = us_actions st @ [UnwindRepay (rs_asset r) (min wanted ?held)],
             us_spend = spend\<rparr> = (Ok st' :: unwind_state math_result)"
      by (elim rbindE) (rule that)
    let ?left = "if l = 0 \<and> min wanted ?held < wanted then ?owing else l"
    have l': "l = ?owing - min tokens ?owing" and rest': "rest = ?held - min wanted ?held" using l rest by simp_all
    show ?thesis
    proof (rule repay [OF r 3 w, of ?left spend])
      show "0 \<le> ?left" using 3 l' by simp
      show "?left = 0 \<longrightarrow> wanted \<le> ?held" using 3 by auto
      show "add_to (us_spend st) (rs_asset r) (min wanted ?held) = Ok spend" by (rule sp)
    qed (use st' rest' in \<open>simp only: sum.inject\<close>)
  qed
qed

lemma repay_debt_books:
  assumes "repay_debt inputs i st = Ok st'" "reserves_ok (ui_reserves inputs)"
    and "balanced w (us_wallet st) (us_spend st) (repaid_by (us_actions st))"
  shows "balanced w (us_wallet st') (us_spend st') (repaid_by (us_actions st'))"
  using assms(1)
proof (cases rule: repay_debt_cases)
  case (repay r wanted l spend)
  have "reserve_ok r" using reserves_okD [OF assms(2) repay(1)] by simp
  then have "0 < wanted" using repay_amount_pos [OF repay(4)] repay(2) by (simp add: reserve_ok_def)
  then have pay: "0 < min wanted (bt_get0 (us_wallet st) (rs_asset r))"
    "min wanted (bt_get0 (us_wallet st) (rs_asset r)) \<le> bt_get0 (us_wallet st) (rs_asset r)"
    using repay(3) by simp_all
  show ?thesis unfolding repay(8) by (simp add: balanced_pay [OF assms(3) repay(7) pay])
qed (use assms in simp_all)

lemma repay_debt_positions:
  assumes "repay_debt inputs i st = Ok st'" "positions_ok (us_positions st)"
  shows "positions_ok (us_positions st')" "ps_collateral (us_positions st') = ps_collateral (us_positions st)"
    "ps_supply (us_positions st') = ps_supply (us_positions st)"
  by (use assms in \<open>cases rule: repay_debt_cases; simp add: positions_ok_nonneg\<close>)+

text \<open>
  A debt is projected as cleared only by a repay that carried its whole allowance; any other
  debt stays.
\<close>

definition settled_debt :: "unwind_inputs \<Rightarrow> unwind_action list \<Rightarrow> nat \<Rightarrow> int \<Rightarrow> bool" where
  "settled_debt inputs actions i owing \<longleftrightarrow>
     (\<exists>r wanted. bt_get (ui_reserves inputs) i = Some r \<and> repay_amount r owing = Ok wanted
        \<and> UnwindRepay (rs_asset r) wanted \<in> set actions)"

lemma settled_debt_mono: "settled_debt inputs as i o' \<Longrightarrow> settled_debt inputs (as @ bs) i o'"
  by (auto simp: settled_debt_def)

definition debts_followed :: "unwind_inputs \<Rightarrow> (nat, int) btree \<Rightarrow> nat list \<Rightarrow> unwind_state \<Rightarrow> bool" where
  "debts_followed inputs l0 ks st \<longleftrightarrow>
     (\<forall>i \<in> set ks. 0 < bt_get0 l0 i \<and> bt_get (ps_liabilities (us_positions st)) i = None
        \<longrightarrow> settled_debt inputs (us_actions st) i (bt_get0 l0 i))
     \<and> (\<forall>i. i \<notin> set ks \<longrightarrow> bt_get (ps_liabilities (us_positions st)) i = bt_get l0 i)"

lemma repay_debt_actions:
  "repay_debt inputs i st = Ok st' \<Longrightarrow> \<exists>more. us_actions st' = us_actions st @ more"
  by (cases rule: repay_debt_cases) auto

lemma repay_debt_other:
  "repay_debt inputs i st = Ok st' \<Longrightarrow> j \<noteq> i \<Longrightarrow>
   bt_get (ps_liabilities (us_positions st')) j = bt_get (ps_liabilities (us_positions st)) j"
  by (cases rule: repay_debt_cases) (auto simp: set_left_get)

lemma repay_debt_this:
  assumes "repay_debt inputs i st = Ok st'" "0 < bt_get0 (ps_liabilities (us_positions st)) i"
    and "bt_get (ps_liabilities (us_positions st')) i = None"
  shows "settled_debt inputs (us_actions st') i (bt_get0 (ps_liabilities (us_positions st)) i)"
  using assms(1)
proof (cases rule: repay_debt_cases)
  case (repay r wanted l spend)
  have "l = 0" using repay(5,8) assms(3) by (auto simp: set_left_get split: if_splits)
  with repay show ?thesis by (auto simp: settled_debt_def)
qed (use assms in \<open>auto simp: bt_get0_def split: option.splits\<close>)

lemma repay_debt_followed:
  assumes "repay_debt inputs i st = Ok st'" "debts_followed inputs l0 ks st" "i \<notin> set ks"
  shows "debts_followed inputs l0 (ks @ [i]) st'"
proof -
  have l0: "bt_get0 (ps_liabilities (us_positions st)) i = bt_get0 l0 i"
    using assms(2,3) by (simp add: debts_followed_def bt_get0_def)
  obtain more where more: "us_actions st' = us_actions st @ more" using repay_debt_actions [OF assms(1)] by blast
  have "settled_debt inputs (us_actions st') j (bt_get0 l0 j)"
    if "j \<in> set (ks @ [i])" "0 < bt_get0 l0 j" "bt_get (ps_liabilities (us_positions st')) j = None" for j
  proof (cases "j = i")
    case True
    then show ?thesis using repay_debt_this [OF assms(1)] that l0 by simp
  next
    case False
    then have "bt_get (ps_liabilities (us_positions st)) j = None" using repay_debt_other [OF assms(1)] that(3) by simp
    then show ?thesis unfolding more
      using assms(2) that False by (intro settled_debt_mono) (auto simp: debts_followed_def)
  qed
  moreover have "bt_get (ps_liabilities (us_positions st')) j = bt_get l0 j" if "j \<notin> set (ks @ [i])" for j
    using that assms(2) repay_debt_other [OF assms(1), of j] by (auto simp: debts_followed_def)
  ultimately show ?thesis unfolding debts_followed_def by blast
qed

section \<open>Withdrawals\<close>

text \<open>
  What a sequence of step-3 withdrawals may do: nothing, or shrink the collateral to a
  position the bounds accept, without taking the primary under \<open>keep\<close> b-tokens (or under
  what it held, when that was less).
\<close>

definition shrunk :: "positions \<Rightarrow> positions \<Rightarrow> bool" where
  "shrunk p p' \<longleftrightarrow> ps_liabilities p' = ps_liabilities p \<and> ps_supply p' = ps_supply p
     \<and> nonneg (ps_collateral p') \<and> (\<forall>i. bt_get0 (ps_collateral p') i \<le> bt_get0 (ps_collateral p) i)"

definition accepted :: "bounds \<Rightarrow> unwind_inputs \<Rightarrow> positions \<Rightarrow> bool" where
  "accepted bounds inputs p \<longleftrightarrow> (\<exists>data. unwind_project inputs p = Ok data \<and> accepts bounds data = Ok True)"

definition withdrawals :: "unwind_action list \<Rightarrow> bool" where
  "withdrawals as \<longleftrightarrow> (\<forall>a \<in> set as. \<forall>k. unwind_spend a k = 0)"

definition withdrawn :: "bounds \<Rightarrow> unwind_inputs \<Rightarrow> nat \<Rightarrow> int \<Rightarrow> unwinding \<Rightarrow> unwinding \<Rightarrow> bool" where
  "withdrawn bounds inputs primary keep = (\<lambda>(p, a) (p', a').
     p' = p \<and> a' = a
     \<or> shrunk p p' \<and> accepted bounds inputs p'
       \<and> min keep (bt_get0 (ps_collateral p) primary) \<le> bt_get0 (ps_collateral p') primary
       \<and> (\<exists>more. more \<noteq> [] \<and> withdrawals more \<and> a' = a @ more))"

lemma withdrawn_refl [simp]: "withdrawn b inputs i k st st"
  by (cases st) (simp add: withdrawn_def)

lemma shrunk_trans: "shrunk p q \<Longrightarrow> shrunk q r \<Longrightarrow> shrunk p r"
  unfolding shrunk_def by (metis order_trans)

lemma withdrawals_append: "withdrawals (as @ bs) \<longleftrightarrow> withdrawals as \<and> withdrawals bs"
  by (auto simp: withdrawals_def)

lemma withdrawn_trans:
  assumes "withdrawn b inputs i k st st1" "withdrawn b inputs i k st1 st2"
  shows "withdrawn b inputs i k st st2"
proof -
  obtain p a p1 a1 p2 a2 where st: "st = (p, a)" "st1 = (p1, a1)" "st2 = (p2, a2)" by (metis surj_pair)
  show ?thesis
  proof (cases "st1 = st \<or> st2 = st1")
    case False
    then obtain m1 m2 where "shrunk p p1" "shrunk p1 p2" and acc: "accepted b inputs p2"
      and keep: "min k (bt_get0 (ps_collateral p) i) \<le> bt_get0 (ps_collateral p1) i"
      "min k (bt_get0 (ps_collateral p1) i) \<le> bt_get0 (ps_collateral p2) i"
      and m: "m1 \<noteq> []" "withdrawals m1" "withdrawals m2" "a1 = a @ m1" "a2 = a1 @ m2"
      using assms unfolding st withdrawn_def prod.case prod.inject by blast
    then have "shrunk p p2" using shrunk_trans by blast
    moreover have "min k (bt_get0 (ps_collateral p) i) \<le> bt_get0 (ps_collateral p2) i" using keep by linarith
    moreover have "\<exists>more. more \<noteq> [] \<and> withdrawals more \<and> a2 = a @ more"
      using m by (intro exI [of _ "m1 @ m2"]) (simp add: withdrawals_append)
    ultimately show ?thesis using acc unfolding st withdrawn_def prod.case by blast
  qed (use assms in auto)
qed

lemma withdrawn_ok: "withdrawn b inputs i k st st' \<Longrightarrow> positions_ok (fst st) \<Longrightarrow> positions_ok (fst st')"
  by (cases st; cases st') (auto simp: withdrawn_def shrunk_def positions_ok_nonneg)

lemma to_b_token_up_facts:
  assumes "to_b_token_up r a = Ok t" "0 \<le> rd_b_rate (rs_data r)"
  shows "0 < rd_b_rate (rs_data r)" and "t = cdiv (a * SCALAR_12) (rd_b_rate (rs_data r))"
proof -
  show pos: "0 < rd_b_rate (rs_data r)"
    using assms by (cases "rd_b_rate (rs_data r) = 0") (auto simp: to_b_token_up_def div_ceil_def mul_div_def)
  show "t = cdiv (a * SCALAR_12) (rd_b_rate (rs_data r))"
    using assms(1) pos by (simp add: to_b_token_up_def fixed_Ok_iff)
qed

lemma burn_bound:
  assumes "to_asset_from_b_token r g = Ok x" "amount \<le> x" "to_b_token_up r amount = Ok t" "0 \<le> rd_b_rate (rs_data r)"
  shows "t \<le> g"
proof -
  note t = to_b_token_up_facts [OF assms(3,4)]
  have "x * SCALAR_12 \<le> g * rd_b_rate (rs_data r)"
    using assms(1) fdiv_bounds [of SCALAR_12] by (simp add: to_asset_from_b_token_def fixed_Ok_iff)
  moreover have "amount * SCALAR_12 \<le> x * SCALAR_12" using assms(2) by (simp add: mult_right_mono)
  ultimately show ?thesis unfolding t(2) cdiv_le_iff [OF t(1)] by linarith
qed

lemma after_withdrawal_shrunk:
  assumes "after_withdrawal inputs p i amount = Ok p'" "reserves_ok (ui_reserves inputs)" "positions_ok p" "0 < amount"
  shows "shrunk p p'"
    and "\<exists>r t. bt_get (ui_reserves inputs) i = Some r \<and> to_b_token_up r amount = Ok t
      \<and> bt_get0 (ps_collateral p') j = bt_get0 (ps_collateral p) j
          - (if j = i then min t (bt_get0 (ps_collateral p) i) else 0)"
proof -
  let ?held = "bt_get0 (ps_collateral p) i"
  from assms(1) obtain r t where r: "bt_get (ui_reserves inputs) i = Some r" and t: "to_b_token_up r amount = Ok t"
    and p': "p' = p\<lparr>ps_collateral := set_left i (?held - min t ?held) (ps_collateral p)\<rparr>"
    by (auto simp: after_withdrawal_def Let_def)
  have "0 \<le> rd_b_rate (rs_data r)" using reserves_okD [OF assms(2) r] by (simp add: reserve_ok_def)
  then have "0 \<le> t" using to_b_token_up_facts [OF t] assms(4) by (simp add: cdiv_nonneg)
  moreover have get: "bt_get0 (ps_collateral p') k = (if k = i then ?held - min t ?held else bt_get0 (ps_collateral p) k)" for k
    by (simp add: p' set_left_get0)
  moreover have "0 \<le> ?held" using assms(3) by (simp add: positions_ok_nonneg nonneg_get0)
  ultimately show "shrunk p p'" using assms(3)
    unfolding shrunk_def by (auto simp: positions_ok_nonneg p')
  show "\<exists>r t. bt_get (ui_reserves inputs) i = Some r \<and> to_b_token_up r amount = Ok t
      \<and> bt_get0 (ps_collateral p') j = bt_get0 (ps_collateral p) j - (if j = i then min t ?held else 0)"
    using r t get by auto
qed

text \<open>The primary reserve and the b-tokens its floor asks for.\<close>

definition primary_at :: "unwind_terms \<Rightarrow> unwind_inputs \<Rightarrow> nat \<Rightarrow> reserve \<Rightarrow> int \<Rightarrow> bool" where
  "primary_at terms inputs i r keep \<longleftrightarrow> primary_index terms inputs = Ok i
     \<and> bt_get (ui_reserves inputs) i = Some r \<and> to_b_token_up r (max (ut_min_primary_collateral terms) 0) = Ok keep"

text \<open>An amount of the primary whose burn leaves its floor.\<close>

definition within_floor :: "nat \<Rightarrow> reserve \<Rightarrow> int \<Rightarrow> positions \<Rightarrow> nat \<Rightarrow> int \<Rightarrow> bool" where
  "within_floor primary r keep p i amount \<longleftrightarrow>
     (i = primary \<longrightarrow> (\<exists>g x. to_asset_from_b_token r g = Ok x \<and> amount \<le> x
        \<and> g \<le> bt_get0 (ps_collateral p) primary - keep))"

lemma after_withdrawal_keeps:
  assumes "after_withdrawal inputs p i amount = Ok p'" "unwind_inputs_ok inputs" "positions_ok p" "0 < amount"
    and "primary_at terms inputs primary r keep" "within_floor primary r keep p i amount"
  shows "shrunk p p' \<and> min keep (bt_get0 (ps_collateral p) primary) \<le> bt_get0 (ps_collateral p') primary"
proof -
  have ok: "reserves_ok (ui_reserves inputs)" using assms(2) by (simp add: unwind_inputs_ok_def)
  note aw = after_withdrawal_shrunk [OF assms(1) ok assms(3,4)]
  show ?thesis
  proof (cases "i = primary")
    case False
    then show ?thesis using aw(1) aw(2) [of primary] by auto
  next
    case True
    from aw(2) [of primary] True assms(5) obtain t where t: "to_b_token_up r amount = Ok t"
      and left: "bt_get0 (ps_collateral p') primary
        = bt_get0 (ps_collateral p) primary - min t (bt_get0 (ps_collateral p) primary)"
      by (auto simp: primary_at_def)
    from assms(6) True obtain g x where "to_asset_from_b_token r g = Ok x" "amount \<le> x"
      "g \<le> bt_get0 (ps_collateral p) primary - keep" by (auto simp: within_floor_def)
    moreover have "0 \<le> rd_b_rate (rs_data r)"
      using assms(5) reserves_okD [OF ok] by (auto simp: primary_at_def reserve_ok_def)
    ultimately show ?thesis using burn_bound [OF _ _ t] left aw(1) by fastforce
  qed
qed

lemma take_withdrawal_withdrawn:
  assumes "take_withdrawal bounds inputs i amount (p, a) = Ok (taken, st')" "unwind_inputs_ok inputs" "positions_ok p"
    and "primary_at terms inputs primary r keep" "within_floor primary r keep p i amount"
  shows "withdrawn bounds inputs primary keep (p, a) st' \<and> (\<not> taken \<longrightarrow> st' = (p, a))"
proof (cases "amount \<le> 0 \<or> \<not> taken")
  case True
  then show ?thesis using assms(1) by (auto simp: take_withdrawal_def split: if_splits)
next
  case False
  then obtain p' data asset where aw: "after_withdrawal inputs p i amount = Ok p'"
    and acc: "unwind_project inputs p' = Ok data" "accepts bounds data = Ok True"
    and st': "st' = (p', a @ [UnwindWithdraw asset amount])"
    using assms(1) by (auto simp: take_withdrawal_def split: if_splits)
  from after_withdrawal_keeps [OF aw assms(2,3) _ assms(4,5)] False acc show ?thesis
    by (auto simp: st' withdrawn_def accepted_def withdrawals_def)
qed

lemma backoff_withdrawn:
  assumes "backoff n terms bounds inputs i is_primary amount (p, a) = Ok st'" "unwind_inputs_ok inputs" "positions_ok p"
    and "primary_at terms inputs primary r keep" "within_floor primary r keep p i amount"
  shows "withdrawn bounds inputs primary keep (p, a) st'"
  using assms(1,5)
proof (induction n arbitrary: amount)
  case (Suc n)
  show ?case
  proof (cases "st' = (p, a)")
    case False
    from Suc.prems(1) obtain small where pos: "0 < amount"
      and small: "(if is_primary then dust terms amount else Ok False) = Ok small"
      using False by (auto split: if_splits)
    then have c: "\<not> amount \<le> 0" by simp
    have ns: "\<not> small" using Suc.prems(1) False small c by auto
    from Suc.prems(1) [unfolded backoff.simps if_not_P [OF c] small rbind_Ok if_not_P [OF ns]]
    obtain taken st1 where tw: "take_withdrawal bounds inputs i amount (p, a) = Ok (taken, st1)"
      and rest: "(if taken then Ok st1 else
            rbind (mul_ceil amount BACKOFF_BPS BPS) (\<lambda>cut.
            rbind (ok_or Overflow (checked_sub amount cut)) (\<lambda>amount.
            backoff n terms bounds inputs i is_primary amount st1))) = Ok st'"
      by (rule rbind_pairE)
    note w = take_withdrawal_withdrawn [OF tw assms(2,3,4) Suc.prems(2)]
    show ?thesis
    proof (cases taken)
      case True
      with rest w show ?thesis by simp
    next
      case False
      with rest w obtain cut where cut: "mul_ceil amount BACKOFF_BPS BPS = Ok cut"
        and b: "backoff n terms bounds inputs i is_primary (amount - cut) (p, a) = Ok st'" by auto
      have "0 \<le> cut" using mul_ceil_nonneg [OF cut] pos by (simp add: BACKOFF_BPS_def BPS_def)
      then have "within_floor primary r keep p i (amount - cut)"
        using Suc.prems(2) unfolding within_floor_def by fastforce
      with Suc.IH [OF b] show ?thesis by blast
    qed
  qed simp
qed simp

lemma partial_withdrawn:
  assumes "partial_withdrawal terms bounds inputs data i (p, a) = Ok st'" "unwind_inputs_ok inputs" "positions_ok p"
    and "primary_at terms inputs primary r keep"
  shows "withdrawn bounds inputs primary keep (p, a) st'"
proof (cases "st' = (p, a)")
  case False
  let ?held = "bt_get0 (ps_collateral p) i"
  from assms(4) have prim: "primary_index terms inputs = Ok primary" by (simp add: primary_at_def)
  from assms(1) [unfolded partial_withdrawal_def prod.case Let_def] obtain ri where
    ri: "reserve_at inputs i = Ok ri" and b1: "(if rc_c_factor (rs_config ri) = 0 then Ok (p, a)
     else if ?held \<le> 0 then Ok (p, a)
       else rbind (partial_goes bounds inputs data ri ?held) (\<lambda>goes.
         rbind (primary_index terms inputs) (\<lambda>primary.
         rbind (if i = primary then
                  rbind (to_b_token_up ri (max (ut_min_primary_collateral terms) 0)) (\<lambda>floor.
                  rbind (ok_or Overflow (checked_sub ?held floor)) (\<lambda>above. Ok (min goes above)))
                else Ok goes) (\<lambda>goes.
         if goes \<le> 0 then Ok (p, a)
         else rbind (to_asset_from_b_token ri goes) (\<lambda>amount.
           backoff (Suc BACKOFF_ROUNDS) terms bounds inputs i (i = primary) amount (p, a)))))) = Ok st'"
    by (rule rbindE)
  have c: "\<not> rc_c_factor (rs_config ri) = 0" using b1 False by (metis sum.inject(2))
  have h: "\<not> ?held \<le> 0" using b1 [unfolded if_not_P [OF c]] False by (metis sum.inject(2))
  from b1 [unfolded if_not_P [OF c] if_not_P [OF h] prim rbind_Ok] obtain goes goes' where
    g: "(if i = primary then
           rbind (to_b_token_up ri (max (ut_min_primary_collateral terms) 0)) (\<lambda>floor.
           rbind (ok_or Overflow (checked_sub ?held floor)) (\<lambda>above. Ok (min goes above)))
         else Ok goes) = Ok goes'"
    and b2: "(if goes' \<le> 0 then Ok (p, a) else rbind (to_asset_from_b_token ri goes') (\<lambda>amount.
           backoff (Suc BACKOFF_ROUNDS) terms bounds inputs i (i = primary) amount (p, a))) = Ok st'"
    by (elim rbindE) (rule that)
  have g0: "\<not> goes' \<le> 0" using b2 False by (metis sum.inject(2))
  from b2 [unfolded if_not_P [OF g0]] obtain amount where am: "to_asset_from_b_token ri goes' = Ok amount"
    and b: "backoff (Suc BACKOFF_ROUNDS) terms bounds inputs i (i = primary) amount (p, a) = Ok st'"
    by (rule rbindE)
  have "within_floor primary r keep p i amount"
    unfolding within_floor_def
  proof (rule impI, rule exI [of _ goes'], rule exI [of _ amount])
    assume "i = primary"
    with g am ri assms(4) show "to_asset_from_b_token r goes' = Ok amount \<and> amount \<le> amount
        \<and> goes' \<le> bt_get0 (ps_collateral p) primary - keep" by (auto simp: primary_at_def)
  qed
  from backoff_withdrawn [OF b assms(2-4) this] show ?thesis .
qed simp

lemma primary_excess_within:
  assumes "primary_excess terms inputs p = Ok x" "0 < x" "primary_at terms inputs primary r keep"
  shows "within_floor primary r keep p primary x"
  using assms by (auto simp: primary_excess_def primary_at_def within_floor_def Let_def split: if_splits)

lemma candidate_withdrawn:
  assumes "withdraw_candidate terms bounds inputs data i (p, a) = Ok st'" "unwind_inputs_ok inputs" "positions_ok p"
    and "primary_at terms inputs primary r keep"
  shows "withdrawn bounds inputs primary keep (p, a) st'"
proof (cases "i = primary")
  case True
  have prim: "primary_index terms inputs = Ok primary" using assms(4) by (simp add: primary_at_def)
  show ?thesis
  proof (cases "st' = (p, a)")
    case False
    from assms(1) [unfolded withdraw_candidate_def prod.case prim rbind_Ok if_P [OF True]]
    obtain x stop where x: "primary_excess terms inputs p = Ok x"
      and stop: "(if x \<le> 0 then Ok True else dust terms x) = Ok stop"
      and go: "(if stop then Ok (p, a)
         else rbind (take_withdrawal bounds inputs i x (p, a)) (\<lambda>(taken, st).
           if taken then Ok st else partial_withdrawal terms bounds inputs data i st)) = Ok st'"
      by (elim rbindE) (rule that)
    have ns: "\<not> stop" using go False by auto
    then have pos: "0 < x" using stop by (auto split: if_splits)
    from go [unfolded if_not_P [OF ns]] obtain taken st1 where
      tw: "take_withdrawal bounds inputs i x (p, a) = Ok (taken, st1)"
      and rest: "(if taken then Ok st1 else partial_withdrawal terms bounds inputs data i st1) = Ok st'"
      by (rule rbind_pairE)
    note w = take_withdrawal_withdrawn [OF tw assms(2-4)] primary_excess_within [OF x pos assms(4)]
    with rest True show ?thesis using partial_withdrawn [OF _ assms(2-4)] by (auto split: if_splits)
  qed simp
next
  case False
  let ?whole = "p\<lparr>ps_collateral := bt_remove i (ps_collateral p)\<rparr>"
  have prim: "primary_index terms inputs = Ok primary" using assms(4) by (simp add: primary_at_def)
  from assms(1) False prim obtain asset wd ok where wd: "unwind_project inputs ?whole = Ok wd" "accepts bounds wd = Ok ok"
    and rest: "(if ok then Ok (?whole, a @ [UnwindWithdrawAll asset])
       else partial_withdrawal terms bounds inputs data i (p, a)) = Ok st'"
    unfolding withdraw_candidate_def prod.case Let_def by (auto simp del: rmap_eq_Ok split: if_splits)
  show ?thesis
  proof (cases ok)
    case True
    have "shrunk p ?whole" using assms(3) by (auto simp: shrunk_def positions_ok_nonneg nonneg_get0)
    with True rest wd False show ?thesis
      by (auto simp: withdrawn_def accepted_def withdrawals_def)
  next
    case False
    with rest partial_withdrawn [OF _ assms(2-4)] show ?thesis by simp
  qed
qed

lemma floor_walk_withdrawn:
  assumes "floor_walk terms bounds inputs order st = Ok st'" "unwind_inputs_ok inputs" "positions_ok (fst st)"
    and "primary_at terms inputs primary r keep"
  shows "withdrawn bounds inputs primary keep st st'"
  using assms(1,3)
proof (induction order arbitrary: st)
  case (Cons i order)
  show ?case
  proof (cases "st' = st")
    case False
    with Cons.prems(1) obtain data st1 where c: "withdraw_candidate terms bounds inputs data i st = Ok st1"
      and rest: "floor_walk terms bounds inputs order st1 = Ok st'" by (auto split: if_splits)
    have w: "withdrawn bounds inputs primary keep st st1"
      using candidate_withdrawn [of terms bounds inputs data i "fst st" "snd st"] c assms(2,4) Cons.prems(2) by simp
    from withdrawn_trans [OF w] Cons.IH [OF rest] withdrawn_ok [OF w Cons.prems(2)] show ?thesis by blast
  qed simp
qed simp

section \<open>The free withdrawal\<close>

lemma free_loop:
  assumes "rfold (free_other inputs primary) ks (p, a) = Ok (p', a')" "positions_ok p"
  shows "ps_liabilities p' = ps_liabilities p \<and> ps_supply p' = ps_supply p \<and> nonneg (ps_collateral p')
    \<and> (\<forall>j. bt_get (ps_collateral p') j = (if j \<in> set ks \<and> j \<noteq> primary then None else bt_get (ps_collateral p) j))
    \<and> (\<exists>more. withdrawals more \<and> a' = a @ more)"
  using assms
proof (induction ks arbitrary: p a)
  case Nil
  then show ?case by (auto simp: positions_ok_nonneg withdrawals_def)
next
  case (Cons k ks)
  from Cons.prems(1) obtain p1 a1 where s: "free_other inputs primary k (p, a) = Ok (p1, a1)"
    and rest: "rfold (free_other inputs primary) ks (p1, a1) = Ok (p', a')" by auto
  from s have p1: "p1 = (if k = primary then p else p\<lparr>ps_collateral := bt_remove k (ps_collateral p)\<rparr>)"
    and a1: "\<exists>more. withdrawals more \<and> a1 = a @ more"
    by (auto simp: free_other_def Let_def withdrawals_def split: if_splits)
  then have ok: "positions_ok p1" using Cons.prems(2) by (simp add: positions_ok_nonneg)
  note IH = Cons.IH [OF rest ok]
  have "\<exists>more. withdrawals more \<and> a' = a @ more" using IH a1 withdrawals_append by (metis append.assoc)
  moreover have "bt_get (ps_collateral p') j = (if j \<in> set (k # ks) \<and> j \<noteq> primary then None else bt_get (ps_collateral p) j)" for j
    using IH p1 by auto
  ultimately show ?case using IH p1 by simp
qed

lemma withdraw_free_outcome:
  assumes "withdraw_free terms inputs (p, a) = Ok (p', a')" "unwind_inputs_ok inputs" "positions_ok p"
    and "primary_at terms inputs primary r keep"
  shows "ps_liabilities p' = ps_liabilities p \<and> (\<forall>j. j \<noteq> primary \<longrightarrow> bt_get (ps_collateral p') j = None)
    \<and> min keep (bt_get0 (ps_collateral p) primary) \<le> bt_get0 (ps_collateral p') primary
    \<and> (\<exists>more. withdrawals more \<and> a' = a @ more)"
proof -
  have prim: "primary_index terms inputs = Ok primary" and ra: "reserve_at inputs primary = Ok r"
    using assms(4) by (simp_all add: primary_at_def)
  from assms(1) [unfolded withdraw_free_def prim rbind_Ok fst_conv] obtain p1 a1 where
    loop: "rfold (free_other inputs primary) (bt_keys (ps_collateral p)) (p, a) = Ok (p1, a1)"
    and body: "(let held = bt_get0 (ps_collateral p1) primary in
     if held \<le> 0 then Ok (p1, a1)
     else
       rbind (reserve_at inputs primary) (\<lambda>reserve.
       if ut_min_primary_collateral terms \<le> 0 then
         Ok (p1\<lparr>ps_collateral := bt_remove primary (ps_collateral p1)\<rparr>,
             a1 @ [UnwindWithdrawAll (rs_asset reserve)])
       else
         rbind (primary_excess terms inputs p1) (\<lambda>excess.
         rbind (if excess \<le> 0 then Ok True else dust terms excess) (\<lambda>stop.
         if stop then Ok (p1, a1)
         else
           rbind (after_withdrawal inputs p1 primary excess) (\<lambda>positions.
           Ok (positions, a1 @ [UnwindWithdraw (rs_asset reserve) excess])))))) = Ok (p', a')"
    by (rule rbind_pairE)
  note fl = free_loop [OF loop assms(3)]
  have ok1: "positions_ok p1" using fl assms(3) by (simp add: positions_ok_nonneg)
  have others: "bt_get (ps_collateral p1) j = None" if "j \<noteq> primary" for j
    using fl that by (auto simp: bt_get_eq_None_iff)
  have same: "bt_get0 (ps_collateral p1) primary = bt_get0 (ps_collateral p) primary"
    using fl by (simp add: bt_get0_def)
  have app: "\<exists>more. withdrawals more \<and> a1 @ [x] = a @ more" if "\<And>k. unwind_spend x k = 0" for x
    using fl that by (auto simp: withdrawals_def)
  consider (same) "p' = p1" "a' = a1"
    | (all) "ut_min_primary_collateral terms \<le> 0" "p' = p1\<lparr>ps_collateral := bt_remove primary (ps_collateral p1)\<rparr>"
        "a' = a1 @ [UnwindWithdrawAll (rs_asset r)]"
    | (part) x where "primary_excess terms inputs p1 = Ok x" "0 < x" "after_withdrawal inputs p1 primary x = Ok p'"
        "a' = a1 @ [UnwindWithdraw (rs_asset r) x]"
    using body unfolding Let_def ra rbind_Ok by (auto split: if_splits)
  then show ?thesis
  proof cases
    case same
    with fl others show ?thesis using \<open>bt_get0 (ps_collateral p1) primary = _\<close> by auto
  next
    case all
    have "0 \<le> rd_b_rate (rs_data r)"
      using assms(2,4) reserves_okD by (fastforce simp: primary_at_def unwind_inputs_ok_def reserve_ok_def)
    then have "keep = 0" using assms(4) all(1) to_b_token_up_facts(2) [of r 0 keep]
      by (simp add: primary_at_def max_def cdiv_def)
    with all fl others app [of "UnwindWithdrawAll (rs_asset r)"] show ?thesis by auto
  next
    case (part x)
    note k = after_withdrawal_keeps [OF part(3) assms(2) ok1 part(2) assms(4)
        primary_excess_within [OF part(1,2) assms(4)]]
    have "bt_get (ps_collateral p') j = None" if "j \<noteq> primary" for j
      using part(3) others [OF that] that by (auto simp: after_withdrawal_def Let_def set_left_get)
    moreover have "ps_liabilities p' = ps_liabilities p" using k fl by (simp add: shrunk_def)
    ultimately show ?thesis
      using k part(4) app [of "UnwindWithdraw (rs_asset r) x"] \<open>bt_get0 (ps_collateral p1) primary = _\<close> by auto
  qed
qed

section \<open>A whole pass\<close>

abbreviation unwind_start :: "unwind_inputs \<Rightarrow> unwind_state" where
  "unwind_start inputs \<equiv> \<lparr>us_positions = ui_positions inputs, us_wallet = ui_wallet inputs,
     us_actions = [], us_spend = []\<rparr>"

lemma plan_unwind_parts:
  assumes "plan_unwind terms inputs = Ok pl"
  obtains st rem p' where "unwind_repay inputs (unwind_start inputs) = Ok st"
    "remaining_assets inputs (us_positions st) = Ok rem"
    "if ps_liabilities (us_positions st) = []
     then withdraw_free terms inputs (us_positions st, us_actions st) = Ok (p', up_actions pl) \<and> up_projected_health pl = None
     else withdraw_within_floor terms inputs (us_positions st, us_actions st) = Ok ((p', up_actions pl), up_projected_health pl)"
    "up_spend pl = us_spend st" "up_remaining_liabilities pl = rem"
proof -
  from assms [unfolded plan_unwind_def] obtain st rem fin where
    st: "unwind_repay inputs (unwind_start inputs) = Ok st"
    and rem: "remaining_assets inputs (us_positions st) = Ok rem"
    and branch: "(if ps_liabilities (us_positions st) = [] then
              rbind (withdraw_free terms inputs (us_positions st, us_actions st)) (\<lambda>fin. Ok (fin, None))
            else withdraw_within_floor terms inputs (us_positions st, us_actions st)) = Ok fin"
    and pl: "(case fin of ((_, actions), projected_health) \<Rightarrow>
     Ok \<lparr>up_actions = actions, up_spend = us_spend st,
         up_remaining_liabilities = rem, up_projected_health = projected_health\<rparr>) = (Ok pl :: unwind_plan math_result)"
    by (elim rbindE, goal_cases) (rule that, simp_all add: case_prod_unfold)
  obtain p' acts hf where d: "fin = ((p', acts), hf)" by (cases fin) auto
  from pl have pl': "pl = \<lparr>up_actions = acts, up_spend = us_spend st,
         up_remaining_liabilities = rem, up_projected_health = hf\<rparr>" by (simp add: d)
  show thesis
  proof (rule that [OF st rem])
    show "if ps_liabilities (us_positions st) = []
     then withdraw_free terms inputs (us_positions st, us_actions st) = Ok (p', up_actions pl) \<and> up_projected_health pl = None
     else withdraw_within_floor terms inputs (us_positions st, us_actions st) = Ok ((p', up_actions pl), up_projected_health pl)"
    proof (cases "ps_liabilities (us_positions st) = []")
      case True
      with branch have "rbind (withdraw_free terms inputs (us_positions st, us_actions st)) (\<lambda>fin. Ok (fin, None)) = Ok fin"
        by simp
      then obtain x where "withdraw_free terms inputs (us_positions st, us_actions st) = Ok x" "Ok (x, None) = (Ok fin :: (unwinding \<times> int option) math_result)"
        by (rule rbindE)
      with True show ?thesis by (simp add: d pl')
    next
      case False
      with branch show ?thesis by (simp add: d pl')
    qed
  qed (simp_all add: pl')
qed

lemma unwind_repay_outcome:
  assumes "unwind_repay inputs (unwind_start inputs) = Ok st" "unwind_inputs_ok inputs"
  shows "positions_ok (us_positions st)" "ps_collateral (us_positions st) = ps_collateral (ui_positions inputs)"
    "balanced (ui_wallet inputs) (us_wallet st) (us_spend st) (repaid_by (us_actions st))"
    "debts_followed inputs (ps_liabilities (ui_positions inputs)) (bt_keys (ps_liabilities (ui_positions inputs))) st"
proof -
  let ?l = "ps_liabilities (ui_positions inputs)"
  have loop: "rfold (repay_debt inputs) (bt_keys ?l) (unwind_start inputs) = Ok st"
    using assms(1) by (simp add: unwind_repay_def)
  have "positions_ok (us_positions st) \<and> ps_collateral (us_positions st) = ps_collateral (ui_positions inputs)"
    using loop by (rule rfold_invariant [where I = "\<lambda>s. positions_ok (us_positions s)
        \<and> ps_collateral (us_positions s) = ps_collateral (ui_positions inputs)"])
      (use assms(2) repay_debt_positions in \<open>auto simp: unwind_inputs_ok_def\<close>)
  then show "positions_ok (us_positions st)" "ps_collateral (us_positions st) = ps_collateral (ui_positions inputs)"
    by blast+
  show "balanced (ui_wallet inputs) (us_wallet st) (us_spend st) (repaid_by (us_actions st))"
    using loop by (rule rfold_invariant [where I = "\<lambda>s. balanced (ui_wallet inputs) (us_wallet s) (us_spend s) (repaid_by (us_actions s))"])
      (use assms(2) repay_debt_books in \<open>auto simp: unwind_inputs_ok_def intro: balanced_start\<close>)
  have dist: "distinct (bt_keys ?l)"
    using assms(2) by (simp add: unwind_inputs_ok_def positions_ok_def bt_wf_distinct)
  show "debts_followed inputs ?l (bt_keys ?l) st"
    using loop
  proof (rule rfold_prefix_invariant [where I = "debts_followed inputs ?l"])
    show "debts_followed inputs ?l [] (unwind_start inputs)" by (simp add: debts_followed_def)
    fix ys x zs s t
    assume "bt_keys ?l = ys @ x # zs" "debts_followed inputs ?l ys s" "repay_debt inputs x s = Ok t"
    with dist show "debts_followed inputs ?l (ys @ [x]) t" by (auto intro: repay_debt_followed)
  qed
qed

lemma withdraw_within_floor_outcome:
  assumes "withdraw_within_floor terms inputs (p, a) = Ok ((p', a'), hf)" "unwind_inputs_ok inputs" "positions_ok p"
    and "primary_at terms inputs primary r keep"
  shows "\<exists>bounds data. bounds_of terms = Ok bounds \<and> withdrawn bounds inputs primary keep (p, a) (p', a')
    \<and> unwind_project inputs p' = Ok data \<and> health_factor data = Ok hf"
proof -
  from assms(1) obtain bounds order data where b: "bounds_of terms = Ok bounds"
    and w: "floor_walk terms bounds inputs order (p, a) = Ok (p', a')"
    and d: "unwind_project inputs p' = Ok data" "health_factor data = Ok hf"
    by (auto simp: withdraw_within_floor_def)
  from floor_walk_withdrawn [OF w assms(2) _ assms(4)] assms(3) b d show ?thesis by auto
qed

lemma repaid_by_withdrawals: "withdrawals ws \<Longrightarrow> repaid_by (as @ ws) k = repaid_by as k"
  by (simp add: withdrawals_def repaid_by_def) (induction ws; simp)

text \<open>Whichever of the two withdrawal steps runs, it only appends withdrawals.\<close>

lemma unwind_actions:
  assumes "plan_unwind terms inputs = Ok pl" "unwind_inputs_ok inputs" "primary_at terms inputs primary r keep"
  obtains st p' ws where "unwind_repay inputs (unwind_start inputs) = Ok st" "up_spend pl = us_spend st"
    "remaining_assets inputs (us_positions st) = Ok (up_remaining_liabilities pl)"
    "withdrawals ws" "up_actions pl = us_actions st @ ws"
    "ps_liabilities p' = ps_liabilities (us_positions st)"
    "min keep (bt_get0 (ps_collateral (ui_positions inputs)) primary) \<le> bt_get0 (ps_collateral p') primary"
    "ps_liabilities (us_positions st) = [] \<Longrightarrow>
       (\<forall>j. j \<noteq> primary \<longrightarrow> bt_get (ps_collateral p') j = None) \<and> up_projected_health pl = None"
    "ps_liabilities (us_positions st) \<noteq> [] \<Longrightarrow>
       \<exists>bounds data. bounds_of terms = Ok bounds \<and> unwind_project inputs p' = Ok data
         \<and> health_factor data = Ok (up_projected_health pl)
         \<and> (ws = [] \<and> p' = us_positions st \<or> accepts bounds data = Ok True)"
  using assms(1)
proof (rule plan_unwind_parts)
  fix st rem p'
  assume st: "unwind_repay inputs (unwind_start inputs) = Ok st"
    and rem: "remaining_assets inputs (us_positions st) = Ok rem"
    and branch: "if ps_liabilities (us_positions st) = []
     then withdraw_free terms inputs (us_positions st, us_actions st) = Ok (p', up_actions pl) \<and> up_projected_health pl = None
     else withdraw_within_floor terms inputs (us_positions st, us_actions st) = Ok ((p', up_actions pl), up_projected_health pl)"
    and sp: "up_spend pl = us_spend st" "up_remaining_liabilities pl = rem"
  note ro = unwind_repay_outcome [OF st assms(2)]
  have remp: "remaining_assets inputs (us_positions st) = Ok (up_remaining_liabilities pl)" using rem sp by simp
  show thesis
  proof (cases "ps_liabilities (us_positions st) = []")
    case True
    with branch have wf: "withdraw_free terms inputs (us_positions st, us_actions st) = Ok (p', up_actions pl)"
      and ph: "up_projected_health pl = None" by simp_all
    from withdraw_free_outcome [OF wf assms(2) ro(1) assms(3)] obtain ws where
      "withdrawals ws" "up_actions pl = us_actions st @ ws" by blast
    then show ?thesis using that [OF st sp(1) remp, of ws p'] withdraw_free_outcome [OF wf assms(2) ro(1) assms(3)]
        True ph ro(2) by simp
  next
    case False
    with branch have ww: "withdraw_within_floor terms inputs (us_positions st, us_actions st)
        = Ok ((p', up_actions pl), up_projected_health pl)" by simp
    from withdraw_within_floor_outcome [OF this assms(2) ro(1) assms(3)] obtain bounds data where
      b: "bounds_of terms = Ok bounds" and w: "withdrawn bounds inputs primary keep (us_positions st, us_actions st) (p', up_actions pl)"
      and d: "unwind_project inputs p' = Ok data" "health_factor data = Ok (up_projected_health pl)" by blast
    from w consider "p' = us_positions st" "up_actions pl = us_actions st"
      | ws where "shrunk (us_positions st) p'" "accepts bounds data = Ok True" "withdrawals ws"
          "up_actions pl = us_actions st @ ws"
          "min keep (bt_get0 (ps_collateral (us_positions st)) primary) \<le> bt_get0 (ps_collateral p') primary"
      using d(1) unfolding withdrawn_def prod.case accepted_def by auto
    then show ?thesis
    proof cases
      case 1
      then show ?thesis using that [OF st sp(1) remp, of "[]" p'] False b d ro(2) by (simp add: withdrawals_def)
    next
      case (2 ws)
      then show ?thesis using that [OF st sp(1) remp, of ws p'] False b d ro(2) by (simp add: shrunk_def)
    qed
  qed
qed

lemma remaining_assets_rfold:
  "rfold (\<lambda>index acc. rbind (reserve_at inputs index) (\<lambda>reserve. Ok (acc @ [rs_asset reserve]))) ks acc = Ok rem
   \<Longrightarrow> set rem = set acc \<union> {rs_asset r |i r. i \<in> set ks \<and> bt_get (ui_reserves inputs) i = Some r}
       \<and> (\<forall>i \<in> set ks. bt_get (ui_reserves inputs) i \<noteq> None)"
proof (induction ks arbitrary: acc)
  case (Cons k ks)
  from Cons.prems obtain r where r: "bt_get (ui_reserves inputs) k = Some r"
    and rest: "rfold (\<lambda>index acc. rbind (reserve_at inputs index) (\<lambda>reserve. Ok (acc @ [rs_asset reserve]))) ks
       (acc @ [rs_asset r]) = Ok rem"
    by auto
  from Cons.IH [OF rest] have ks: "set rem = set acc \<union> {rs_asset r} \<union>
      {rs_asset r |i r. i \<in> set ks \<and> bt_get (ui_reserves inputs) i = Some r}"
    and "\<forall>i \<in> set ks. bt_get (ui_reserves inputs) i \<noteq> None" by auto
  moreover have "{rs_asset r |i r. i \<in> set (k # ks) \<and> bt_get (ui_reserves inputs) i = Some r} =
      {rs_asset r} \<union> {rs_asset r |i r. i \<in> set ks \<and> bt_get (ui_reserves inputs) i = Some r}"
    using r by auto
  ultimately show ?case using r by (simp add: Un_assoc)
qed simp

lemma remaining_assets_set:
  assumes "remaining_assets inputs p = Ok rem"
  shows "set rem = {rs_asset r |i r. bt_get (ps_liabilities p) i \<noteq> None \<and> bt_get (ui_reserves inputs) i = Some r}"
  using remaining_assets_rfold [OF assms [unfolded remaining_assets_def]] by (simp add: bt_get_eq_None_iff)

section \<open>Properties\<close>

definition sample_unwind_terms :: unwind_terms where
  "sample_unwind_terms = \<lparr>ut_primary_asset = ''XLM'', ut_min_primary_collateral = 100000000,
     ut_min_health_factor = 11000000, ut_min_collateral = 0\<rparr>"

definition sample_unwind :: "int \<Rightarrow> unwind_inputs" where
  "sample_unwind held = \<lparr>ui_reserves = sample_reserves, ui_asset_index = [(''USDC'', 1), (''XLM'', 0)],
     ui_prices = sample_prices, ui_positions = sample_positions, ui_wallet = [(''USDC'', held)]\<rparr>"

lemmas sample_unwind_defs = sample_unwind_terms_def sample_unwind_def sample_pool_defs

lemma sample_unwind_ok: "unwind_inputs_ok (sample_unwind held)"
  using sample_reserves_ok sample_prices_ok sample_positions_ok by (simp add: unwind_inputs_ok_def sample_unwind_def)

lemma sample_unwind_plan:
  "plan_unwind sample_unwind_terms (sample_unwind 10000000) = Ok \<lparr>
     up_actions = [UnwindRepay ''USDC'' 10000000, UnwindWithdraw ''XLM'' 417592565],
     up_spend = [(''USDC'', 10000000)], up_remaining_liabilities = [''USDC''],
     up_projected_health = Some 11055000\<rparr>"
  by (simp add: sample_unwind_defs eval_simps Let_def less_char_def
      cong: rbind_weak_cong del: rbind_eq_Ok)

text \<open>
  C21: the repays of a plan are covered: in every asset, the plan's spend is exactly what its
  repays pay, and never more than the wallet held.
\<close>

theorem unwind_spend_covered:
  assumes "plan_unwind terms inputs = Ok plan" "unwind_inputs_ok inputs" "primary_at terms inputs primary r keep"
  shows "bt_get0 (up_spend plan) k = repaid_by (up_actions plan) k
    \<and> 0 \<le> bt_get0 (up_spend plan) k \<and> bt_get0 (up_spend plan) k \<le> max 0 (bt_get0 (ui_wallet inputs) k)"
  using assms
proof (rule unwind_actions)
  fix st ws assume "unwind_repay inputs (unwind_start inputs) = Ok st" "up_spend plan = us_spend st"
    and ws: "withdrawals ws" "up_actions plan = us_actions st @ ws"
  with unwind_repay_outcome(3) assms(2) show ?thesis
    unfolding ws(2) repaid_by_withdrawals [OF ws(1)] by (metis balancedD)
qed

text \<open>
  A plan never loses sight of a debt: each debt of the position is either named among the
  remaining liabilities or repaid with the whole allowance its settlement asks for, and nothing
  is named that the position does not owe.
\<close>

lemma unwind_debts_followed:
  assumes "plan_unwind terms inputs = Ok plan" "unwind_inputs_ok inputs" "primary_at terms inputs primary r keep"
  shows "(bt_get (ui_reserves inputs) i = Some res \<and> 0 < bt_get0 (ps_liabilities (ui_positions inputs)) i \<longrightarrow>
      rs_asset res \<in> set (up_remaining_liabilities plan)
      \<or> settled_debt inputs (up_actions plan) i (bt_get0 (ps_liabilities (ui_positions inputs)) i))
    \<and> (a \<in> set (up_remaining_liabilities plan) \<longrightarrow>
      (\<exists>j res. bt_get (ui_reserves inputs) j = Some res \<and> rs_asset res = a
         \<and> bt_get (ps_liabilities (ui_positions inputs)) j \<noteq> None))"
  using assms
proof (rule unwind_actions)
  let ?l = "ps_liabilities (ui_positions inputs)"
  fix st ws assume st: "unwind_repay inputs (unwind_start inputs) = Ok st"
    and rem: "remaining_assets inputs (us_positions st) = Ok (up_remaining_liabilities plan)"
    and ws: "up_actions plan = us_actions st @ ws"
  note f = unwind_repay_outcome(4) [OF st assms(2), unfolded debts_followed_def]
  have named: "bt_get ?l j \<noteq> None" if "bt_get (ps_liabilities (us_positions st)) j \<noteq> None" for j
    using f that bt_get_eq_None_iff by metis
  have settled: "settled_debt inputs (up_actions plan) i (bt_get0 ?l i)"
    if "0 < bt_get0 ?l i" "bt_get (ps_liabilities (us_positions st)) i = None"
  proof -
    have "i \<in> set (bt_keys ?l)" using that(1) bt_get_eq_None_iff [of ?l i] by (auto simp: bt_get0_def)
    with f that show ?thesis unfolding ws by (intro settled_debt_mono) blast
  qed
  show ?thesis unfolding remaining_assets_set [OF rem] using named settled by blast
qed


text \<open>
  With no debt left, the pass withdraws every collateral but the primary, and the primary
  down to its floor at most.
\<close>

lemma withdraw_free_keeps_primary:
  assumes "withdraw_free terms inputs (p, a) = Ok (p', a')" "unwind_inputs_ok inputs" "positions_ok p"
    and "primary_at terms inputs primary r keep"
  shows "(\<forall>j. j \<noteq> primary \<longrightarrow> bt_get (ps_collateral p') j = None)
    \<and> min keep (bt_get0 (ps_collateral p) primary) \<le> bt_get0 (ps_collateral p') primary
    \<and> (\<forall>k. repaid_by a' k = repaid_by a k)"
  using withdraw_free_outcome [OF assms] repaid_by_withdrawals by blast

lemma sample_primary: "primary_at sample_unwind_terms (sample_unwind held) 0 sample_reserve 90909091"
  by (simp add: primary_at_def sample_unwind_defs eval_simps)

theorem unwind_spend_covered_witness:
  "bt_get0 [(''USDC'', 10000000)] ''USDC''
     = repaid_by [UnwindRepay ''USDC'' 10000000, UnwindWithdraw ''XLM'' 417592565] ''USDC''
   \<and> bt_get0 [(''USDC'', 10000000)] ''USDC'' \<le> (10000000 :: int)"
  using unwind_spend_covered [OF sample_unwind_plan sample_unwind_ok sample_primary, of "''USDC''"]
  by (simp add: sample_unwind_def eval_simps)

lemma sample_within_floor:
  "withdraw_within_floor sample_unwind_terms (sample_unwind 0) (sample_positions\<lparr>ps_liabilities := [(1, 41666667)]\<rparr>, [])
     = Ok ((\<lparr>ps_collateral = [(0, 620370395)], ps_liabilities = [(1, 41666667)], ps_supply = []\<rparr>,
            [UnwindWithdraw ''XLM'' 417592565]), Some 11055000)"
  by (simp add: sample_unwind_defs eval_simps Let_def less_char_def
      cong: rbind_weak_cong del: rbind_eq_Ok)


end
