(* ===== verification/Inventory.thy ===== *)
theory Inventory
  imports BTree "HOL-Library.Word" "HOL-Library.Multiset"
begin

text \<open>
  \<open>src/inventory.rs\<close>: the filler's wallet and the reservations plans hold against it. The
  mutex of the source makes each method one step, so a method is a function of the ledger
  behind it, and a program is a sequence of such steps over the ledger and the reservations
  still open. Instants and durations are natural numbers of one time unit.
\<close>

section \<open>Definitions\<close>

text \<open>The struct \<open>Ledger\<close>.\<close>

record wallet_ledger =
  wl_balances :: "(string, int) btree"
  wl_reserved :: "(string, int) btree"
  wl_read_at :: "nat option"
  wl_fee_asset :: string
  wl_fee_reserve :: int

text \<open>\<open>Ledger::available\<close>.\<close>

definition ledger_available :: "wallet_ledger \<Rightarrow> string \<Rightarrow> int" where
  "ledger_available self asset =
     (let balance = bt_get0 (wl_balances self) asset;
          reserved = bt_get0 (wl_reserved self) asset;
          withheld = (if asset = wl_fee_asset self then wl_fee_reserve self else 0)
      in max (saturating_sub (saturating_sub balance reserved) withheld) 0)"

definition subtract :: "(string, int) btree \<Rightarrow> string \<Rightarrow> int \<Rightarrow> (string, int) btree" where
  "subtract m asset amount =
     (case bt_get m asset of
        Some v \<Rightarrow> bt_insert asset (max (saturating_sub v amount) 0) m
      | None \<Rightarrow> m)"

text \<open>\<open>Inventory::new\<close>; the fee reserve is a \<open>u64\<close>.\<close>

definition inventory_new :: "string \<Rightarrow> 64 word \<Rightarrow> wallet_ledger" where
  "inventory_new fee_asset fee_reserve =
     \<lparr>wl_balances = [], wl_reserved = [], wl_read_at = None, wl_fee_asset = fee_asset,
      wl_fee_reserve = uint fee_reserve\<rparr>"

definition record_balances :: "wallet_ledger \<Rightarrow> (string, int) btree \<Rightarrow> nat \<Rightarrow> wallet_ledger" where
  "record_balances ledger balances at = ledger\<lparr>wl_balances := balances, wl_read_at := Some at\<rparr>"

definition inventory_stale :: "wallet_ledger \<Rightarrow> nat \<Rightarrow> nat \<Rightarrow> bool" where
  "inventory_stale ledger now max_age =
     (case wl_read_at ledger of None \<Rightarrow> True | Some read_at \<Rightarrow> now - read_at > max_age)"

text \<open>\<open>Inventory::available\<close>: a \<open>BTreeSet\<close> of both maps' keys, each with what it has free.\<close>

definition inventory_available :: "wallet_ledger \<Rightarrow> (string, int) btree" where
  "inventory_available ledger =
     map (\<lambda>asset. (asset, ledger_available ledger asset))
       (sort (remdups (bt_keys (wl_balances ledger) @ bt_keys (wl_reserved ledger))))"

definition inventory_reserved :: "wallet_ledger \<Rightarrow> (string, int) btree" where
  "inventory_reserved ledger = wl_reserved ledger"

record reservation =
  rv_amounts :: "(string, int) btree"
  rv_settled :: bool

datatype settlement = Live reservation | DryRun

datatype inventory_error =
    InvalidAmount string int
  | Insufficient string int int

text \<open>One turn of \<open>reserve\<close>'s checking loop, and of its claiming loop.\<close>

definition check_claim :: "wallet_ledger \<Rightarrow> string \<times> int \<Rightarrow> unit \<Rightarrow> (inventory_error, unit) result" where
  "check_claim ledger = (\<lambda>(asset, needed) _.
     if needed \<le> 0 then Err (InvalidAmount asset needed)
     else
       let available = ledger_available ledger asset in
       if needed > available then Err (Insufficient asset needed available) else Ok ())"

definition add_claim :: "string \<times> int \<Rightarrow> (string, int) btree \<Rightarrow> (string, int) btree" where
  "add_claim = (\<lambda>(asset, amount) reserved.
     bt_insert asset (saturating_add (bt_get0 reserved asset) amount) reserved)"

text \<open>\<open>Inventory::reserve\<close>.\<close>

definition reserve_claim ::
  "wallet_ledger \<Rightarrow> (string, int) btree \<Rightarrow> (inventory_error, wallet_ledger \<times> reservation) result" where
  "reserve_claim ledger amounts =
     rbind (rfold (check_claim ledger) amounts ()) (\<lambda>_.
     Ok (ledger\<lparr>wl_reserved := fold add_claim amounts (wl_reserved ledger)\<rparr>,
         \<lparr>rv_amounts = amounts, rv_settled = False\<rparr>))"

text \<open>
  The loops of \<open>consume\<close>, \<open>release\<close> and \<open>drop\<close> over the reservation's amounts.
\<close>

definition debit_claim :: "string \<times> int \<Rightarrow> wallet_ledger \<Rightarrow> wallet_ledger" where
  "debit_claim = (\<lambda>(asset, amount) ledger. ledger\<lparr>wl_reserved := subtract (wl_reserved ledger) asset amount\<rparr>)"

definition spend_claim :: "string \<times> int \<Rightarrow> wallet_ledger \<Rightarrow> wallet_ledger" where
  "spend_claim = (\<lambda>(asset, amount) ledger.
     ledger\<lparr>wl_reserved := subtract (wl_reserved ledger) asset amount,
            wl_balances := subtract (wl_balances ledger) asset amount\<rparr>)"

text \<open>\<open>Drop::drop\<close>, which also runs at the end of the two methods that take the token by value.\<close>

definition drop_reservation :: "wallet_ledger \<Rightarrow> reservation \<Rightarrow> wallet_ledger" where
  "drop_reservation ledger self =
     (if rv_settled self then ledger else fold debit_claim (rv_amounts self) ledger)"

definition consume :: "wallet_ledger \<Rightarrow> reservation \<Rightarrow> wallet_ledger" where
  "consume ledger self =
     (let self = self\<lparr>rv_settled := True\<rparr> in
      drop_reservation (fold spend_claim (rv_amounts self) ledger) self)"

definition release :: "wallet_ledger \<Rightarrow> reservation \<Rightarrow> wallet_ledger" where
  "release ledger self =
     (let self = self\<lparr>rv_settled := True\<rparr> in
      drop_reservation (fold debit_claim (rv_amounts self) ledger) self)"

text \<open>\<open>read_balances\<close>, with the reader's balance query as a parameter.\<close>

definition read_balances ::
  "(string \<Rightarrow> ('e, nat \<times> int) result) \<Rightarrow> string list \<Rightarrow> ('e, (string, int) btree) result" where
  "read_balances balance assets =
     rfold (\<lambda>asset balances. rbind (balance asset) (\<lambda>(_, amount). Ok (bt_insert asset amount balances))) assets []"

lemmas inventory_evals [eval_simps] = bt_get0_def ledger_available_def subtract_def inventory_new_def
  record_balances_def check_claim_def add_claim_def reserve_claim_def debit_claim_def
  spend_claim_def drop_reservation_def consume_def release_def read_balances_def

section \<open>Loops over the amounts of a claim\<close>

text \<open>
  Every loop of this module visits each asset of a map once and changes what it sees of that
  asset alone, so it is the pointwise application of its body.
\<close>

locale keyed_update =
  fixes step :: "'k \<times> 'a \<Rightarrow> 's \<Rightarrow> 's"
    and view :: "'s \<Rightarrow> 'k \<Rightarrow> 'x"
    and upd :: "'a \<Rightarrow> 'x \<Rightarrow> 'x"
  assumes view_step: "view (step (k, a) s) j = (if j = k then upd a (view s k) else view s j)"
begin

lemma view_fold:
  "distinct (bt_keys es) \<Longrightarrow>
   view (fold step es s) j = (case bt_get es j of None \<Rightarrow> view s j | Some a \<Rightarrow> upd a (view s j))"
proof (induction es arbitrary: s)
  case (Cons e es)
  obtain k a where e: "e = (k, a)" by (cases e)
  with Cons.prems have d: "distinct (bt_keys es)" and k: "bt_get es k = None"
    by (simp_all add: bt_get_eq_None_iff)
  show ?case unfolding fold_simps comp_apply Cons.IH [OF d] view_step e using k
    by (simp split: option.splits)
qed simp

end

interpretation ac: keyed_update add_claim bt_get0 "\<lambda>a v. saturating_add v a"
  by unfold_locales (simp add: add_claim_def)

abbreviation lowered :: "int \<Rightarrow> int option \<Rightarrow> int option" where
  "lowered a \<equiv> map_option (\<lambda>v. max (saturating_sub v a) 0)"

lemma subtract_get: "bt_get (subtract m k a) j = (if j = k then lowered a (bt_get m k) else bt_get m j)"
  by (simp add: subtract_def split: option.splits)

interpretation dc: keyed_update debit_claim "\<lambda>l. bt_get (wl_reserved l)" lowered
  by unfold_locales (simp add: debit_claim_def subtract_get)

interpretation scr: keyed_update spend_claim "\<lambda>l. bt_get (wl_reserved l)" lowered
  by unfold_locales (simp add: spend_claim_def subtract_get)

interpretation scb: keyed_update spend_claim "\<lambda>l. bt_get (wl_balances l)" lowered
  by unfold_locales (simp add: spend_claim_def subtract_get)

lemma subtract_wf [simp]: "bt_wf m \<Longrightarrow> bt_wf (subtract m k a)"
  by (simp add: subtract_def split: option.splits)

lemma fold_add_claim_wf: "bt_wf r \<Longrightarrow> bt_wf (fold add_claim es r)"
  by (induction es arbitrary: r) (auto simp: add_claim_def split: prod.splits)

lemma fold_debit_rest:
  "wl_balances (fold debit_claim es l) = wl_balances l \<and> wl_fee_asset (fold debit_claim es l) = wl_fee_asset l
   \<and> wl_fee_reserve (fold debit_claim es l) = wl_fee_reserve l \<and> wl_read_at (fold debit_claim es l) = wl_read_at l
   \<and> (bt_wf (wl_reserved l) \<longrightarrow> bt_wf (wl_reserved (fold debit_claim es l)))"
  by (induction es arbitrary: l) (auto simp: debit_claim_def split: prod.splits)

lemma fold_spend_rest:
  "wl_fee_asset (fold spend_claim es l) = wl_fee_asset l
   \<and> wl_fee_reserve (fold spend_claim es l) = wl_fee_reserve l \<and> wl_read_at (fold spend_claim es l) = wl_read_at l
   \<and> (bt_wf (wl_reserved l) \<longrightarrow> bt_wf (wl_reserved (fold spend_claim es l)))
   \<and> (bt_wf (wl_balances l) \<longrightarrow> bt_wf (wl_balances (fold spend_claim es l)))"
  by (induction es arbitrary: l) (auto simp: spend_claim_def split: prod.splits)

lemmas settle_defs = consume_def release_def drop_reservation_def

section \<open>The ledger against its open claims\<close>

abbreviation withheld :: "wallet_ledger \<Rightarrow> string \<Rightarrow> int" where
  "withheld l k \<equiv> (if k = wl_fee_asset l then wl_fee_reserve l else 0)"

text \<open>What the open reservations claim of an asset.\<close>

definition claimed :: "reservation multiset \<Rightarrow> string \<Rightarrow> int" where
  "claimed open k = (\<Sum>r\<in>#open. bt_get0 (rv_amounts r) k)"

definition claim_ok :: "reservation \<Rightarrow> bool" where
  "claim_ok r \<longleftrightarrow> \<not> rv_settled r \<and> bt_wf (rv_amounts r) \<and> (\<forall>e \<in> set (rv_amounts r). 0 < snd e)"

definition balances_ok :: "(string, int) btree \<Rightarrow> bool" where
  "balances_ok b \<longleftrightarrow> bt_wf b \<and> (\<forall>k. in_i128 (bt_get0 b k))"

text \<open>The invariant of the inventory.\<close>

definition wallet_ok :: "wallet_ledger \<times> reservation multiset \<Rightarrow> bool" where
  "wallet_ok = (\<lambda>(l, open). balances_ok (wl_balances l) \<and> bt_wf (wl_reserved l) \<and> 0 \<le> wl_fee_reserve l
     \<and> (\<forall>r \<in># open. claim_ok r)
     \<and> (\<forall>k. bt_get0 (wl_reserved l) k = claimed open k \<and> in_i128 (claimed open k)))"

lemma claimed_simps [simp]: "claimed {#} k = 0" "claimed (add_mset r R) k = bt_get0 (rv_amounts r) k + claimed R k"
  by (simp_all add: claimed_def)

lemma claim_ok_nonneg: "claim_ok r \<Longrightarrow> 0 \<le> bt_get0 (rv_amounts r) k"
  by (fastforce simp: claim_ok_def bt_get0_def dest: bt_get_in_set split: option.splits)

lemma claimed_nonneg: "(\<forall>r \<in># R. claim_ok r) \<Longrightarrow> 0 \<le> claimed R k"
  by (induction R) (auto simp: claim_ok_nonneg)

lemma in_i128_uint64 [simp]: "in_i128 (uint (w :: 64 word))"
  using uint_lt2p [of w] by (simp add: i128_defs) (smt (verit) uint_ge_0)

text \<open>The saturating chain of \<open>available\<close> is the exact difference, cut at zero.\<close>

lemma available_exact:
  assumes "in_i128 (bt_get0 (wl_balances l) k)" "0 \<le> bt_get0 (wl_reserved l) k" "0 \<le> withheld l k"
  shows "ledger_available l k = max 0 (bt_get0 (wl_balances l) k - bt_get0 (wl_reserved l) k - withheld l k)"
  using assms by (auto simp: ledger_available_def Let_def saturating_sub_def saturate_i128_def i128_defs)

lemma lowered_exact:
  "\<lbrakk>0 \<le> a; a \<le> v; in_i128 v\<rbrakk> \<Longrightarrow> max (saturating_sub v a) 0 = v - a"
  by (simp add: saturating_sub_def saturate_i128_def i128_defs)

text \<open>What a loop that lowers each amount of a claim leaves of a map that covers the claim.\<close>

lemma lowered_get0:
  assumes "bt_get m' k = (case bt_get es k of None \<Rightarrow> bt_get m k | Some a \<Rightarrow> lowered a (bt_get m k))"
    and "0 \<le> bt_get0 es k" "bt_get0 es k \<le> bt_get0 m k" "in_i128 (bt_get0 m k)"
  shows "bt_get0 m' k = bt_get0 m k - bt_get0 es k"
proof (cases "bt_get es k")
  case None
  then show ?thesis using assms(1) by (simp add: bt_get0_def)
next
  case (Some a)
  show ?thesis
  proof (cases "bt_get m k")
    case None
    with Some assms show ?thesis by (simp add: bt_get0_def)
  next
    case (Some v)
    with \<open>bt_get es k = Some a\<close> assms show ?thesis by (simp add: bt_get0_def lowered_exact)
  qed
qed

lemma wallet_okD:
  assumes "wallet_ok (l, R)"
  shows "in_i128 (bt_get0 (wl_balances l) k)" "bt_get0 (wl_reserved l) k = claimed R k" "0 \<le> claimed R k"
    "0 \<le> withheld l k" "in_i128 (claimed R k)"
    "ledger_available l k = max 0 (bt_get0 (wl_balances l) k - claimed R k - withheld l k)"
proof -
  show c: "0 \<le> claimed R k" using assms claimed_nonneg by (simp add: wallet_ok_def)
  show b: "in_i128 (bt_get0 (wl_balances l) k)" and r: "bt_get0 (wl_reserved l) k = claimed R k"
    and w: "0 \<le> withheld l k" and "in_i128 (claimed R k)"
    using assms by (simp_all add: wallet_ok_def balances_ok_def)
  show "ledger_available l k = max 0 (bt_get0 (wl_balances l) k - claimed R k - withheld l k)"
    using available_exact [OF b _ w] c r by simp
qed

lemma check_claim_Ok:
  "check_claim l (k, a) u = Ok () \<longleftrightarrow> 0 < a \<and> a \<le> ledger_available l k"
  by (simp add: check_claim_def Let_def)

lemma check_claim_Err:
  "check_claim l (k, a) u = Err e \<longleftrightarrow> a \<le> 0 \<and> e = InvalidAmount k a
     \<or> 0 < a \<and> ledger_available l k < a \<and> e = Insufficient k a (ledger_available l k)"
  by (auto simp: check_claim_def Let_def)

lemma check_claims:
  "rfold (check_claim l) amounts () = Ok () \<longleftrightarrow> (\<forall>(k, a) \<in> set amounts. 0 < a \<and> a \<le> ledger_available l k)"
  by (induction amounts) (auto simp: check_claim_Ok)

lemma reserve_claim_Ok:
  "reserve_claim l amounts = Ok (l', r) \<longleftrightarrow>
     (\<forall>(k, a) \<in> set amounts. 0 < a \<and> a \<le> ledger_available l k)
     \<and> l' = l\<lparr>wl_reserved := fold add_claim amounts (wl_reserved l)\<rparr>
     \<and> r = \<lparr>rv_amounts = amounts, rv_settled = False\<rparr>"
  unfolding reserve_claim_def check_claims [symmetric] by auto

lemma claim_fits:
  assumes "wallet_ok (l, R)" "reserve_claim l amounts = Ok (l', r)" "bt_get amounts k = Some a"
  shows "0 < a" "a + claimed R k + withheld l k \<le> bt_get0 (wl_balances l) k"
proof -
  have "(k, a) \<in> set amounts" using assms(3) by (rule bt_get_in_set)
  then have a: "0 < a" "a \<le> ledger_available l k" using assms(2) by (auto simp: reserve_claim_Ok)
  show "0 < a" by (fact a)
  show "a + claimed R k + withheld l k \<le> bt_get0 (wl_balances l) k"
    using a wallet_okD(6) [OF assms(1), of k] by linarith
qed

lemma reserve_claim_reserved:
  assumes "wallet_ok (l, R)" "bt_wf amounts" "reserve_claim l amounts = Ok (l', r)"
  shows "bt_get0 (wl_reserved l') k = claimed (add_mset r R) k \<and> in_i128 (claimed (add_mset r R) k)"
proof -
  note d = wallet_okD [OF assms(1), of k]
  have l': "wl_reserved l' = fold add_claim amounts (wl_reserved l)" and r: "rv_amounts r = amounts"
    using assms(3) by (simp_all add: reserve_claim_Ok)
  show ?thesis
  proof (cases "bt_get amounts k")
    case None
    then show ?thesis using d ac.view_fold [OF bt_wf_distinct [OF assms(2)], of "wl_reserved l" k]
      by (simp add: l' r bt_get0_def)
  next
    case (Some a)
    note f = claim_fits [OF assms(1,3) Some]
    then have "in_i128 (a + claimed R k)" using d by (intro in_i128_nonneg_le [OF d(1)]) auto
    then show ?thesis using d Some ac.view_fold [OF bt_wf_distinct [OF assms(2)], of "wl_reserved l" k]
      by (simp add: l' r bt_get0_def [of amounts] saturating_add_def saturate_i128_id add.commute)
  qed
qed

text \<open>Settling an open claim takes exactly its amounts out of what is reserved.\<close>

lemma settle_reserved:
  assumes "wallet_ok (l, add_mset r R)"
    and "\<And>k. bt_get (wl_reserved l') k
      = (case bt_get (rv_amounts r) k of None \<Rightarrow> bt_get (wl_reserved l) k | Some a \<Rightarrow> lowered a (bt_get (wl_reserved l) k))"
  shows "bt_get0 (wl_reserved l') k = claimed R k \<and> in_i128 (claimed R k)"
proof -
  note d = wallet_okD [OF assms(1), of k]
  have r: "0 \<le> bt_get0 (rv_amounts r) k" and R: "0 \<le> claimed R k"
    using assms(1) by (auto simp: wallet_ok_def intro: claim_ok_nonneg claimed_nonneg)
  have "in_i128 (claimed R k)" by (rule in_i128_nonneg_le [OF d(5) R]) (use r in simp)
  moreover have "bt_get0 (wl_reserved l') k = bt_get0 (wl_reserved l) k - bt_get0 (rv_amounts r) k"
    by (rule lowered_get0 [OF assms(2) r]) (use d R in auto)
  ultimately show ?thesis using d(2) by simp
qed

lemma release_eq: "claim_ok r \<Longrightarrow> drop_reservation l r = release l r"
  by (simp add: settle_defs claim_ok_def)

lemma open_claim: "wallet_ok (l, add_mset r R) \<Longrightarrow> claim_ok r"
  by (simp add: wallet_ok_def)

lemma open_distinct: "wallet_ok (l, add_mset r R) \<Longrightarrow> distinct (bt_keys (rv_amounts r))"
  by (simp add: wallet_ok_def claim_ok_def bt_wf_distinct)

lemma release_ok:
  assumes "wallet_ok (l, add_mset r R)"
  shows "wallet_ok (release l r, R)"
proof -
  let ?l = "fold debit_claim (rv_amounts r) l"
  have l: "release l r = ?l" by (simp add: settle_defs)
  have "bt_get0 (wl_reserved ?l) k = claimed R k \<and> in_i128 (claimed R k)" for k
    by (rule settle_reserved [OF assms dc.view_fold [OF open_distinct [OF assms]]])
  then show ?thesis unfolding l using assms fold_debit_rest [of "rv_amounts r" l] by (simp add: wallet_ok_def)
qed

lemma lowered_in_i128: "in_i128 (max (saturating_sub v a) 0)"
  by (simp add: saturating_sub_def saturate_i128_def i128_defs)

lemma consume_ok:
  assumes "wallet_ok (l, add_mset r R)"
  shows "wallet_ok (consume l r, R)"
proof -
  let ?l = "fold spend_claim (rv_amounts r) l"
  have l: "consume l r = ?l" by (simp add: settle_defs)
  have res: "bt_get0 (wl_reserved ?l) k = claimed R k \<and> in_i128 (claimed R k)" for k
    by (rule settle_reserved [OF assms scr.view_fold [OF open_distinct [OF assms]]])
  have "in_i128 (bt_get0 (wl_balances ?l) k)" for k
    using scb.view_fold [OF open_distinct [OF assms], of l k] wallet_okD(1) [OF assms, of k]
    by (cases "bt_get (rv_amounts r) k") (simp_all add: bt_get0_def lowered_in_i128 split: option.splits)
  with res show ?thesis unfolding l using assms fold_spend_rest [of "rv_amounts r" l]
    by (simp add: wallet_ok_def balances_ok_def)
qed

lemma reserve_ok:
  assumes "wallet_ok (l, R)" "bt_wf amounts" "reserve_claim l amounts = Ok (l', r)"
  shows "wallet_ok (l', add_mset r R)"
proof -
  have "claim_ok r" using assms(2,3) by (auto simp: reserve_claim_Ok claim_ok_def)
  moreover have "l' = l\<lparr>wl_reserved := fold add_claim amounts (wl_reserved l)\<rparr>"
    using assms(3) by (simp add: reserve_claim_Ok)
  ultimately show ?thesis
    using assms(1) reserve_claim_reserved [OF assms] fold_add_claim_wf [of "wl_reserved l" amounts]
    by (simp add: wallet_ok_def del: claimed_simps)
qed

section \<open>Programs over the inventory\<close>

text \<open>
  The calls a program makes between two chain reads; the reservations still open are the
  tokens some task owns.
\<close>

inductive claim_step :: "wallet_ledger \<times> reservation multiset \<Rightarrow> wallet_ledger \<times> reservation multiset \<Rightarrow> bool" where
  reserve_step: "bt_wf amounts \<Longrightarrow> reserve_claim l amounts = Ok (l', r) \<Longrightarrow> claim_step (l, R) (l', add_mset r R)"
| consume_step: "claim_step (l, add_mset r R) (consume l r, R)"
| release_step: "claim_step (l, add_mset r R) (release l r, R)"
| drop_step: "claim_step (l, add_mset r R) (drop_reservation l r, R)"

inductive wallet_step :: "wallet_ledger \<times> reservation multiset \<Rightarrow> wallet_ledger \<times> reservation multiset \<Rightarrow> bool" where
  claim: "claim_step s s' \<Longrightarrow> wallet_step s s'"
| read: "balances_ok b \<Longrightarrow> wallet_step (l, R) (record_balances l b at, R)"

lemma claim_step_ok: "claim_step s s' \<Longrightarrow> wallet_ok s \<Longrightarrow> wallet_ok s'"
proof (induction rule: claim_step.induct)
  case (drop_step l r R)
  then show ?case using release_ok release_eq open_claim by metis
qed (auto intro: reserve_ok consume_ok release_ok)

lemma wallet_step_ok: "wallet_step s s' \<Longrightarrow> wallet_ok s \<Longrightarrow> wallet_ok s'"
proof (induction rule: wallet_step.induct)
  case (read b l R at)
  then show ?case by (simp add: record_balances_def wallet_ok_def)
qed (rule claim_step_ok)

lemma inventory_new_ok: "wallet_ok (inventory_new fee_asset fee_reserve, {#})"
  by (simp add: wallet_ok_def balances_ok_def inventory_new_def)

lemma wallet_reachable_ok:
  assumes "wallet_step\<^sup>*\<^sup>* (inventory_new fee_asset fee_reserve, {#}) s"
  shows "wallet_ok s"
  using assms by (induction rule: rtranclp_induct) (auto intro: inventory_new_ok wallet_step_ok)

text \<open>
  Claims never exceed the wallet between reads: an asset with an open claim always keeps the
  fee reserve beside it.
\<close>

definition covered :: "wallet_ledger \<Rightarrow> bool" where
  "covered l \<longleftrightarrow> (\<forall>k. 0 < bt_get0 (wl_reserved l) k \<longrightarrow>
     bt_get0 (wl_reserved l) k + withheld l k \<le> bt_get0 (wl_balances l) k)"

lemma coveredD:
  "covered l \<Longrightarrow> 0 < bt_get0 (wl_reserved l) k \<Longrightarrow>
   bt_get0 (wl_reserved l) k + withheld l k \<le> bt_get0 (wl_balances l) k"
  unfolding covered_def by blast

lemma consume_balances:
  assumes "wallet_ok (l, add_mset r R)" "covered l"
  shows "bt_get0 (wl_balances (consume l r)) k = bt_get0 (wl_balances l) k - bt_get0 (rv_amounts r) k"
proof -
  note d = wallet_okD [OF assms(1), of k]
  have r: "0 \<le> bt_get0 (rv_amounts r) k" and R: "0 \<le> claimed R k"
    using assms(1) by (auto simp: wallet_ok_def intro: claim_ok_nonneg claimed_nonneg)
  have le: "bt_get0 (rv_amounts r) k \<le> bt_get0 (wl_balances l) k" if "0 < bt_get0 (rv_amounts r) k"
  proof -
    have "0 < bt_get0 (wl_reserved l) k" using d(2) that R by simp
    from coveredD [OF assms(2) this] d(2,4) R show ?thesis unfolding d(2) claimed_simps by linarith
  qed
  show ?thesis
  proof (cases "bt_get (rv_amounts r) k")
    case None
    then show ?thesis using scb.view_fold [OF open_distinct [OF assms(1)], of l k]
      by (simp add: settle_defs bt_get0_def)
  next
    case (Some a)
    then have "0 < a" using open_claim [OF assms(1)] by (fastforce simp: claim_ok_def dest: bt_get_in_set)
    with Some le have "bt_get0 (rv_amounts r) k \<le> bt_get0 (wl_balances l) k" by (simp add: bt_get0_def)
    from lowered_get0 [OF scb.view_fold [OF open_distinct [OF assms(1)]] r this d(1)]
    show ?thesis by (simp add: settle_defs)
  qed
qed

lemma settled_fees [simp]:
  "wl_fee_asset (release l r) = wl_fee_asset l" "wl_fee_reserve (release l r) = wl_fee_reserve l"
  "wl_fee_asset (consume l r) = wl_fee_asset l" "wl_fee_reserve (consume l r) = wl_fee_reserve l"
  "wl_balances (release l r) = wl_balances l"
  by (simp_all add: settle_defs fold_debit_rest fold_spend_rest)

lemma release_covered:
  assumes "wallet_ok (l, add_mset r R)" "covered l"
  shows "covered (release l r)"
proof -
  have "bt_get0 (wl_reserved (release l r)) k \<le> bt_get0 (wl_reserved l) k" for k
    using wallet_okD(2) [OF assms(1)] wallet_okD(2) [OF release_ok [OF assms(1)]]
      claim_ok_nonneg [OF open_claim [OF assms(1)]] by simp
  then show ?thesis using assms(2) unfolding covered_def settled_fees by (smt (verit))
qed

lemma consume_covered:
  assumes "wallet_ok (l, add_mset r R)" "covered l"
  shows "covered (consume l r)"
proof -
  have "bt_get0 (wl_reserved (consume l r)) k = bt_get0 (wl_reserved l) k - bt_get0 (rv_amounts r) k"
    "0 \<le> bt_get0 (rv_amounts r) k" for k
    using wallet_okD(2) [OF assms(1)] wallet_okD(2) [OF consume_ok [OF assms(1)]]
      claim_ok_nonneg [OF open_claim [OF assms(1)]] by simp_all
  then show ?thesis using assms(2) consume_balances [OF assms] unfolding covered_def settled_fees by (smt (verit))
qed

lemma reserve_covered:
  assumes "wallet_ok (l, R)" "covered l" "bt_wf amounts" "reserve_claim l amounts = Ok (l', r)"
  shows "covered l'"
  unfolding covered_def
proof (intro allI impI)
  fix k assume pos: "0 < bt_get0 (wl_reserved l') k"
  have l': "wl_balances l' = wl_balances l" "wl_fee_asset l' = wl_fee_asset l" "wl_fee_reserve l' = wl_fee_reserve l"
    and r: "rv_amounts r = amounts" using assms(4) by (simp_all add: reserve_claim_Ok)
  have res: "bt_get0 (wl_reserved l') k = bt_get0 amounts k + claimed R k"
    using reserve_claim_reserved [OF assms(1,3,4), of k] r by simp
  show "bt_get0 (wl_reserved l') k + withheld l' k \<le> bt_get0 (wl_balances l') k"
  proof (cases "bt_get amounts k")
    case None
    then have "bt_get0 (wl_reserved l') k = bt_get0 (wl_reserved l) k"
      using res wallet_okD(2) [OF assms(1), of k] by (simp add: bt_get0_def [of amounts])
    then show ?thesis using coveredD [OF assms(2), of k] pos unfolding l' by simp
  next
    case (Some a)
    then show ?thesis using claim_fits(2) [OF assms(1,4) Some] res unfolding l' by (simp add: bt_get0_def [of amounts])
  qed
qed

lemma claim_step_covered: "claim_step s s' \<Longrightarrow> wallet_ok s \<Longrightarrow> covered (fst s) \<Longrightarrow> covered (fst s')"
proof (induction rule: claim_step.induct)
  case (drop_step l r R)
  then show ?case using release_covered release_eq open_claim by (metis fst_conv)
qed (auto intro: reserve_covered consume_covered release_covered)

section \<open>Reserving and giving back\<close>

lemma reserve_keys:
  assumes "wallet_ok (l, R)" "reserve_claim l amounts = Ok (l', r)"
  shows "set (bt_keys amounts) \<subseteq> set (bt_keys (wl_balances l))"
proof
  fix k assume "k \<in> set (bt_keys amounts)"
  then obtain a where a: "bt_get amounts k = Some a" using bt_get_eq_None_iff by fastforce
  have "0 < bt_get0 (wl_balances l) k"
    using claim_fits [OF assms a] wallet_okD(3,4) [OF assms(1), of k] by linarith
  then show "k \<in> set (bt_keys (wl_balances l))"
    using bt_get_eq_None_iff [of "wl_balances l" k] by (auto simp: bt_get0_def)
qed

lemma fold_add_claim_keys: "set (bt_keys (fold add_claim es r)) = set (bt_keys es) \<union> set (bt_keys r)"
  by (induction es arbitrary: r) (auto simp: add_claim_def split: prod.splits)

lemma subtract_keys [simp]: "set (bt_keys (subtract m k a)) = set (bt_keys m)"
proof (cases "bt_get m k")
  case (Some v)
  then have "k \<in> set (bt_keys m)" using bt_get_eq_None_iff [of m k] by auto
  with Some show ?thesis by (auto simp: subtract_def)
qed (simp add: subtract_def)

lemma fold_debit_keys: "set (bt_keys (wl_reserved (fold debit_claim es l))) = set (bt_keys (wl_reserved l))"
  by (induction es arbitrary: l) (auto simp: debit_claim_def split: prod.splits)

lemma sort_remdups_set: "set xs = set ys \<Longrightarrow> sort (remdups xs) = sort (remdups (ys :: 'a::linorder list))"
  by (metis sorted_list_of_set_sort_remdups)

text \<open>What a reservation takes out of what is available, and what each settlement leaves.\<close>

lemma reserve_available:
  assumes "wallet_ok (l, R)" "bt_wf amounts" "reserve_claim l amounts = Ok (l', r)"
  shows "ledger_available l' k = ledger_available l k - bt_get0 amounts k"
proof -
  have l': "wl_balances l' = wl_balances l" "wl_fee_asset l' = wl_fee_asset l" "wl_fee_reserve l' = wl_fee_reserve l"
    "rv_amounts r = amounts" using assms(3) by (simp_all add: reserve_claim_Ok)
  note a = wallet_okD(6) [OF reserve_ok [OF assms], of k, unfolded l'] wallet_okD(6) [OF assms(1), of k]
  show ?thesis
  proof (cases "bt_get amounts k")
    case None
    then have "bt_get0 amounts k = 0" by (simp add: bt_get0_def)
    then show ?thesis using a by (simp add: l')
  next
    case (Some x)
    then have "bt_get0 amounts k = x" by (simp add: bt_get0_def)
    then show ?thesis using a claim_fits [OF assms(1,3) Some] by (simp add: l')
  qed
qed

lemma reserve_release_view:
  assumes "wallet_ok (l, R)" "bt_wf amounts" "reserve_claim l amounts = Ok (l', r)"
  shows "inventory_available (release l' r) = inventory_available l"
proof -
  let ?m = "release l' r"
  have l': "wl_balances l' = wl_balances l" "wl_fee_asset l' = wl_fee_asset l" "wl_fee_reserve l' = wl_fee_reserve l"
    "wl_reserved l' = fold add_claim amounts (wl_reserved l)" using assms(3) by (simp_all add: reserve_claim_Ok)
  have "set (bt_keys (wl_reserved ?m)) = set (bt_keys amounts) \<union> set (bt_keys (wl_reserved l))"
    by (simp add: settle_defs fold_debit_keys l' fold_add_claim_keys)
  with reserve_keys [OF assms(1,3)] have "sort (remdups (bt_keys (wl_balances ?m) @ bt_keys (wl_reserved ?m)))
      = sort (remdups (bt_keys (wl_balances l) @ bt_keys (wl_reserved l)))"
    by (intro sort_remdups_set) (auto simp: l')
  moreover have "ledger_available ?m k = ledger_available l k" for k
    using wallet_okD(6) [OF release_ok [OF reserve_ok [OF assms]], of k] wallet_okD(6) [OF assms(1), of k]
    by (simp add: l')
  ultimately show ?thesis by (simp add: inventory_available_def)
qed

section \<open>The interface plans rely on\<close>

text \<open>
  What a planner needs of a book of claims: a claim that is granted comes out of what is
  available, for as long as it is open.
\<close>

locale claim_book =
  fixes good :: "'s \<Rightarrow> bool"
    and avail :: "'s \<Rightarrow> 'k \<Rightarrow> int"
    and take_claim :: "'a \<Rightarrow> 's \<Rightarrow> ('e, 's) result"
    and amount :: "'a \<Rightarrow> 'k \<Rightarrow> int"
    and valid :: "'a \<Rightarrow> bool"
  assumes take_good: "good s \<Longrightarrow> valid a \<Longrightarrow> take_claim a s = Ok s' \<Longrightarrow> good s'"
    and take_avail: "good s \<Longrightarrow> valid a \<Longrightarrow> take_claim a s = Ok s' \<Longrightarrow> avail s' k = avail s k - amount a k"
    and avail_nonneg: "good s \<Longrightarrow> 0 \<le> avail s k"
begin

lemma claims_fit:
  "good s \<Longrightarrow> (\<forall>a \<in> set as. valid a) \<Longrightarrow> rfold take_claim as s = Ok s' \<Longrightarrow>
   good s' \<and> (\<Sum>a\<leftarrow>as. amount a k) = avail s k - avail s' k"
proof (induction as arbitrary: s)
  case (Cons a as)
  then obtain s1 where s1: "take_claim a s = Ok s1" and rest: "rfold take_claim as s1 = Ok s'" by auto
  have "good s1" using take_good [of s a s1] Cons.prems s1 by simp
  from Cons.IH [OF this _ rest] Cons.prems take_avail [OF Cons.prems(1) _ s1, of k] show ?case by simp
qed simp

lemma claims_within: "good s \<Longrightarrow> (\<forall>a \<in> set as. valid a) \<Longrightarrow> rfold take_claim as s = Ok s' \<Longrightarrow>
   (\<Sum>a\<leftarrow>as. amount a k) \<le> avail s k"
  using claims_fit [of s as s' k] avail_nonneg [of s' k] by auto

end

definition open_claim_step ::
  "(string, int) btree \<Rightarrow> wallet_ledger \<times> reservation multiset
   \<Rightarrow> (inventory_error, wallet_ledger \<times> reservation multiset) result" where
  "open_claim_step amounts = (\<lambda>(l, R). rbind (reserve_claim l amounts) (\<lambda>(l', r). Ok (l', add_mset r R)))"

lemma open_claim_step_Ok:
  "open_claim_step amounts (l, R) = Ok s' \<longleftrightarrow> (\<exists>l' r. reserve_claim l amounts = Ok (l', r) \<and> s' = (l', add_mset r R))"
  by (auto simp: open_claim_step_def)

interpretation cb: claim_book wallet_ok "\<lambda>(l, R). ledger_available l" open_claim_step bt_get0 bt_wf
proof unfold_locales
  fix s s' :: "wallet_ledger \<times> reservation multiset" and a k
  obtain l R where s: "s = (l, R)" by (cases s)
  show "0 \<le> (case s of (l, R) \<Rightarrow> ledger_available l) k" if "wallet_ok s"
    using wallet_okD(6) [OF that [unfolded s]] by (simp add: s)
  assume *: "wallet_ok s" "bt_wf a" "open_claim_step a s = Ok s'"
  then obtain l' r where r: "reserve_claim l a = Ok (l', r)" "s' = (l', add_mset r R)"
    by (auto simp: s open_claim_step_Ok)
  then show "wallet_ok s'" using * reserve_ok by (simp add: s)
  show "(case s' of (l, R) \<Rightarrow> ledger_available l) k = (case s of (l, R) \<Rightarrow> ledger_available l) k - bt_get0 a k"
    using * reserve_available r by (simp add: s)
qed

section \<open>Properties\<close>

definition sample_ledger :: wallet_ledger where
  "sample_ledger = \<lparr>wl_balances = [(''USDC'', 50), (''XLM'', 1000)], wl_reserved = [], wl_read_at = Some 5,
     wl_fee_asset = ''XLM'', wl_fee_reserve = 100\<rparr>"

abbreviation sample_claim :: reservation where
  "sample_claim \<equiv> \<lparr>rv_amounts = [(''XLM'', 300)], rv_settled = False\<rparr>"

abbreviation sample_claimed :: wallet_ledger where
  "sample_claimed \<equiv> sample_ledger\<lparr>wl_reserved := [(''XLM'', 300)]\<rparr>"

lemma sample_balances_ok: "balances_ok [(''USDC'', 50), (''XLM'', 1000)]"
  by (simp add: balances_ok_def bt_get0_def i128_defs less_char_def)

lemma sample_ledger_read:
  "record_balances (inventory_new ''XLM'' 100) [(''USDC'', 50), (''XLM'', 1000)] 5 = sample_ledger"
  by (simp add: record_balances_def inventory_new_def sample_ledger_def)

lemma sample_ledger_reached: "wallet_step\<^sup>*\<^sup>* (inventory_new ''XLM'' 100, {#}) (sample_ledger, {#})"
  using wallet_step.read [OF sample_balances_ok, of "inventory_new ''XLM'' 100" "{#}" 5]
  by (simp add: sample_ledger_read)

lemma sample_available: "ledger_available sample_ledger ''XLM'' = 900" "ledger_available sample_ledger ''USDC'' = 50"
  by (simp_all add: sample_ledger_def eval_simps)

lemma sample_reserve_claim: "reserve_claim sample_ledger [(''XLM'', 300)] = Ok (sample_claimed, sample_claim)"
  by (simp add: sample_ledger_def eval_simps)

lemma sample_claim_step: "claim_step (sample_ledger, {#}) (sample_claimed, {#sample_claim#})"
  using reserve_step [OF _ sample_reserve_claim] by simp

text \<open>
  C25: whatever calls a program makes, what the ledger holds as reserved is the sum of the
  reservations still open, and what it shows as available is the exact balance less those
  claims and the fee reserve, cut at zero: no saturation is ever observable.
\<close>

theorem wallet_claims_exact:
  assumes "wallet_step\<^sup>*\<^sup>* (inventory_new fee_asset fee_reserve, {#}) (l, R)"
  shows "bt_get0 (wl_reserved l) k = claimed R k \<and> 0 \<le> claimed R k
    \<and> ledger_available l k = max 0 (bt_get0 (wl_balances l) k - claimed R k - withheld l k)"
  using wallet_okD [OF wallet_reachable_ok [OF assms], of k] by simp

theorem wallet_claims_exact_witness:
  "bt_get0 (wl_reserved sample_claimed) ''XLM'' = 300 \<and> ledger_available sample_claimed ''XLM'' = 600"
proof -
  have "wallet_step\<^sup>*\<^sup>* (inventory_new ''XLM'' 100, {#}) (sample_claimed, {#sample_claim#})"
    using sample_ledger_reached claim [OF sample_claim_step] by (rule rtranclp.rtrancl_into_rtrancl)
  from wallet_claims_exact [OF this, of "''XLM''"] show ?thesis by (simp add: sample_ledger_def bt_get0_def)
qed



text \<open>
  A reservation that is released or dropped leaves what is available exactly as it was,
  key for key; one that is consumed leaves it lower by its amounts, with nothing reserved.
\<close>

lemma reserve_settle_roundtrip:
  assumes "wallet_ok (l, R)" "bt_wf amounts" "reserve_claim l amounts = Ok (l', r)"
  shows "inventory_available (release l' r) = inventory_available l
    \<and> inventory_available (drop_reservation l' r) = inventory_available l
    \<and> (covered l \<longrightarrow> ledger_available (consume l' r) k = ledger_available l k - bt_get0 amounts k
        \<and> bt_get0 (wl_reserved (consume l' r)) k = bt_get0 (wl_reserved l) k)"
proof -
  note ok' = reserve_ok [OF assms]
  note rel = reserve_release_view [OF assms]
  have l': "wl_balances l' = wl_balances l" "wl_fee_asset l' = wl_fee_asset l" "wl_fee_reserve l' = wl_fee_reserve l"
    "rv_amounts r = amounts" using assms(3) by (simp_all add: reserve_claim_Ok)
  have "ledger_available (consume l' r) k = ledger_available l' k" if "covered l"
    using wallet_okD(6) [OF ok', of k] wallet_okD(6) [OF consume_ok [OF ok'], of k]
      consume_balances [OF ok' reserve_covered [OF assms(1) that assms(2,3)], of k] by (simp add: algebra_simps)
  then show ?thesis
    using rel release_eq [OF open_claim [OF ok']] reserve_available [OF assms, of k]
      wallet_okD(2) [OF consume_ok [OF ok'], of k] wallet_okD(2) [OF assms(1), of k] by simp
qed

text \<open>
  A reservation is refused exactly for the first asset, in key order, that asks for
  nothing or for more than is available, with that asset's own numbers; nothing is claimed then.
\<close>

lemma reserve_refused_for_first:
  "reserve_claim l amounts = Err e \<longleftrightarrow>
     (\<exists>ys k a zs. amounts = ys @ (k, a) # zs \<and> (\<forall>(j, b) \<in> set ys. 0 < b \<and> b \<le> ledger_available l j)
        \<and> (a \<le> 0 \<and> e = InvalidAmount k a
           \<or> 0 < a \<and> ledger_available l k < a \<and> e = Insufficient k a (ledger_available l k)))"
proof -
  have "reserve_claim l amounts = Err e \<longleftrightarrow> (\<exists>ys x zs. amounts = ys @ x # zs
      \<and> rfold (check_claim l) ys () = Ok () \<and> check_claim l x () = Err e)"
    unfolding reserve_claim_def rbind_eq_Err rfold_Err by simp
  also have "\<dots> \<longleftrightarrow> (\<exists>ys k a zs. amounts = ys @ (k, a) # zs
      \<and> rfold (check_claim l) ys () = Ok () \<and> check_claim l (k, a) () = Err e)"
    by (simp only: split_paired_Ex)
  finally show ?thesis unfolding check_claims check_claim_Err .
qed

text \<open>
  Plans that hold their reservations at the same time never claim together more than was
  available before the first of them.
\<close>

lemma concurrent_claims_fit:
  assumes "wallet_ok (l, R)" "\<forall>a \<in> set plans. bt_wf a" "rfold open_claim_step plans (l, R) = Ok s'"
  shows "(\<Sum>a\<leftarrow>plans. bt_get0 a k) \<le> ledger_available l k"
  using cb.claims_within [OF assms, of k] by simp

end
