(* ===== verification/Executor.thy ===== *)
theory Executor
  imports Store_Io Queue Unwind Inventory
begin

text \<open>
  \<open>src/executor.rs\<close>: one planned fill, or one unwind pass, from the contract's judgment to the
  audit row, the submission and the settled reservation. The state is the world and the tables;
  what is written down and what is posted goes to one log, in order, so that "recorded before
  sent" is a fact about it. The wallet is settled at the end by a function of the wallet ledger as it then
  is, since other plans hold reservations of their own meanwhile.
\<close>

section \<open>Definitions\<close>

definition WITHDRAW_ALL :: int where
  "WITHDRAW_ALL = 9223372036854775807"

definition INVALID_HF :: nat where
  "INVALID_HF = 1205"

definition MIN_COLLATERAL_NOT_MET :: nat where
  "MIN_COLLATERAL_NOT_MET = 1224"

record fill_plan =
  fq_pool :: string
  fq_user :: string
  fq_draft :: fill_draft
  fq_priority :: priority

record fill_recorded =
  fc_fill_id :: int
  fc_simulated :: bool
  fc_dry_run :: bool
  fc_submission :: "tx_outcome option"

definition fill_succeeded :: "fill_recorded \<Rightarrow> bool" where
  "fill_succeeded self = (case fc_submission self of Some (Succeeded _ _ _) \<Rightarrow> True | _ \<Rightarrow> False)"

datatype exec_outcome =
    Recorded fill_recorded
  | Replan nat
  | ExecRefused "nat option"
  | Stale

datatype unwind_outcome =
    UnwindPlanned bool
  | UnwindSubmitted tx_outcome
  | UnwindRefused "nat option"
  | UnwindStale

definition unwind_landed :: "unwind_outcome \<Rightarrow> bool" where
  "unwind_landed self =
     (case self of UnwindSubmitted (Succeeded _ _ _) \<Rightarrow> True | UnwindSubmitted (Unknown _ _ _) \<Rightarrow> True | _ \<Rightarrow> False)"

datatype executor_error =
    ExecStore store_error
  | ExecChain chain_error
  | ExecXdr xdr_error
  | ExecQueue queue_error
  | ExecMode string

subsection \<open>Requests\<close>

fun fill_request :: "fill_action \<Rightarrow> pool_request" where
  "fill_request (FillRepay asset amount) = \<lparr>pr_request_type = ReqRepay, pr_address = asset, pr_amount = amount\<rparr>"
| "fill_request (FillWithdrawAll asset) =
     \<lparr>pr_request_type = ReqWithdrawCollateral, pr_address = asset, pr_amount = WITHDRAW_ALL\<rparr>"
| "fill_request (FillSupplyCollateral asset amount) =
     \<lparr>pr_request_type = ReqSupplyCollateral, pr_address = asset, pr_amount = amount\<rparr>"

definition fill_requests :: "string \<Rightarrow> fill_draft \<Rightarrow> pool_request list xdr_result" where
  "fill_requests user draft =
     rbind (request_fill FillUserLiquidationAuction user (fd_percent draft)) (\<lambda>fill.
     Ok (fill # map fill_request (fd_actions draft)))"

fun unwind_request :: "unwind_action \<Rightarrow> pool_request" where
  "unwind_request (UnwindRepay asset amount) = \<lparr>pr_request_type = ReqRepay, pr_address = asset, pr_amount = amount\<rparr>"
| "unwind_request (UnwindWithdraw asset amount) =
     \<lparr>pr_request_type = ReqWithdrawCollateral, pr_address = asset, pr_amount = amount\<rparr>"
| "unwind_request (UnwindWithdrawAll asset) =
     \<lparr>pr_request_type = ReqWithdrawCollateral, pr_address = asset, pr_amount = WITHDRAW_ALL\<rparr>"

definition unwind_requests :: "unwind_action list \<Rightarrow> pool_request list" where
  "unwind_requests actions = map unwind_request actions"

subsection \<open>What is asked and answered on the way\<close>

datatype settle_by = Consume | Release

datatype judged =
    JudgedAccepted operation
  | JudgedNeedsRestore operation
  | JudgedUnsimulated
  | JudgedRefused "nat option" string
  | JudgedUnjudged

datatype judged_fill =
    FillAccepted operation
  | FillNeedsRestore operation
  | FillUnsimulated
  | FillRefused exec_outcome

datatype landed =
    LandedOutcome tx_outcome
  | LandedStale
  | LandedRefused "nat option" string

text \<open>What an executor does that its callers rely on, in the order it does it.\<close>

datatype exec_deed =
    RowWritten int
  | UnwindLogged
  | Posted "envelope \<times> send_status chain_result"

text \<open>
  The executor's handles: the store, and the submitter when a filler key is configured
  (\<open>ex_source\<close>), with the library's encoding of a call as an operation; and the queue it may be
  given: whether the channel takes a submission, what passes until the worker gets to it, and the worker's own submitter.
\<close>

record 'w executor =
  ex_fault :: "'w connection"
  ex_host :: "'w host"
  ex_config :: tx_config
  ex_source :: "string option"
  ex_dry_run :: bool
  ex_lib :: xdr_lib
  ex_invoke :: "contract_call \<Rightarrow> string"

record 'w submission_queue =
  sq_admit :: "'w \<Rightarrow> bool \<times> 'w"
  sq_recv :: "'w \<Rightarrow> 'w"
  sq_host :: "'w host"
  sq_config :: tx_config
  sq_policy :: retry_policy

type_synonym ('w, 'e, 'a) exec = "('w \<times> tables, exec_deed, 'e, 'a) act"

definition posting :: "('w, envelope \<times> send_status chain_result, 'e, 'a) act \<Rightarrow> ('w, 'e, 'a) exec" where
  "posting m = (\<lambda>((w, db), log).
     case m (w, []) of
       None \<Rightarrow> None
     | Some (r, w, sends) \<Rightarrow> Some (r, (w, db), log @ map Posted sends))"

definition noting :: "exec_deed \<Rightarrow> ('w, 'e, unit) exec" where
  "noting deed = (\<lambda>(s, log). Some (Ok (), s, log @ [deed]))"

text \<open>\<open>SubmissionQueue::enqueue\<close> and the turn of the worker's loop that answers it.\<close>

definition queue_submit :: "'w submission_queue \<Rightarrow> submission \<Rightarrow> ('w, queue_error, tx_outcome) exec" where
  "queue_submit queue submission = (\<lambda>((w, db), log).
     case sq_admit queue w of
       (False, w) \<Rightarrow> Some (enqueue False None, (w, db), log)
     | (True, w) \<Rightarrow>
         (case run_queue_with (sq_host queue) (sq_config queue) (sq_policy queue) (sq_recv queue) [submission] (w, []) of
            None \<Rightarrow> None
          | Some (answers, w, sends) \<Rightarrow> Some (enqueue True (Some (hd answers)), (w, db), log @ map Posted sends)))"

definition settle_of :: "tx_outcome \<Rightarrow> settle_by" where
  "settle_of out =
     (case out of Succeeded _ _ _ \<Rightarrow> Consume | Unknown _ _ _ \<Rightarrow> Consume | Failed _ _ _ _ \<Rightarrow> Release | Expired _ _ _ \<Rightarrow> Release)"

type_synonym 'a settled = "(executor_error, 'a) result \<times> settle_by"

text \<open>The executor's own \<open>enqueue\<close>: the answer of the queue and what the reservation becomes.\<close>

definition executor_enqueue :: "'w submission_queue \<Rightarrow> submission \<Rightarrow> ('w, unit, landed settled) exec" where
  "executor_enqueue queue submission =
     io_try (queue_submit queue submission) (\<lambda>r.
     io_lift (Ok (case r of
        Inr out \<Rightarrow> (Ok (LandedOutcome out), settle_of out)
      | Inl (Chain BadSequence) \<Rightarrow> (Ok LandedStale, Release)
      | Inl (Chain (Simulation message contract_error)) \<Rightarrow> (Ok (LandedRefused contract_error message), Release)
      | Inl error \<Rightarrow> (Err (ExecQueue error), Release))))"

definition refusal :: "nat option \<Rightarrow> exec_outcome" where
  "refusal contract_error =
     (case contract_error of
        Some code \<Rightarrow> if code = INVALID_HF \<or> code = MIN_COLLATERAL_NOT_MET then Replan code else ExecRefused (Some code)
      | None \<Rightarrow> ExecRefused None)"

subsection \<open>Settling and guarding\<close>

definition release_option :: "reservation option \<Rightarrow> wallet_ledger \<Rightarrow> wallet_ledger" where
  "release_option reservation ledger = (case reservation of Some r \<Rightarrow> release ledger r | None \<Rightarrow> ledger)"

definition settle_reservation :: "reservation option \<Rightarrow> settle_by \<Rightarrow> wallet_ledger \<Rightarrow> wallet_ledger" where
  "settle_reservation reservation settlement ledger =
     (case settlement of
        Consume \<Rightarrow> (case reservation of Some r \<Rightarrow> consume ledger r | None \<Rightarrow> ledger)
      | Release \<Rightarrow> release_option reservation ledger)"

text \<open>What the guards answer, and what they did to the wallet when they refused.\<close>

definition guard ::
  "'w executor \<Rightarrow> settlement \<Rightarrow> bool \<Rightarrow> (executor_error \<times> (wallet_ledger \<Rightarrow> wallet_ledger), reservation option) result" where
  "guard self settlement armed =
     rbind (case settlement of
              Live reservation \<Rightarrow>
                if ex_dry_run self then Err (ExecMode ''a live reservation was given to a dry-run executor'', release_option (Some reservation))
                else Ok (Some reservation)
            | DryRun \<Rightarrow>
                if \<not> ex_dry_run self then Err (ExecMode ''a live executor was given no reservation'', id)
                else Ok None) (\<lambda>reservation.
     if armed \<and> ex_dry_run self then
       Err (ExecMode ''a submission queue was given to a dry-run executor'', release_option reservation)
     else if armed \<and> ex_source self = None then
       Err (ExecMode ''a submission queue was given to an executor with no signer'', release_option reservation)
     else Ok reservation)"

subsection \<open>Judging\<close>

definition judge_operation :: "'w executor \<Rightarrow> string \<Rightarrow> pool_request list \<Rightarrow> bool \<Rightarrow> ('w, executor_error, judged) exec" where
  "judge_operation self pool requests armed =
     (case ex_source self of
        None \<Rightarrow> io_lift (Ok JudgedUnsimulated)
      | Some filler \<Rightarrow>
          io_bind (io_lift (case submit_op (ex_lib self) pool filler filler filler requests of
             Inl e \<Rightarrow> Err (ExecXdr e) | Inr call \<Rightarrow> Ok (InvokeHostFunction (ex_invoke self call) []))) (\<lambda>operation.
          io_bind (io_map_err ExecChain (posting (simulate_only (ex_host self) (ex_config self) operation))) (\<lambda>judgment.
          io_lift (Ok (case judgment of
             Accepted \<Rightarrow> JudgedAccepted operation
           | Refused contract_error message \<Rightarrow> JudgedRefused contract_error message
           | NeedsRestore \<Rightarrow> if armed then JudgedNeedsRestore operation else JudgedUnjudged)))))"

definition judge_fill :: "'w executor \<Rightarrow> fill_plan \<Rightarrow> bool \<Rightarrow> ('w, executor_error, judged_fill) exec" where
  "judge_fill self plan armed =
     io_bind (io_lift (case fill_requests (fq_user plan) (fq_draft plan) of Inl e \<Rightarrow> Err (ExecXdr e) | Inr rs \<Rightarrow> Ok rs)) (\<lambda>requests.
     io_bind (judge_operation self (fq_pool plan) requests armed) (\<lambda>judged.
     io_lift (Ok (case judged of
        JudgedAccepted operation \<Rightarrow> FillAccepted operation
      | JudgedNeedsRestore operation \<Rightarrow> FillNeedsRestore operation
      | JudgedUnsimulated \<Rightarrow> FillUnsimulated
      | JudgedUnjudged \<Rightarrow> FillRefused (ExecRefused None)
      | JudgedRefused contract_error message \<Rightarrow> FillRefused (refusal contract_error)))))"

subsection \<open>A fill\<close>

definition recorded :: "'w executor \<Rightarrow> int \<Rightarrow> bool \<Rightarrow> tx_outcome option \<Rightarrow> exec_outcome" where
  "recorded self fill_id simulated submission =
     Recorded \<lparr>fc_fill_id = fill_id, fc_simulated = simulated, fc_dry_run = ex_dry_run self, fc_submission = submission\<rparr>"

definition fill_record_of :: "'w executor \<Rightarrow> fill_plan \<Rightarrow> fill_record" where
  "fill_record_of self plan =
     (let draft = fq_draft plan in
      \<lparr>fr_pool = fq_pool plan, fr_account = fq_user plan, fr_auction_type = UserLiquidation,
       fr_fill_ledger = fd_fill_ledger draft, fr_percent = fd_percent draft, fr_bid = ad_bid (fd_to_fill draft),
       fr_lot = ad_lot (fd_to_fill draft), fr_bid_value = fd_bid_value draft, fr_lot_value = fd_lot_value draft,
       fr_est_profit = fd_est_profit draft, fr_dry_run = ex_dry_run self\<rparr>)"

definition submit_recorded ::
  "'w executor \<Rightarrow> 'w submission_queue \<Rightarrow> fill_plan \<Rightarrow> int \<Rightarrow> bool \<Rightarrow> operation \<Rightarrow> ('w, unit, exec_outcome settled) exec" where
  "submit_recorded self queue plan fill_id simulated operation =
     io_bind (executor_enqueue queue \<lparr>sb_operation = operation, sb_priority = fq_priority plan,
        sb_label = ''fill '' @ fq_user plan @ '' on '' @ fq_pool plan, sb_retries = FILL_RETRIES\<rparr>) (\<lambda>(landed, settle).
     case landed of
       Inr (LandedOutcome out) \<Rightarrow>
         io_try (statement (ex_fault self) (attach_fill_tx fill_id (to_hex (tx_outcome_hash out)))) (\<lambda>r.
         io_lift (Ok (case r of
            Inr _ \<Rightarrow> (Ok (recorded self fill_id simulated (Some out)), settle)
          | Inl error \<Rightarrow> (Err (ExecStore error), settle))))
     | Inr LandedStale \<Rightarrow> io_lift (Ok (Ok Stale, settle))
     | Inr (LandedRefused contract_error message) \<Rightarrow> io_lift (Ok (Ok (refusal contract_error), settle))
     | Inl error \<Rightarrow> io_lift (Ok (Err error, settle)))"

text \<open>\<open>run\<close> from the row on, once the contract has been asked.\<close>

definition record_and_submit ::
  "'w executor \<Rightarrow> fill_plan \<Rightarrow> 'w submission_queue option \<Rightarrow> operation option \<times> bool \<Rightarrow> ('w, unit, exec_outcome settled) exec" where
  "record_and_submit self plan queue = (\<lambda>(operation, simulated).
     io_try (statement (ex_fault self) (record_fill (fill_record_of self plan))) (\<lambda>r.
     case r of
       Inl error \<Rightarrow> io_lift (Ok (Err (ExecStore error), Release))
     | Inr fill_id \<Rightarrow>
         io_bind (noting (RowWritten fill_id)) (\<lambda>_.
         case (queue, operation) of
           (Some queue, Some operation) \<Rightarrow> submit_recorded self queue plan fill_id simulated operation
         | _ \<Rightarrow> io_lift (Ok (Ok (recorded self fill_id simulated None), Release)))))"

definition executor_run :: "'w executor \<Rightarrow> fill_plan \<Rightarrow> 'w submission_queue option \<Rightarrow> ('w, unit, exec_outcome settled) exec" where
  "executor_run self plan queue =
     io_try (judge_fill self plan (queue \<noteq> None)) (\<lambda>judged.
     case judged of
       Inl error \<Rightarrow> io_lift (Ok (Err error, Release))
     | Inr (FillRefused out) \<Rightarrow> io_lift (Ok (Ok out, Release))
     | Inr (FillAccepted operation) \<Rightarrow> record_and_submit self plan queue (Some operation, True)
     | Inr (FillNeedsRestore operation) \<Rightarrow> record_and_submit self plan queue (Some operation, False)
     | Inr FillUnsimulated \<Rightarrow> record_and_submit self plan queue (None, False))"

definition execute ::
  "'w executor \<Rightarrow> fill_plan \<Rightarrow> settlement \<Rightarrow> 'w submission_queue option
   \<Rightarrow> ('w, unit, (executor_error, exec_outcome) result \<times> (wallet_ledger \<Rightarrow> wallet_ledger)) exec" where
  "execute self plan settlement queue =
     (case guard self settlement (queue \<noteq> None) of
        Inl (error, wallet) \<Rightarrow> io_lift (Ok (Err error, wallet))
      | Inr reservation \<Rightarrow>
          io_bind (executor_run self plan queue) (\<lambda>(answer, settled).
          io_lift (Ok (answer, settle_reservation reservation settled))))"

subsection \<open>An unwind pass\<close>

definition submit_unwind ::
  "'w submission_queue \<Rightarrow> string \<Rightarrow> operation \<Rightarrow> ('w, unit, unwind_outcome settled) exec" where
  "submit_unwind queue pool operation =
     io_bind (executor_enqueue queue \<lparr>sb_operation = operation, sb_priority = Normal,
        sb_label = ''unwind '' @ pool, sb_retries = UNWIND_RETRIES\<rparr>) (\<lambda>(landed, settle).
     io_lift (Ok (case landed of
         Inr (LandedOutcome out) \<Rightarrow> (Ok (UnwindSubmitted out), settle)
       | Inr LandedStale \<Rightarrow> (Ok UnwindStale, settle)
       | Inr (LandedRefused contract_error message) \<Rightarrow> (Ok (UnwindRefused contract_error), settle)
       | Inl error \<Rightarrow> (Err error, settle))))"

definition log_and_unwind ::
  "string \<Rightarrow> 'w submission_queue option \<Rightarrow> operation option \<times> bool \<Rightarrow> ('w, unit, unwind_outcome settled) exec" where
  "log_and_unwind pool queue = (\<lambda>(operation, simulated).
     io_bind (noting UnwindLogged) (\<lambda>_.
     case (queue, operation) of
       (Some queue, Some operation) \<Rightarrow> submit_unwind queue pool operation
     | _ \<Rightarrow> io_lift (Ok (Ok (UnwindPlanned simulated), Release))))"

definition run_unwind ::
  "'w executor \<Rightarrow> string \<Rightarrow> unwind_plan \<Rightarrow> 'w submission_queue option \<Rightarrow> ('w, unit, unwind_outcome settled) exec" where
  "run_unwind self pool plan queue =
     io_try (judge_operation self pool (unwind_requests (up_actions plan)) (queue \<noteq> None)) (\<lambda>judged.
     case judged of
       Inl error \<Rightarrow> io_lift (Ok (Err error, Release))
     | Inr (JudgedAccepted operation) \<Rightarrow> log_and_unwind pool queue (Some operation, True)
     | Inr (JudgedNeedsRestore operation) \<Rightarrow> log_and_unwind pool queue (Some operation, False)
     | Inr JudgedUnsimulated \<Rightarrow> log_and_unwind pool queue (None, False)
     | Inr JudgedUnjudged \<Rightarrow> io_lift (Ok (Ok (UnwindRefused None), Release))
     | Inr (JudgedRefused contract_error message) \<Rightarrow> io_lift (Ok (Ok (UnwindRefused contract_error), Release)))"

definition unwind ::
  "'w executor \<Rightarrow> string \<Rightarrow> unwind_plan \<Rightarrow> settlement \<Rightarrow> 'w submission_queue option
   \<Rightarrow> ('w, unit, (executor_error, unwind_outcome) result \<times> (wallet_ledger \<Rightarrow> wallet_ledger)) exec" where
  "unwind self pool plan settlement queue =
     (case guard self settlement (queue \<noteq> None) of
        Inl (error, wallet) \<Rightarrow> io_lift (Ok (Err error, wallet))
      | Inr reservation \<Rightarrow>
          if unwind_is_idle plan then io_lift (Ok (Ok (UnwindPlanned False), release_option reservation))
          else
            io_bind (run_unwind self pool plan queue) (\<lambda>(answer, settled).
            io_lift (Ok (answer, settle_reservation reservation settled))))"


section \<open>What is posted, and when\<close>

lemma logs_posting: "logs m P \<Longrightarrow> logs (posting m) (\<lambda>r ev. \<exists>sends. ev = map Posted sends \<and> P r sends)"
proof (rule logsI)
  fix s log r s' log'
  assume m: "logs m P" and "posting m (s, log) = Some (r, s', log')"
  then obtain w db w' sends where s: "s = (w, db)" and run: "m (w, []) = Some (r, w', sends)" and "log' = log @ map Posted sends"
    by (cases s) (auto simp: posting_def split: option.splits prod.splits)
  moreover from logsD [OF m run] have "P r sends" by simp
  ultimately show "\<exists>ev. log' = log @ ev \<and> (\<exists>sends. ev = map Posted sends \<and> P r sends)" by blast
qed

lemma logs_map_err:
  assumes "logs m P" "\<And>e ev. P (Err e) ev \<Longrightarrow> Q (Err (f e)) ev" "\<And>x ev. P (Ok x) ev \<Longrightarrow> Q (Ok x) ev"
  shows "logs (io_map_err f m) Q"
proof (rule logsI)
  fix w log r w' log'
  assume "io_map_err f m (w, log) = Some (r, w', log')"
  then show "\<exists>ev. log' = log @ ev \<and> Q r ev"
    using logsD [OF assms(1)] assms(2,3) by (cases rule: io_map_err_cases) blast+
qed

lemma quiet_statement: "quiet (statement fault q)"
  by (rule logsI) (auto simp: statement_def split: prod.splits option.splits)

lemma quiet_simulate_only: "quiet (simulate_only host config operation)"
  by (rule logsI) (use simulate_only_sends_nothing in fastforce)

text \<open>Asking the contract posts nothing, and what is then submitted is never a restore.\<close>

definition asked :: "('a \<Rightarrow> bool) \<Rightarrow> (executor_error, 'a) result \<Rightarrow> exec_deed list \<Rightarrow> bool" where
  "asked ok r ev \<longleftrightarrow> ev = [] \<and> (\<forall>j. r = Ok j \<longrightarrow> ok j)"

fun fill_outcome_in :: "exec_outcome \<Rightarrow> tx_outcome option" where
  "fill_outcome_in (Recorded rec) = fc_submission rec"
| "fill_outcome_in _ = None"

fun unwind_outcome_in :: "unwind_outcome \<Rightarrow> tx_outcome option" where
  "unwind_outcome_in (UnwindSubmitted out) = Some out"
| "unwind_outcome_in _ = None"

lemma refusal_no_outcome [simp]: "fill_outcome_in (refusal code) = None"
  by (simp add: refusal_def split: option.split)

fun judged_ok :: "judged \<Rightarrow> bool" where
  "judged_ok (JudgedAccepted operation) = (operation \<noteq> RestoreFootprint)"
| "judged_ok (JudgedNeedsRestore operation) = (operation \<noteq> RestoreFootprint)"
| "judged_ok _ = True"

fun judged_fill_ok :: "judged_fill \<Rightarrow> bool" where
  "judged_fill_ok (FillAccepted operation) = (operation \<noteq> RestoreFootprint)"
| "judged_fill_ok (FillNeedsRestore operation) = (operation \<noteq> RestoreFootprint)"
| "judged_fill_ok FillUnsimulated = True"
| "judged_fill_ok (FillRefused out) = (fill_outcome_in out = None)"

lemma judge_operation_asked: "logs (judge_operation self pool requests armed) (asked judged_ok)"
proof (cases "ex_source self")
  case None
  then show ?thesis by (auto simp: judge_operation_def asked_def intro: logs_lift)
next
  case (Some filler)
  have sim: "logs (io_map_err ExecChain (posting (simulate_only (ex_host self) (ex_config self) operation))) (\<lambda>r ev. ev = [])" for operation
    by (rule logs_map_err [OF logs_posting [OF quiet_simulate_only]]) auto
  have ask: "logs (io_bind (io_map_err ExecChain (posting (simulate_only (ex_host self) (ex_config self) operation))) (\<lambda>judgment.
      io_lift (Ok (case judgment of
             Accepted \<Rightarrow> JudgedAccepted operation
           | Refused contract_error message \<Rightarrow> JudgedRefused contract_error message
           | NeedsRestore \<Rightarrow> if armed then JudgedNeedsRestore operation else JudgedUnjudged)))) (asked judged_ok)"
    if "operation \<noteq> RestoreFootprint" for operation
    using that by (intro logs_bind [OF sim logs_lift_eq]) (auto simp: asked_def split: tx_judgment.splits)
  show ?thesis
    unfolding judge_operation_def Some option.case
  proof (rule logs_seq [OF logs_lift_eq], goal_cases)
    case (1 operation ev)
    then have "ev = []" "operation \<noteq> RestoreFootprint" by (auto split: sum.splits)
    then show ?case using ask by simp
  qed (simp add: asked_def)
qed

lemma judge_fill_asked: "logs (judge_fill self plan armed) (asked judged_fill_ok)"
proof -
  have "logs (io_bind (judge_operation self (fq_pool plan) requests armed) (\<lambda>judged.
     io_lift (Ok (case judged of
        JudgedAccepted operation \<Rightarrow> FillAccepted operation
      | JudgedNeedsRestore operation \<Rightarrow> FillNeedsRestore operation
      | JudgedUnsimulated \<Rightarrow> FillUnsimulated
      | JudgedUnjudged \<Rightarrow> FillRefused (ExecRefused None)
      | JudgedRefused contract_error message \<Rightarrow> FillRefused (refusal contract_error))))) (asked judged_fill_ok)" for requests
    by (rule logs_bind [OF judge_operation_asked logs_lift_eq]) (auto simp: asked_def split: judged.splits)
  then show ?thesis
    unfolding judge_fill_def by (intro logs_quiet_bind [OF quiet_lift]) (simp_all add: asked_def)
qed

text \<open>The outcome answered is for the one envelope that may have been taken.\<close>

definition outcome_of :: "'w host \<Rightarrow> tx_outcome \<Rightarrow> send_log \<Rightarrow> bool" where
  "outcome_of host out sends \<longleftrightarrow> (\<forall>x \<in> set sends. own_send x \<and> \<not> refused_answer (snd x) \<longrightarrow>
     xdr (ho_envelope_hash host (fst x)) = Ok (tx_outcome_hash out))"

lemma queue_submit_logs:
  assumes "sb_operation submission \<noteq> RestoreFootprint"
  shows "logs (queue_submit queue submission) (\<lambda>r ev. \<exists>sends. ev = map Posted sends \<and> final_accept sends
     \<and> (case r of Inl _ \<Rightarrow> own_refused sends | Inr out \<Rightarrow> outcome_of (sq_host queue) out sends))"
proof (rule logsI)
  fix s log r s' log'
  assume run: "queue_submit queue submission (s, log) = Some (r, s', log')"
  obtain w db where s: "s = (w, db)" by fastforce
  obtain taken w0 where admit: "sq_admit queue w = (taken, w0)" by fastforce
  let ?P = "\<lambda>sends. final_accept sends \<and> (case r of Inl _ \<Rightarrow> own_refused sends | Inr out \<Rightarrow> outcome_of (sq_host queue) out sends)"
  have "\<exists>sends. log' = log @ map Posted sends \<and> ?P sends"
  proof (cases "taken \<and> \<not> ho_shutdown (sq_host queue) (sq_recv queue w0)")
    case False
    then show ?thesis
      using run admit s
      by (cases taken) (auto simp: queue_submit_def enqueue_def Let_def own_refused_def final_accept_def split: if_splits intro!: exI [of _ "[]"])
  next
    case True
    then obtain w1 sends where sub: "submit_until_settled (sq_host queue) (sq_config queue) (sq_policy queue) submission (sq_recv queue w0, [])
        = Some (r, w1, sends)" and log: "log' = log @ map Posted sends"
      using run admit s by (auto simp: queue_submit_def enqueue_def Let_def split: option.splits)
    from logsD [OF settle_loop_sends_once [OF assms] sub [unfolded submit_until_settled_def]]
    have "sent_once (sq_host queue) (4 * Suc (sb_retries submission)) r sends" by simp
    then have "?P sends" unfolding sent_once_def outcome_of_def by (cases r) (simp_all only: sum.case, blast+)
    then show ?thesis using log by blast
  qed
  then show "\<exists>ev. log' = log @ ev \<and> (\<exists>sends. ev = map Posted sends \<and> ?P sends)" by blast
qed


text \<open>
  What an answer with its settlement says of what was posted: the wallet is given back only
  when nothing was taken or what was taken came to nothing, and spent only by an
  outcome that did or may have landed.
\<close>

definition settled_by :: "'w submission_queue option \<Rightarrow> settle_by \<Rightarrow> tx_outcome option \<Rightarrow> send_log \<Rightarrow> bool" where
  "settled_by queue verdict out sends \<longleftrightarrow> final_accept sends
     \<and> (case out of
          None \<Rightarrow> verdict = Release \<and> own_refused sends
        | Some out \<Rightarrow> verdict = settle_of out \<and> (\<exists>q. queue = Some q \<and> outcome_of (sq_host q) out sends))
     \<and> (queue = None \<longrightarrow> sends = [])"

lemma settled_by_nothing [simp]: "settled_by queue verdict None [] \<longleftrightarrow> verdict = Release"
  by (auto simp: settled_by_def own_refused_def final_accept_def)

fun landed_outcome :: "(executor_error, landed) result \<Rightarrow> tx_outcome option" where
  "landed_outcome (Inr (LandedOutcome out)) = Some out"
| "landed_outcome _ = None"

lemma executor_enqueue_logs:
  assumes "sb_operation submission \<noteq> RestoreFootprint"
  shows "logs (executor_enqueue queue submission) (\<lambda>r ev. \<exists>landed verdict sends. r = Ok (landed, verdict) \<and> ev = map Posted sends
     \<and> settled_by (Some queue) verdict (landed_outcome landed) sends)"
  unfolding executor_enqueue_def
proof (rule logs_try [OF queue_submit_logs [OF assms] logs_lift_eq], goal_cases)
  case (1 x ev r ev')
  then show ?case
    by (cases x) (auto simp: settled_by_def split: queue_error.splits chain_error.splits)
qed

text \<open>A fill writes its row first; an unwind its log line.\<close>

definition announced :: "(exec_deed \<Rightarrow> bool) \<Rightarrow> exec_deed list \<Rightarrow> send_log \<Rightarrow> bool" where
  "announced row before sends \<longleftrightarrow> before = [] \<and> sends = [] \<or> (\<exists>d. before = [d] \<and> row d)"

definition is_row :: "exec_deed \<Rightarrow> bool" where
  "is_row d \<longleftrightarrow> (\<exists>i. d = RowWritten i)"

definition says_outcome :: "('a \<Rightarrow> tx_outcome option) \<Rightarrow> (executor_error, 'a) result \<Rightarrow> tx_outcome option \<Rightarrow> bool" where
  "says_outcome outcome_in answer out \<longleftrightarrow> (\<forall>a out'. answer = Ok a \<and> outcome_in a = Some out' \<longrightarrow> out = Some out')"

definition run_spec ::
  "(exec_deed \<Rightarrow> bool) \<Rightarrow> ('a \<Rightarrow> tx_outcome option) \<Rightarrow> 'w submission_queue option
   \<Rightarrow> (unit, 'a settled) result \<Rightarrow> exec_deed list \<Rightarrow> bool" where
  "run_spec row outcome_in queue r ev \<longleftrightarrow>
     (\<exists>answer verdict out before sends. r = Ok (answer, verdict) \<and> ev = before @ map Posted sends
        \<and> announced row before sends \<and> settled_by queue verdict out sends \<and> says_outcome outcome_in answer out)"

lemma run_spec_release:
  "(\<And>a. answer = Ok a \<Longrightarrow> outcome_in a = None) \<Longrightarrow> run_spec row outcome_in queue (Ok (answer, Release)) []"
  unfolding run_spec_def
  by (intro exI [of _ answer] exI [of _ Release] exI [of _ None] exI [of _ "[]"]) (auto simp: announced_def says_outcome_def)

lemma run_spec_noted:
  assumes "row d" "\<And>a. answer = Ok a \<Longrightarrow> outcome_in a = None"
  shows "run_spec row outcome_in queue (Ok (answer, Release)) [d]"
  unfolding run_spec_def
  by (rule exI [of _ answer], rule exI [of _ Release], rule exI [of _ None], rule exI [of _ "[d]"], rule exI [of _ "[]"])
    (use assms in \<open>auto simp: announced_def says_outcome_def\<close>)

lemma run_spec_sent:
  assumes "row d" "settled_by queue verdict out sends" "says_outcome outcome_in answer out"
  shows "run_spec row outcome_in queue (Ok (answer, verdict)) (d # map Posted sends)"
  unfolding run_spec_def
  by (rule exI [of _ answer], rule exI [of _ verdict], rule exI [of _ out], rule exI [of _ "[d]"], rule exI [of _ sends])
    (use assms in \<open>auto simp: announced_def\<close>)

lemma logs_noting: "logs (noting d) (\<lambda>r ev. r = Ok () \<and> ev = [d])"
  by (rule logsI) (auto simp: noting_def)


lemma logs_after_note:
  assumes "logs m (\<lambda>r ev. P r (d # ev))"
  shows "logs (io_bind (noting d) (\<lambda>_. m)) P"
  by (rule logs_seq [OF logs_noting]) (use assms in auto)

lemma submit_recorded_logs:
  assumes "operation \<noteq> RestoreFootprint"
  shows "logs (submit_recorded self queue plan fill_id simulated operation)
     (\<lambda>r ev. run_spec is_row fill_outcome_in (Some queue) r (RowWritten fill_id # ev))"
  unfolding submit_recorded_def
proof (rule logs_seq [OF executor_enqueue_logs], goal_cases)
  case 1
  then show ?case using assms by simp
next
  case (2 x ev)
  then obtain landed verdict sends where x: "x = (landed, verdict)" and ev: "ev = map Posted sends"
    and by_landed: "settled_by (Some queue) verdict (landed_outcome landed) sends" by auto
  have row: "is_row (RowWritten fill_id)" by (simp add: is_row_def)
  have fin: "run_spec is_row fill_outcome_in (Some queue) (Ok (answer, verdict)) (RowWritten fill_id # ev)"
    if "says_outcome fill_outcome_in answer (landed_outcome landed)" for answer
    using run_spec_sent [of is_row "RowWritten fill_id", OF row by_landed that] ev by simp
  show ?case
  proof (cases landed)
    case (Inl e)
    then show ?thesis by (auto simp: x says_outcome_def intro!: logs_lift fin)
  next
    case (Inr l)
    show ?thesis
    proof (cases l)
      case (LandedOutcome out)
      show ?thesis unfolding x Inr LandedOutcome prod.case sum.case landed.case
        by (rule logs_try [OF quiet_statement logs_lift_eq])
          (auto simp: says_outcome_def recorded_def Inr LandedOutcome intro!: fin split: sum.splits)
    qed (auto simp: x Inr says_outcome_def intro!: logs_lift fin)
  qed
qed auto

lemma record_and_submit_logs:
  assumes "operation \<noteq> Some RestoreFootprint"
  shows "logs (record_and_submit self plan queue (operation, simulated)) (run_spec is_row fill_outcome_in queue)"
  unfolding record_and_submit_def prod.case
proof (rule logs_try [OF quiet_statement, where Q = "\<lambda>_. run_spec is_row fill_outcome_in queue"], goal_cases)
  case (1 r)
  show ?case
  proof (cases r)
    case (Inl e)
    then show ?thesis by (auto intro!: logs_lift run_spec_release)
  next
    case (Inr fill_id)
    have "is_row (RowWritten fill_id)" by (simp add: is_row_def)
    note noted = run_spec_noted [of is_row "RowWritten fill_id", OF this]
    have "logs (case (queue, operation) of
           (Some queue, Some operation) \<Rightarrow> submit_recorded self queue plan fill_id simulated operation
         | _ \<Rightarrow> io_lift (Ok (Ok (recorded self fill_id simulated None), Release)))
        (\<lambda>r ev. run_spec is_row fill_outcome_in queue r (RowWritten fill_id # ev))"
      using assms submit_recorded_logs
      by (auto intro!: logs_lift noted simp: recorded_def split: option.splits)
    then show ?thesis unfolding Inr sum.case prod.case by (rule logs_after_note)
  qed
qed simp

text \<open>What follows a judgement only has to be right for a judgement that can be given.\<close>

lemma logs_judged:
  assumes "logs m (asked ok)" "\<And>e. logs (f (Err e)) P" "\<And>j. ok j \<Longrightarrow> logs (f (Ok j)) P"
  shows "logs (io_try m f) P"
proof (rule logsI)
  fix w log r w' log'
  assume "io_try m f (w, log) = Some (r, w', log')"
  then obtain j w1 log1 where m: "m (w, log) = Some (j, w1, log1)" and f: "f j (w1, log1) = Some (r, w', log')"
    by (auto simp: io_try_def split: option.splits)
  from logsD [OF assms(1) m] have "log1 = log" "\<And>x. j = Ok x \<Longrightarrow> ok x" by (auto simp: asked_def)
  moreover from this have "logs (f j) P" using assms(2,3) by (cases j) auto
  from logsD [OF this f] obtain ev where "log' = log1 @ ev" "P r ev" by blast
  ultimately show "\<exists>ev. log' = log @ ev \<and> P r ev" by blast
qed

lemma executor_run_logs: "logs (executor_run self plan queue) (run_spec is_row fill_outcome_in queue)"
  unfolding executor_run_def
proof (rule logs_judged [OF judge_fill_asked], goal_cases)
  case (2 j)
  then show ?case
    by (cases j) (auto intro!: logs_lift run_spec_release record_and_submit_logs)
qed (auto intro!: logs_lift run_spec_release)

lemma submit_unwind_logs:
  assumes "operation \<noteq> RestoreFootprint"
  shows "logs (submit_unwind queue pool operation)
     (\<lambda>r ev. run_spec (\<lambda>d. d = UnwindLogged) unwind_outcome_in (Some queue) r (UnwindLogged # ev))"
  unfolding submit_unwind_def
proof (rule logs_seq [OF executor_enqueue_logs], goal_cases)
  case 1
  then show ?case using assms by simp
next
  case (2 x ev)
  then obtain landed verdict sends where x: "x = (landed, verdict)" and ev: "ev = map Posted sends"
    and by_landed: "settled_by (Some queue) verdict (landed_outcome landed) sends" by auto
  have fin: "run_spec (\<lambda>d. d = UnwindLogged) unwind_outcome_in (Some queue) (Ok (answer, verdict)) (UnwindLogged # ev)"
    if "says_outcome unwind_outcome_in answer (landed_outcome landed)" for answer
    using run_spec_sent [of "\<lambda>d. d = UnwindLogged" UnwindLogged, OF refl by_landed that] ev by simp
  show ?case unfolding x prod.case
    by (rule logs_lift) (cases landed rule: sum.exhaust, auto simp: says_outcome_def intro!: fin split: landed.splits)
qed auto

lemma log_and_unwind_logs:
  assumes "operation \<noteq> Some RestoreFootprint"
  shows "logs (log_and_unwind pool queue (operation, simulated)) (run_spec (\<lambda>d. d = UnwindLogged) unwind_outcome_in queue)"
  unfolding log_and_unwind_def prod.case
  by (rule logs_after_note)
    (use assms submit_unwind_logs in \<open>auto intro!: logs_lift run_spec_noted split: option.splits\<close>)

lemma run_unwind_logs: "logs (run_unwind self pool plan queue) (run_spec (\<lambda>d. d = UnwindLogged) unwind_outcome_in queue)"
  unfolding run_unwind_def
proof (rule logs_judged [OF judge_operation_asked], goal_cases)
  case (2 j)
  then show ?case by (cases j) (auto intro!: logs_lift run_spec_release log_and_unwind_logs)
qed (auto intro!: logs_lift run_spec_release)

section \<open>The whole call\<close>

text \<open>What a reservation becomes, and by what; a dry run holds none.\<close>

definition wallet_by :: "settlement \<Rightarrow> settle_by \<Rightarrow> (wallet_ledger \<Rightarrow> wallet_ledger)" where
  "wallet_by settlement verdict =
     (case settlement of DryRun \<Rightarrow> id | Live r \<Rightarrow> (case verdict of Consume \<Rightarrow> (\<lambda>l. consume l r) | Release \<Rightarrow> (\<lambda>l. release l r)))"

lemma settle_reservation_by:
  "guard self settlement armed = Ok reservation \<Longrightarrow> settle_reservation reservation verdict = wallet_by settlement verdict"
  "guard self settlement armed = Ok reservation \<Longrightarrow> release_option reservation = wallet_by settlement Release"
  by (auto simp: guard_def wallet_by_def settle_reservation_def release_option_def fun_eq_iff split: settlement.splits if_splits settle_by.splits)

lemma guard_refused:
  assumes "guard self settlement armed = Err (error, wallet)"
  shows "wallet = wallet_by settlement Release"
  using assms
  by (auto simp: guard_def wallet_by_def release_option_def fun_eq_iff rbind_eq_Err split: settlement.splits if_splits)

lemma guard_passed:
  assumes "guard self settlement armed = Ok reservation"
  shows "armed \<longrightarrow> \<not> ex_dry_run self \<and> ex_source self \<noteq> None"
  using assms by (auto simp: guard_def split: settlement.splits if_splits)

text \<open>The specification both calls meet, written out in the two theorems below.\<close>

definition call_spec ::
  "(exec_deed \<Rightarrow> bool) \<Rightarrow> ('a \<Rightarrow> tx_outcome option) \<Rightarrow> 'w executor \<Rightarrow> settlement \<Rightarrow> 'w submission_queue option
   \<Rightarrow> (unit, (executor_error, 'a) result \<times> (wallet_ledger \<Rightarrow> wallet_ledger)) result \<Rightarrow> exec_deed list \<Rightarrow> bool" where
  "call_spec row outcome_in self settlement queue r ev \<longleftrightarrow>
     (\<exists>answer verdict out before sends. r = Ok (answer, wallet_by settlement verdict) \<and> ev = before @ map Posted sends
        \<and> announced row before sends \<and> settled_by queue verdict out sends \<and> says_outcome outcome_in answer out
        \<and> (ex_dry_run self \<or> ex_source self = None \<or> queue = None \<longrightarrow> sends = []))"

lemma call_spec_early:
  assumes "wallet = wallet_by settlement Release" "\<And>a. answer = Ok a \<Longrightarrow> outcome_in a = None"
  shows "call_spec row outcome_in self settlement queue (Ok (answer, wallet)) []"
  unfolding call_spec_def
  by (rule exI [of _ answer], rule exI [of _ Release], rule exI [of _ None], rule exI [of _ "[]"], rule exI [of _ "[]"])
    (use assms in \<open>auto simp: announced_def says_outcome_def\<close>)

lemma call_spec_run:
  assumes "logs m (run_spec row outcome_in queue)" "guard self settlement (queue \<noteq> None) = Ok reservation"
  shows "logs (io_bind m (\<lambda>(answer, settled). io_lift (Ok (answer, settle_reservation reservation settled))))
     (call_spec row outcome_in self settlement queue)"
proof (rule logs_bind [OF assms(1), where Q = "\<lambda>x r ev. r = Ok (fst x, settle_reservation reservation (snd x)) \<and> ev = []"], goal_cases)
  case (1 x)
  then show ?case by (cases x) (auto intro: logs_lift)
next
  case (2 e ev)
  then show ?case by (simp add: run_spec_def)
next
  case (3 x ev r ev')
  then obtain out before sends where "ev = before @ map Posted sends" "announced row before sends"
    "settled_by queue (snd x) out sends" "says_outcome outcome_in (fst x) out"
    by (auto simp: run_spec_def)
  moreover have "sends = []" if "ex_dry_run self \<or> ex_source self = None \<or> queue = None"
    using that guard_passed [OF assms(2)] calculation(3) by (auto simp: settled_by_def)
  ultimately show ?case
    unfolding call_spec_def
    by (intro exI [of _ "fst x"] exI [of _ "snd x"] exI [of _ out] exI [of _ before] exI [of _ sends])
      (use 3 settle_reservation_by [OF assms(2)] in simp)
qed

lemma execute_logs: "logs (execute self plan settlement queue) (call_spec is_row fill_outcome_in self settlement queue)"
proof (cases "guard self settlement (queue \<noteq> None)")
  case (Inl e)
  obtain error wallet where e: "e = (error, wallet)" by fastforce
  show ?thesis unfolding execute_def Inl e sum.case prod.case
    by (rule logs_lift, rule call_spec_early) (use guard_refused Inl e in auto)
next
  case (Inr reservation)
  show ?thesis unfolding execute_def Inr sum.case by (rule call_spec_run [OF executor_run_logs Inr])
qed

lemma unwind_logs:
  "logs (unwind self pool plan settlement queue) (call_spec (\<lambda>d. d = UnwindLogged) unwind_outcome_in self settlement queue)"
proof (cases "guard self settlement (queue \<noteq> None)")
  case (Inl e)
  obtain error wallet where e: "e = (error, wallet)" by fastforce
  show ?thesis unfolding unwind_def Inl e sum.case prod.case
    by (rule logs_lift, rule call_spec_early) (use guard_refused Inl e in auto)
next
  case (Inr reservation)
  show ?thesis
  proof (cases "unwind_is_idle plan")
    case True
    then show ?thesis unfolding unwind_def Inr sum.case
      by (auto intro!: logs_lift call_spec_early settle_reservation_by(2) [OF Inr])
  next
    case False
    show ?thesis unfolding unwind_def Inr sum.case if_not_P [OF False] by (rule call_spec_run [OF run_unwind_logs Inr])
  qed
qed


section \<open>Properties\<close>

lemma call_spec_parts:
  assumes "logs m (call_spec row outcome_in self settlement queue)" "m (s, log) = Some (r, s', log')"
  obtains answer verdict out before sends where "r = Ok (answer, wallet_by settlement verdict)" "log' = log @ before @ map Posted sends"
    "announced row before sends" "settled_by queue verdict out sends" "says_outcome outcome_in answer out"
    "ex_dry_run self \<or> ex_source self = None \<or> queue = None \<longrightarrow> sends = []"
  using logsD [OF assms] unfolding call_spec_def by blast

lemma settled_by_verdict:
  assumes "settled_by queue verdict out sends"
  shows "sends = ys @ x # zs \<and> own_send x \<and> \<not> refused_answer (snd x) \<longrightarrow> zs = []"
    and "verdict = Consume \<or> (\<exists>x \<in> set sends. own_send x \<and> \<not> refused_answer (snd x)) \<longrightarrow>
       (\<exists>q out. queue = Some q \<and> verdict = settle_of out \<and> outcome_of (sq_host q) out sends)"
proof -
  show "sends = ys @ x # zs \<and> own_send x \<and> \<not> refused_answer (snd x) \<longrightarrow> zs = []"
    using assms unfolding settled_by_def final_accept_def by blast
  show "verdict = Consume \<or> (\<exists>x \<in> set sends. own_send x \<and> \<not> refused_answer (snd x)) \<longrightarrow>
       (\<exists>q out. queue = Some q \<and> verdict = settle_of out \<and> outcome_of (sq_host q) out sends)"
  proof (cases out)
    case None
    then show ?thesis using assms by (auto simp: settled_by_def own_refused_def)
  next
    case (Some o')
    then have "\<exists>q. queue = Some q \<and> verdict = settle_of o' \<and> outcome_of (sq_host q) o' sends"
      using assms by (simp add: settled_by_def)
    then show ?thesis by blast
  qed
qed




section \<open>A concrete fill\<close>

definition sample_executor :: "bool \<Rightarrow> (nat \<times> string list) executor" where
  "sample_executor dry_run = \<lparr>ex_fault = (\<lambda>w. (None, w)), ex_host = sample_host, ex_config = sample_tx_config,
     ex_source = Some ''G'', ex_dry_run = dry_run, ex_lib = \<lparr>xl_address = Ok, xl_sorted = Ok\<rparr>, ex_invoke = (\<lambda>_. ''f'')\<rparr>"

definition sample_queue :: "(nat \<times> string list) submission_queue" where
  "sample_queue = \<lparr>sq_admit = (\<lambda>w. (True, w)), sq_recv = (\<lambda>_. (999999, sample_bodies)), sq_host = sample_host,
     sq_config = sample_tx_config, sq_policy = RetryPolicy_DEFAULT\<rparr>"

definition sample_fill_plan :: fill_plan where
  "sample_fill_plan = \<lparr>fq_pool = ''P'', fq_user = ''U'', fq_draft = \<lparr>fd_fill_ledger = 9, fd_percent = FillPercent 50,
     fd_actions = [FillRepay ''XLM'' 5], fd_to_fill = \<lparr>ad_bid = [(''XLM'', 5)], ad_lot = [(''XLM'', 6)], ad_block = 1\<rparr>,
     fd_lot_value = 6, fd_bid_value = 5, fd_est_profit = 1, fd_spend = [(''XLM'', 5)], fd_projected_health = None\<rparr>,
     fq_priority = Normal\<rparr>"

lemma sample_submitted:
  assumes "sb_operation s = InvokeHostFunction ''f'' []" "sb_priority s = Normal"
  shows "queue_submit sample_queue s ((w, db), log)
     = Some (Ok (Unknown sample_hash 8 sample_window), ((1000999, []), db), log @ map Posted sample_log)"
proof -
  have "attempt sample_host sample_tx_config RetryPolicy_DEFAULT s ((999999, sample_bodies), [])
      = Some (Ok (Unknown sample_hash 8 sample_window), (1000999, []), sample_log)"
    using assms by (simp add: attempt_def io_bind_def io_try_def sample_prepare sample_sent sample_resolve)
  then have "submit_until_settled sample_host sample_tx_config RetryPolicy_DEFAULT s ((999999, sample_bodies), [])
      = Some (Ok (Unknown sample_hash 8 sample_window), (1000999, []), sample_log)"
    by (simp add: submit_until_settled_def settle_loop.simps)
  moreover have "\<not> ho_shutdown sample_host (999999, sample_bodies)" by (simp add: sample_host_def)
  ultimately show ?thesis by (simp add: queue_submit_def sample_queue_def enqueue_def Let_def)
qed

lemma sample_judged:
  "simulate_only sample_host sample_tx_config (InvokeHostFunction ''f'' []) ((0, [[]]), []) = Some (Ok Accepted, (0, []), [])"
  by (simp add: simulate_only_def simulate_call_def unsigned_tx_def unix_now_def rpc_simulate_def
      io_bind_def io_op_def io_lift_def io_try_def sample_world_defs eval_simps checked_add_i64_def ledger_window_try_new_def
      TIME_BOUND_SECS_def Let_def)

lemma sample_requests: "\<exists>rs. rmap_list (request \<lparr>xl_address = Ok, xl_sorted = Ok\<rparr>) requests = Ok rs \<and> length rs = length requests"
proof (induction requests)
  case (Cons r requests)
  moreover have "\<exists>v. request \<lparr>xl_address = Ok, xl_sorted = Ok\<rparr> r = Ok v"
    by (simp add: request_def symbol_def address_def sc_address_def xdr_lib_result_def sc_map_def)
  ultimately show ?case by auto
qed simp

lemma sample_judge:
  assumes "length requests \<le> u32_max"
  shows "judge_operation (sample_executor dry) ''P'' requests armed (((0, [[]]), db), log)
     = Some (Ok (JudgedAccepted (InvokeHostFunction ''f'' [])), ((0, []), db), log)"
proof -
  obtain rs where "rmap_list (request \<lparr>xl_address = Ok, xl_sorted = Ok\<rparr>) requests = Ok rs" "length rs = length requests"
    using sample_requests by blast
  then have "\<exists>call. submit_op \<lparr>xl_address = Ok, xl_sorted = Ok\<rparr> ''P'' ''G'' ''G'' ''G'' requests = Ok call"
    using assms by (simp add: submit_op_def invoke_contract_op_def symbol_def address_def sc_address_def xdr_lib_result_def sc_vec_def
        u32_max_def)
  then obtain call where "submit_op \<lparr>xl_address = Ok, xl_sorted = Ok\<rparr> ''P'' ''G'' ''G'' ''G'' requests = Ok call" by blast
  then show ?thesis
    by (simp add: judge_operation_def sample_executor_def io_run io_map_err_def io_try_def posting_def sample_judged)
qed

lemma sample_enqueued:
  assumes "sb_operation s = InvokeHostFunction ''f'' []" "sb_priority s = Normal"
  shows "executor_enqueue sample_queue s ((w, db), log)
     = Some (Ok (Ok (LandedOutcome (Unknown sample_hash 8 sample_window)), Consume), ((1000999, []), db), log @ map Posted sample_log)"
  by (simp add: executor_enqueue_def io_try_def sample_submitted [OF assms] io_lift_def settle_of_def)

lemma sample_execute:
  "\<exists>rec s'. execute (sample_executor False) sample_fill_plan (Live r) (Some sample_queue) (((0, [[]]), empty_tables), [])
     = Some (Ok (Ok (Recorded rec), \<lambda>l. consume l r), s', [RowWritten 1, Posted (hd sample_log)])
     \<and> fc_submission rec = Some (Unknown sample_hash 8 sample_window)"
proof -
  have "guard (sample_executor False) (Live r) True = Ok (Some r)" by (simp add: guard_def sample_executor_def)
  moreover have "judge_fill (sample_executor False) sample_fill_plan True (((0, [[]]), empty_tables), [])
      = Some (Ok (FillAccepted (InvokeHostFunction ''f'' [])), ((0, []), empty_tables), [])"
    by (simp add: judge_fill_def fill_requests_def request_fill_def sample_fill_plan_def io_run sample_judge u32_max_def)
  ultimately show ?thesis
    by (simp add: execute_def executor_run_def io_run io_try_def record_and_submit_def statement_def sample_executor_def
        record_fill_def fill_record_of_def sample_fill_plan_def percent_to_code_def percent_allowed_def Let_def empty_tables_def
        noting_def submit_recorded_def sample_enqueued attach_fill_tx_def count_rows_def unsent_fill_def recorded_def
        settle_reservation_def [abs_def])
qed


definition sample_unwind_pass :: unwind_plan where
  "sample_unwind_pass = \<lparr>up_actions = [UnwindWithdrawAll ''XLM''], up_spend = [], up_remaining_liabilities = [], up_projected_health = None\<rparr>"

lemma sample_unwind_run:
  "\<exists>s'. unwind (sample_executor False) ''P'' sample_unwind_pass (Live r) (Some sample_queue) (((0, [[]]), empty_tables), [])
     = Some (Ok (Ok (UnwindSubmitted (Unknown sample_hash 8 sample_window)), \<lambda>l. consume l r), s', [UnwindLogged, Posted (hd sample_log)])"
proof -
  have "guard (sample_executor False) (Live r) True = Ok (Some r)" by (simp add: guard_def sample_executor_def)
  then show ?thesis
    by (simp add: unwind_def run_unwind_def unwind_requests_def sample_unwind_pass_def unwind_is_idle_def io_run io_try_def
        sample_judge u32_max_def log_and_unwind_def noting_def submit_unwind_def sample_enqueued settle_reservation_def [abs_def])
qed


end
