(* ===== verification/Auctioneer.thy ===== *)
theory Auctioneer
  imports Tracker Executor "HOL-Library.Sublist"
begin

text \<open>
  \<open>src/auctioneer.rs\<close>: which borrowers are liquidatable, what to do about each, and doing it; and
  the oracle scan that has borrowers looked at again when a price moves against them. Shown here:
  a decision follows from the same snapshot, instant and rounding as the health factor the
  tracker stores; a creation is recorded before it is posted, at a percent the contract accepted
  within reach of the plan's; and a price move is reported exactly when it is
  large enough, with every borrower it hurts flagged.
\<close>

section \<open>Deciding\<close>

definition INVALID_LIQ_TOO_LARGE :: nat where
  "INVALID_LIQ_TOO_LARGE = 1213"

definition INVALID_LIQ_TOO_SMALL :: nat where
  "INVALID_LIQ_TOO_SMALL = 1214"

definition AUCTION_IN_PROGRESS :: nat where
  "AUCTION_IN_PROGRESS = 1212"

datatype skip_reason = Healthy | AuctionOpen | NoPlan | OwnAccount | NoLiabilities

datatype decision = Liquidate liquidation_plan | DecideBadDebt | Skip skip_reason

record auctioneer_config =
  ak_liquidation_health_factor :: int
  ak_target_health_factor :: int
  ak_plan_iterations :: nat
  ak_dry_run :: bool
  ak_own_addresses :: "string set"

datatype auctioneer_error =
    AuctChain chain_error
  | AuctStore store_error
  | AuctMath math_error
  | AuctQueue queue_error

text \<open>The auctioneer's handles, as the executor's; \<open>au_source\<close> is set when a key is configured.\<close>

record 'w auctioneer =
  au_reads :: "'w reads"
  au_fault :: "'w connection"
  au_config :: auctioneer_config
  au_host :: "'w host"
  au_tx :: tx_config
  au_source :: "string option"
  au_lib :: xdr_lib
  au_invoke :: "contract_call \<Rightarrow> string"

definition au_chain :: "('w, 'a) fetch \<Rightarrow> ('w, chain_error, 'a) exec" where
  "au_chain m = (\<lambda>((w, db), log).
     case m (w, []) of
       None \<Rightarrow> None
     | Some (r, w, _) \<Rightarrow> Some (r, (w, db), log))"

definition au_store :: "'w auctioneer \<Rightarrow> (tables \<Rightarrow> 'a store_result \<times> tables) \<Rightarrow> ('w, auctioneer_error, 'a) exec" where
  "au_store self q = io_map_err AuctStore (statement (au_fault self) q)"

definition as_math :: "'a math_result \<Rightarrow> (auctioneer_error, 'a) result" where
  "as_math r = (case r of Inl e \<Rightarrow> Err (AuctMath e) | Inr x \<Rightarrow> Ok x)"

definition as_chain :: "'a chain_result \<Rightarrow> (auctioneer_error, 'a) result" where
  "as_chain r = (case r of Inl e \<Rightarrow> Err (AuctChain e) | Inr x \<Rightarrow> Ok x)"

definition is_own_account :: "'w auctioneer \<Rightarrow> string \<Rightarrow> string \<Rightarrow> bool" where
  "is_own_account self pool account \<longleftrightarrow> account = pool \<or> account \<in> ak_own_addresses (au_config self)"

text \<open>\<open>decide_one\<close> once it is known that no auction is open.\<close>

definition decide_position ::
  "auctioneer_config \<Rightarrow> string \<Rightarrow> pool_snapshot \<Rightarrow> (nat, reserve) btree \<Rightarrow> nat \<Rightarrow> (auctioneer_error, decision) result" where
  "decide_position config account snap reserves at =
     rbind (as_chain (snapshot_position_data snap account at)) (\<lambda>data.
     case data of
       None \<Rightarrow> Ok (Skip NoLiabilities)
     | Some data \<Rightarrow>
         if 0 < pd_liability_base data \<and> pd_collateral_raw data = 0 then Ok DecideBadDebt
         else
           rbind (as_math (health_factor data)) (\<lambda>health.
           case health of
             None \<Rightarrow> Ok (Skip NoLiabilities)
           | Some health \<Rightarrow>
               rbind (as_math (mul_floor health SCALAR_7 (pd_scalar data))) (\<lambda>hf.
               if ak_liquidation_health_factor config < hf then Ok (Skip Healthy)
               else
                 (case bt_get (sn_positions snap) account of
                    None \<Rightarrow> Ok (Skip NoLiabilities)
                  | Some positions \<Rightarrow>
                      rbind (as_math (position_values reserves (sn_prices snap) positions)) (\<lambda>(collateral, liabilities).
                      rbind (as_math (plan_liquidation data collateral liabilities (ak_target_health_factor config)
                        (po_max_positions (pi_config (sn_instance snap))))) (\<lambda>plan.
                      Ok (case plan of Some plan \<Rightarrow> Liquidate plan | None \<Rightarrow> Skip NoPlan)))))))"

definition decide_one ::
  "'w auctioneer \<Rightarrow> string \<Rightarrow> string \<Rightarrow> pool_snapshot \<Rightarrow> (nat, reserve) btree \<Rightarrow> nat \<Rightarrow> ('w, auctioneer_error, decision) exec" where
  "decide_one self pool account snap reserves at =
     (if is_own_account self pool account then io_lift (Ok (Skip OwnAccount))
      else
        io_bind (au_store self (select_only (store_auction pool account UserLiquidation))) (\<lambda>found.
        if found \<noteq> None then io_lift (Ok (Skip AuctionOpen))
        else io_lift (decide_position (au_config self) account snap reserves at)))"

text \<open>
  The loop over the users: an account of the bot's own has its decision already, a user that cannot be
  decided has none, and a store failure ends the batch.
\<close>

fun decide_each ::
  "'w auctioneer \<Rightarrow> string \<Rightarrow> pool_snapshot \<Rightarrow> (nat, reserve) btree \<Rightarrow> nat \<Rightarrow> string list
   \<Rightarrow> ('w, auctioneer_error, (string \<times> decision) list) exec" where
  "decide_each self pool snap reserves at [] = io_lift (Ok [])"
| "decide_each self pool snap reserves at (account # accounts) =
     (if is_own_account self pool account then
        io_bind (decide_each self pool snap reserves at accounts) (\<lambda>rest.
        io_lift (Ok ((account, Skip OwnAccount) # rest)))
      else
        io_try (decide_one self pool account snap reserves at) (\<lambda>r.
        case r of
          Inr decision \<Rightarrow>
            io_bind (decide_each self pool snap reserves at accounts) (\<lambda>rest. io_lift (Ok ((account, decision) # rest)))
        | Inl (AuctStore error) \<Rightarrow> io_lift (Err (AuctStore error))
        | Inl _ \<Rightarrow> decide_each self pool snap reserves at accounts))"

definition decide ::
  "'w auctioneer \<Rightarrow> string \<Rightarrow> tracked_user list \<Rightarrow> ledger_tick \<Rightarrow> ('w, auctioneer_error, (string \<times> decision) list) exec" where
  "decide self pool users tick =
     (let accounts = map tu_account users; pending = filter (\<lambda>a. \<not> is_own_account self pool a) accounts in
      if accounts = [] then io_lift (Ok [])
      else if pending = [] then io_lift (Ok (map (\<lambda>a. (a, Skip OwnAccount)) accounts))
      else
        io_bind (io_map_err AuctChain (au_chain (snapshot (au_reads self) pool pending))) (\<lambda>snap.
        let at = valued_at snap (lt_close_time tick) in
        io_bind (io_lift (as_math (accrued_reserves snap at))) (\<lambda>reserves.
        decide_each self pool snap reserves at accounts)))"

section \<open>Acting\<close>

record creation_outcome =
  co_kind :: creation_kind
  co_account :: string
  co_percent :: "fill_percent option"
  co_simulated :: bool
  co_creation_id :: int
  co_dry_run :: bool
  co_submission :: "tx_outcome option"

definition creation_submitted :: "creation_outcome \<Rightarrow> bool" where
  "creation_submitted self \<longleftrightarrow> co_submission self \<noteq> None"

definition creation_tx_hash :: "creation_outcome \<Rightarrow> tx_hash option" where
  "creation_tx_hash self = map_option tx_outcome_hash (co_submission self)"

definition creation_succeeded :: "creation_outcome \<Rightarrow> bool" where
  "creation_succeeded self = (case co_submission self of Some (Succeeded _ _ _) \<Rightarrow> True | _ \<Rightarrow> False)"

datatype act_outcome = ActSkipped skip_reason | ActRefused | ActRecorded creation_outcome

fun act_settled :: "act_outcome \<Rightarrow> bool" where
  "act_settled (ActSkipped _) = True"
| "act_settled ActRefused = False"
| "act_settled (ActRecorded out) =
     (case co_submission out of
        Some submission \<Rightarrow> (case submission of Succeeded _ _ _ \<Rightarrow> True | _ \<Rightarrow> False)
      | None \<Rightarrow> co_dry_run out)"

fun act_recorded :: "act_outcome \<Rightarrow> creation_outcome option" where
  "act_recorded (ActRecorded out) = Some out"
| "act_recorded _ = None"

definition build_op :: "'w auctioneer \<Rightarrow> contract_call xdr_result \<Rightarrow> (auctioneer_error, operation) result" where
  "build_op self call = (case call of Inl e \<Rightarrow> Err (AuctChain (Xdr e)) | Inr call \<Rightarrow> Ok (InvokeHostFunction (au_invoke self call) []))"

definition au_simulate :: "'w auctioneer \<Rightarrow> operation \<Rightarrow> ('w, auctioneer_error, tx_judgment) exec" where
  "au_simulate self operation = io_map_err AuctChain (posting (simulate_only (au_host self) (au_tx self) operation))"

definition accept_bad_debt :: "'w auctioneer \<Rightarrow> operation \<Rightarrow> ('w, auctioneer_error, bool option) exec" where
  "accept_bad_debt self operation =
     (case au_source self of
        None \<Rightarrow> io_lift (Ok (Some False))
      | Some _ \<Rightarrow>
          io_bind (au_simulate self operation) (\<lambda>judgment.
          io_lift (Ok (case judgment of Accepted \<Rightarrow> Some True | Refused _ _ \<Rightarrow> None | NeedsRestore \<Rightarrow> None))))"

definition adopt :: "'w auctioneer \<Rightarrow> string \<Rightarrow> string \<Rightarrow> ('w, auctioneer_error, unit) exec" where
  "adopt self pool account =
     io_try (au_chain (read_auction (au_reads self) pool account UserLiquidation)) (\<lambda>found.
     case found of
       Inr (Some (at, auction)) \<Rightarrow>
         au_store self (upsert_auction (chain_auction pool account UserLiquidation auction at))
     | Inr None \<Rightarrow> io_lift (Ok ())
     | Inl _ \<Rightarrow> io_lift (Ok ()))"

type_synonym accepted = "(fill_percent \<times> operation \<times> bool) option"

definition refuse_percent :: "'w auctioneer \<Rightarrow> string \<Rightarrow> string \<Rightarrow> nat option \<Rightarrow> ('w, auctioneer_error, accepted) exec" where
  "refuse_percent self pool account contract_error =
     io_bind (if contract_error = Some AUCTION_IN_PROGRESS then adopt self pool account else io_lift (Ok ())) (\<lambda>_.
     io_lift (Ok None))"

definition build_auction ::
  "'w auctioneer \<Rightarrow> string \<Rightarrow> string \<Rightarrow> liquidation_plan \<Rightarrow> fill_percent \<Rightarrow> (auctioneer_error, operation) result" where
  "build_auction self pool account plan percent =
     build_op self (new_auction_op (au_lib self) pool account (lp_bid plan) (lp_lot plan) percent)"

text \<open>The walk of \<open>accept_percent\<close>, on the iterations left.\<close>

fun percent_walk ::
  "'w auctioneer \<Rightarrow> string \<Rightarrow> string \<Rightarrow> liquidation_plan \<Rightarrow> nat \<Rightarrow> fill_percent \<Rightarrow> ('w, auctioneer_error, accepted) exec" where
  "percent_walk self pool account plan 0 percent = io_lift (Ok None)"
| "percent_walk self pool account plan (Suc n) percent =
     io_bind (io_lift (build_auction self pool account plan percent)) (\<lambda>operation.
     io_bind (au_simulate self operation) (\<lambda>judgment.
     case judgment of
       Accepted \<Rightarrow> io_lift (Ok (Some (percent, operation, True)))
     | Refused contract_error message \<Rightarrow>
         if contract_error = Some INVALID_LIQ_TOO_SMALL then
           (case Option.bind (checked_add_u32 (fp_get percent) 1) fill_percent_try_from of
              Some next \<Rightarrow> percent_walk self pool account plan n next
            | None \<Rightarrow> io_lift (Ok None))
         else if contract_error = Some INVALID_LIQ_TOO_LARGE then
           (case Option.bind (checked_sub_unsigned (fp_get percent) 1) fill_percent_try_from of
              Some next \<Rightarrow> percent_walk self pool account plan n next
            | None \<Rightarrow> io_lift (Ok None))
         else refuse_percent self pool account contract_error
     | NeedsRestore \<Rightarrow> io_lift (Ok None)))"

definition accept_percent ::
  "'w auctioneer \<Rightarrow> string \<Rightarrow> string \<Rightarrow> liquidation_plan \<Rightarrow> ('w, auctioneer_error, accepted) exec" where
  "accept_percent self pool account plan =
     (case au_source self of
        None \<Rightarrow> io_lift (rbind (build_auction self pool account plan (lp_percent plan)) (\<lambda>operation.
          Ok (Some (lp_percent plan, operation, False))))
      | Some _ \<Rightarrow> percent_walk self pool account plan (ak_plan_iterations (au_config self)) (lp_percent plan))"

definition kind_text :: "creation_kind \<Rightarrow> string" where
  "kind_text kind = (case kind of CreateAuction \<Rightarrow> ''Auction'' | CreateBadDebt \<Rightarrow> ''BadDebt'')"

definition submit_creation ::
  "'w auctioneer \<Rightarrow> 'w submission_queue \<Rightarrow> int \<Rightarrow> creation_record \<Rightarrow> operation \<Rightarrow> ('w, auctioneer_error, tx_outcome) exec" where
  "submit_creation self queue creation_id rec operation =
     io_bind (io_map_err AuctQueue (queue_submit queue \<lparr>sb_operation = operation, sb_priority = Normal,
        sb_label = kind_text (cr_kind rec) @ '' '' @ cr_account rec @ '' on '' @ cr_pool rec, sb_retries = CREATION_RETRIES\<rparr>)) (\<lambda>out.
     io_bind (au_store self (total (attach_creation_tx creation_id (to_hex (tx_outcome_hash out))))) (\<lambda>_.
     io_lift (Ok out)))"

text \<open>What \<open>act\<close> is going to record: kind, percent, assets, operation, and whether the contract was asked.\<close>

record creation_draft =
  cd_kind :: creation_kind
  cd_percent :: "fill_percent option"
  cd_bid :: "string list"
  cd_lot :: "string list"
  cd_operation :: operation
  cd_simulated :: bool

definition draft_creation ::
  "'w auctioneer \<Rightarrow> string \<Rightarrow> string \<Rightarrow> decision \<Rightarrow> ('w, auctioneer_error, act_outcome + creation_draft) exec" where
  "draft_creation self pool account decision =
     (case decision of
        Skip reason \<Rightarrow> io_lift (Ok (Inl (ActSkipped reason)))
      | DecideBadDebt \<Rightarrow>
          io_bind (io_lift (build_op self (bad_debt_op (au_lib self) pool account))) (\<lambda>operation.
          io_bind (accept_bad_debt self operation) (\<lambda>accepted.
          io_lift (Ok (case accepted of
             None \<Rightarrow> Inl ActRefused
           | Some simulated \<Rightarrow> Inr \<lparr>cd_kind = CreateBadDebt, cd_percent = None, cd_bid = [], cd_lot = [],
               cd_operation = operation, cd_simulated = simulated\<rparr>))))
      | Liquidate plan \<Rightarrow>
          io_bind (accept_percent self pool account plan) (\<lambda>accepted.
          io_lift (Ok (case accepted of
             None \<Rightarrow> Inl ActRefused
           | Some (percent, operation, simulated) \<Rightarrow> Inr \<lparr>cd_kind = CreateAuction, cd_percent = Some percent,
               cd_bid = lp_bid plan, cd_lot = lp_lot plan, cd_operation = operation, cd_simulated = simulated\<rparr>))))"

definition record_draft ::
  "'w auctioneer \<Rightarrow> string \<Rightarrow> string \<Rightarrow> ledger_tick \<Rightarrow> 'w submission_queue option \<Rightarrow> creation_draft \<Rightarrow> ('w, auctioneer_error, act_outcome) exec" where
  "record_draft self pool account tick submit draft =
     (let rec = \<lparr>cr_kind = cd_kind draft, cr_pool = pool, cr_account = account, cr_percent = cd_percent draft,
          cr_bid = cd_bid draft, cr_lot = cd_lot draft, cr_ledger = lt_sequence tick,
          cr_dry_run = ak_dry_run (au_config self), cr_tx_hash = None\<rparr> in
      io_bind (au_store self (record_creation rec)) (\<lambda>creation_id.
      io_bind (noting (RowWritten creation_id)) (\<lambda>_.
      io_bind (case submit of
                 Some queue \<Rightarrow> io_bind (submit_creation self queue creation_id rec (cd_operation draft)) (\<lambda>out. io_lift (Ok (Some out)))
               | None \<Rightarrow> io_lift (Ok None)) (\<lambda>submission.
      io_lift (Ok (ActRecorded \<lparr>co_kind = cd_kind draft, co_account = account, co_percent = cd_percent draft,
        co_simulated = cd_simulated draft, co_creation_id = creation_id, co_dry_run = cr_dry_run rec,
        co_submission = submission\<rparr>))))))"

definition auctioneer_act ::
  "'w auctioneer \<Rightarrow> string \<Rightarrow> string \<Rightarrow> decision \<Rightarrow> ledger_tick \<Rightarrow> 'w submission_queue option \<Rightarrow> ('w, auctioneer_error, act_outcome) exec" where
  "auctioneer_act self pool account decision tick submit =
     (if submit \<noteq> None \<and> au_source self = None then
        io_lift (Err (AuctChain (Config ''a submission queue was given to an auctioneer with no signer, so nothing could be judged before it was sent'')))
      else if submit \<noteq> None \<and> ak_dry_run (au_config self) then
        io_lift (Err (AuctChain (Config ''a submission queue was given to a dry-run auctioneer; dry-run sends nothing, so the queue is refused rather than used'')))
      else
        io_bind (draft_creation self pool account decision) (\<lambda>drafted.
        case drafted of
          Inl out \<Rightarrow> io_lift (Ok out)
        | Inr draft \<Rightarrow> record_draft self pool account tick submit draft))"

section \<open>Watching prices\<close>

datatype direction = PriceUp | PriceDown

record price_move =
  pm_asset :: string
  pm_direction :: direction

record reference =
  rf_price :: int
  rf_set_at :: nat

definition moved_direction :: "int \<Rightarrow> int \<Rightarrow> nat \<Rightarrow> direction option math_result" where
  "moved_direction price reference threshold_bps =
     rbind (ok_or Overflow (if reference \<le> price then checked_sub price reference else checked_sub reference price)) (\<lambda>diff.
     rbind (div_floor diff reference 10000) (\<lambda>delta_bps.
     if delta_bps < int threshold_bps then Ok None
     else Ok (Some (if reference < price then PriceUp else PriceDown))))"

record price_watch =
  pw_delta_bps :: nat
  pw_stale_after :: nat
  pw_references :: "(string, (string, reference) btree) btree"

definition price_watch_new :: "nat \<Rightarrow> nat \<Rightarrow> price_watch" where
  "price_watch_new delta_bps stale_after = \<lparr>pw_delta_bps = delta_bps, pw_stale_after = stale_after, pw_references = []\<rparr>"

text \<open>One turn of the loop of \<open>moved\<close>: the pool's references and the moves so far.\<close>

definition watch_price ::
  "price_watch \<Rightarrow> nat \<Rightarrow> string \<times> int \<Rightarrow> (string, reference) btree \<times> price_move list \<Rightarrow> (string, reference) btree \<times> price_move list" where
  "watch_price self now = (\<lambda>(asset, price) (references, moves).
     let anchored = bt_insert asset \<lparr>rf_price = price, rf_set_at = now\<rparr> references in
     (case bt_get references asset of
        None \<Rightarrow> (anchored, moves)
      | Some reference \<Rightarrow>
          (case moved_direction price (rf_price reference) (pw_delta_bps self) of
             Inr (Some direction) \<Rightarrow> (anchored, moves @ [\<lparr>pm_asset = asset, pm_direction = direction\<rparr>])
           | Inr None \<Rightarrow>
               (case checked_sub_unsigned now (rf_set_at reference) of
                  Some elapsed \<Rightarrow> if pw_stale_after self \<le> elapsed then (anchored, moves) else (references, moves)
                | None \<Rightarrow> (references, moves))
           | Inl _ \<Rightarrow> (references, moves))))"

definition pool_references :: "price_watch \<Rightarrow> string \<Rightarrow> (string, reference) btree" where
  "pool_references self pool = (case bt_get (pw_references self) pool of None \<Rightarrow> [] | Some references \<Rightarrow> references)"

definition watch_moved :: "price_watch \<Rightarrow> string \<Rightarrow> oracle_prices \<Rightarrow> nat \<Rightarrow> price_move list \<times> price_watch" where
  "watch_moved self pool prices now =
     (case fold (watch_price self now) (op_prices prices) (pool_references self pool, []) of
        (references, moves) \<Rightarrow> (moves, self\<lparr>pw_references := bt_insert pool references (pw_references self)\<rparr>))"

definition hurt_side :: "direction \<Rightarrow> side" where
  "hurt_side direction = (case direction of PriceUp \<Rightarrow> LiabilitySide | PriceDown \<Rightarrow> CollateralSide)"

fun flag_moves ::
  "'w auctioneer \<Rightarrow> string \<Rightarrow> pool_snapshot \<Rightarrow> ledger_tick \<Rightarrow> price_move list \<Rightarrow> nat \<Rightarrow> ('w, auctioneer_error, nat) exec" where
  "flag_moves self pool snap tick [] flagged = io_lift (Ok flagged)"
| "flag_moves self pool snap tick (price_move # moves) flagged =
     (case bt_get (sn_asset_index snap) (pm_asset price_move) of
        None \<Rightarrow> flag_moves self pool snap tick moves flagged
      | Some index \<Rightarrow>
          io_bind (au_store self (total (flag_exposed_to pool index (hurt_side (pm_direction price_move)) (lt_sequence tick)))) (\<lambda>count.
          flag_moves self pool snap tick moves (min (flagged + count) u64_max)))"

text \<open>\<open>scan_oracle\<close>: its answer, and the watch, which keeps its new references when a write fails.\<close>

definition scan_oracle ::
  "'w auctioneer \<Rightarrow> string \<Rightarrow> price_watch \<Rightarrow> ledger_tick \<Rightarrow> ('w, unit, (auctioneer_error, nat) result \<times> price_watch) exec" where
  "scan_oracle self pool watch tick =
     io_try (au_chain (snapshot (au_reads self) pool [])) (\<lambda>r.
     case r of
       Inl e \<Rightarrow> io_lift (Ok (Err (AuctChain e), watch))
     | Inr snap \<Rightarrow>
         (case watch_moved watch pool (sn_prices snap) (lt_close_time tick) of
            (moves, watch) \<Rightarrow>
              io_try (flag_moves self pool snap tick moves 0) (\<lambda>flagged. io_lift (Ok (flagged, watch)))))"


section \<open>What acting does\<close>

text \<open>Asking the contract posts nothing and writes nothing.\<close>

lemma au_simulate_keeps:
  assumes "au_simulate self operation ((w, db), log) = Some (r, (w', db'), log')"
  shows "db' = db \<and> log' = log"
proof -
  from assms obtain r0 sends where "simulate_only (au_host self) (au_tx self) operation (w, []) = Some (r0, w', sends)"
    and *: "db' = db" "log' = log @ map Posted sends"
    by (auto simp: au_simulate_def posting_def elim!: io_map_err_cases split: option.splits prod.splits)
  then have "sends = []" using logsD [OF quiet_simulate_only] by fastforce
  with * show ?thesis by simp
qed

lemma io_lift_eq [simp]: "io_lift r s = Some (r', s') \<longleftrightarrow> r = r' \<and> s = s'"
  by (auto simp: io_lift_def)

lemma refuse_percent_none: "refuse_percent self pool account code s \<noteq> Some (Ok (Some x), s')"
  by (auto simp: refuse_percent_def io_bind_def split: option.splits sum.splits)

text \<open>
  The percent the walk ends on is one the contract has just accepted, fewer than the
  iterations away from where the walk began.
\<close>

definition accepted_at :: "'w auctioneer \<Rightarrow> operation \<Rightarrow> tables \<Rightarrow> exec_deed list \<Rightarrow> 'w \<Rightarrow> bool" where
  "accepted_at self operation db log w \<longleftrightarrow> (\<exists>w0. au_simulate self operation ((w0, db), log) = Some (Ok Accepted, (w, db), log))"

lemma try_from_range: "fill_percent_try_from v = Some p \<Longrightarrow> fp_get p = v \<and> 1 \<le> fp_get p \<and> fp_get p \<le> 100"
  by (auto simp: fill_percent_try_from_def split: if_splits)

lemma percent_up:
  assumes "Option.bind (checked_add_u32 (fp_get p) 1) fill_percent_try_from = Some q"
  shows "\<bar>int (fp_get q) - int (fp_get p)\<bar> \<le> 1 \<and> 1 \<le> fp_get q \<and> fp_get q \<le> 100"
  using assms by (auto simp: bind_eq_Some_conv dest!: try_from_range)

lemma percent_down:
  assumes "Option.bind (checked_sub_unsigned (fp_get p) 1) fill_percent_try_from = Some q"
  shows "\<bar>int (fp_get q) - int (fp_get p)\<bar> \<le> 1 \<and> 1 \<le> fp_get q \<and> fp_get q \<le> 100"
  using assms by (auto simp: bind_eq_Some_conv dest!: try_from_range)

lemma percent_walk_accepts:
  assumes "percent_walk self pool account plan n percent ((w, db), log) = Some (Ok (Some (p, operation, simulated)), (w', db'), log')"
    and "1 \<le> fp_get percent \<and> fp_get percent \<le> 100"
  shows "simulated \<and> db' = db \<and> log' = log \<and> 1 \<le> fp_get p \<and> fp_get p \<le> 100
     \<and> \<bar>int (fp_get p) - int (fp_get percent)\<bar> < int n
     \<and> build_auction self pool account plan p = Ok operation \<and> accepted_at self operation db log w'"
  using assms
proof (induction n arbitrary: percent w)
  case (Suc n)
  from Suc.prems(1) obtain op where build: "build_auction self pool account plan percent = Ok op"
    and "io_bind (au_simulate self op) (\<lambda>judgment.
     case judgment of
       Accepted \<Rightarrow> io_lift (Ok (Some (percent, op, True)))
     | Refused contract_error message \<Rightarrow>
         if contract_error = Some INVALID_LIQ_TOO_SMALL then
           (case Option.bind (checked_add_u32 (fp_get percent) 1) fill_percent_try_from of
              Some next \<Rightarrow> percent_walk self pool account plan n next
            | None \<Rightarrow> io_lift (Ok None))
         else if contract_error = Some INVALID_LIQ_TOO_LARGE then
           (case Option.bind (checked_sub_unsigned (fp_get percent) 1) fill_percent_try_from of
              Some next \<Rightarrow> percent_walk self pool account plan n next
            | None \<Rightarrow> io_lift (Ok None))
         else refuse_percent self pool account contract_error
     | NeedsRestore \<Rightarrow> io_lift (Ok None)) ((w, db), log) = Some (Ok (Some (p, operation, simulated)), (w', db'), log')"
    by (cases "build_auction self pool account plan percent") (auto simp: io_bind_def io_lift_def)
  from this(2) show ?case
  proof (cases rule: io_bind_track)
    case (passed jd w1 db1 log1)
    note kept = au_simulate_keeps [OF passed(1)]
    show ?thesis
    proof (cases jd)
      case Accepted
      then show ?thesis using passed kept Suc.prems(2) build by (auto simp: accepted_at_def)
    next
      case (Refused code message)
      obtain nxt where walk: "percent_walk self pool account plan n nxt ((w1, db), log) = Some (Ok (Some (p, operation, simulated)), (w', db'), log')"
        and near: "\<bar>int (fp_get nxt) - int (fp_get percent)\<bar> \<le> 1" "1 \<le> fp_get nxt \<and> fp_get nxt \<le> 100"
      proof (cases "code = Some INVALID_LIQ_TOO_SMALL")
        case True
        then show thesis using that passed(2) kept Refused percent_up [of percent] by (auto split: option.splits)
      next
        case small: False
        show thesis
        proof (cases "code = Some INVALID_LIQ_TOO_LARGE")
          case True
          with small show thesis using that passed(2) kept Refused percent_down [of percent] by (auto split: option.splits)
        next
          case False
          with small show thesis using passed(2) Refused refuse_percent_none by fastforce
        qed
      qed
      show ?thesis using Suc.IH [OF walk near(2)] near(1) by auto
    next
      case NeedsRestore
      then show ?thesis using passed(2) by simp
    qed
  qed simp
qed simp



text \<open>What is drafted for a decision: the operation it calls for, accepted by the contract if there is a key to ask with.\<close>

definition drafted :: "'w auctioneer \<Rightarrow> string \<Rightarrow> string \<Rightarrow> decision \<Rightarrow> creation_draft \<Rightarrow> bool" where
  "drafted self pool account decision draft \<longleftrightarrow>
     (case decision of
        Skip _ \<Rightarrow> False
      | DecideBadDebt \<Rightarrow> cd_kind draft = CreateBadDebt \<and> cd_percent draft = None \<and> cd_bid draft = [] \<and> cd_lot draft = []
          \<and> build_op self (bad_debt_op (au_lib self) pool account) = Ok (cd_operation draft)
      | Liquidate plan \<Rightarrow> cd_kind draft = CreateAuction \<and> cd_bid draft = lp_bid plan \<and> cd_lot draft = lp_lot plan
          \<and> (\<exists>p. cd_percent draft = Some p \<and> 1 \<le> fp_get p \<and> fp_get p \<le> 100
               \<and> build_auction self pool account plan p = Ok (cd_operation draft)
               \<and> (if au_source self = None then p = lp_percent plan
                  else \<bar>int (fp_get p) - int (fp_get (lp_percent plan))\<bar> < int (ak_plan_iterations (au_config self)))))"

definition percent_of :: "decision \<Rightarrow> nat" where
  "percent_of decision = (case decision of Liquidate plan \<Rightarrow> fp_get (lp_percent plan) | _ \<Rightarrow> 1)"

lemma accept_bad_debt_some:
  assumes "accept_bad_debt self operation ((w, db), log) = Some (Ok (Some simulated), (w', db'), log')"
  shows "db' = db \<and> log' = log \<and> simulated = (au_source self \<noteq> None) \<and> (simulated \<longrightarrow> accepted_at self operation db log w')"
proof (cases "au_source self")
  case None
  then show ?thesis using assms by (simp add: accept_bad_debt_def)
next
  case (Some source)
  with assms obtain jd w1 db1 log1 where sim: "au_simulate self operation ((w, db), log) = Some (Ok jd, (w1, db1), log1)"
    and "(case jd of Accepted \<Rightarrow> Some True | Refused _ _ \<Rightarrow> None | NeedsRestore \<Rightarrow> None) = Some simulated"
    and "(w', db') = (w1, db1)" "log' = log1"
    by (auto simp: accept_bad_debt_def elim!: io_bind_track)
  then show ?thesis
    using au_simulate_keeps [OF sim] Some by (auto simp: accepted_at_def split: tx_judgment.splits)
qed

lemma draft_creation_drafted:
  assumes run: "draft_creation self pool account decision ((w, db), log) = Some (Ok (Inr draft), (w', db'), log')"
    and range: "1 \<le> percent_of decision" "percent_of decision \<le> 100"
  shows "db' = db \<and> log' = log \<and> drafted self pool account decision draft
     \<and> cd_simulated draft = (au_source self \<noteq> None) \<and> (cd_simulated draft \<longrightarrow> accepted_at self (cd_operation draft) db log w')"
proof (cases decision)
  case (Liquidate plan)
  with run obtain p operation simulated where acc: "accept_percent self pool account plan ((w, db), log) = Some (Ok (Some (p, operation, simulated)), (w', db'), log')"
    and d: "draft = \<lparr>cd_kind = CreateAuction, cd_percent = Some p, cd_bid = lp_bid plan, cd_lot = lp_lot plan, cd_operation = operation, cd_simulated = simulated\<rparr>"
    by (auto simp: draft_creation_def elim!: io_bind_track split: option.splits)
  show ?thesis
  proof (cases "au_source self")
    case None
    with acc range Liquidate d show ?thesis by (auto simp: accept_percent_def drafted_def percent_of_def)
  next
    case (Some source)
    with acc have "percent_walk self pool account plan (ak_plan_iterations (au_config self)) (lp_percent plan) ((w, db), log)
      = Some (Ok (Some (p, operation, simulated)), (w', db'), log')" by (simp add: accept_percent_def)
    from percent_walk_accepts [OF this] range Liquidate d Some show ?thesis by (simp add: drafted_def percent_of_def)
  qed
next
  case DecideBadDebt
  with run obtain operation simulated where build: "build_op self (bad_debt_op (au_lib self) pool account) = Ok operation"
    and acc: "accept_bad_debt self operation ((w, db), log) = Some (Ok (Some simulated), (w', db'), log')"
    and d: "draft = \<lparr>cd_kind = CreateBadDebt, cd_percent = None, cd_bid = [], cd_lot = [], cd_operation = operation, cd_simulated = simulated\<rparr>"
    by (auto simp: draft_creation_def elim!: io_bind_track split: option.splits)
  from accept_bad_debt_some [OF acc] build d DecideBadDebt show ?thesis by (simp add: drafted_def)
qed (use run in \<open>simp add: draft_creation_def\<close>)

lemma build_op_invokes: "build_op self call = Ok operation \<Longrightarrow> operation \<noteq> RestoreFootprint"
  by (cases call) (auto simp: build_op_def)

lemma drafted_no_restore: "drafted self pool account decision draft \<Longrightarrow> cd_operation draft \<noteq> RestoreFootprint"
  unfolding drafted_def build_auction_def by (cases decision) (auto dest: build_op_invokes)

text \<open>Recording comes first, and the submission answered is that of the one envelope that may have been taken.\<close>

definition submitted_as :: "'w submission_queue option \<Rightarrow> tx_outcome option \<Rightarrow> send_log \<Rightarrow> bool" where
  "submitted_as submit submission sends \<longleftrightarrow>
     (case submission of
        None \<Rightarrow> submit = None
      | Some out \<Rightarrow> \<exists>q. submit = Some q \<and> outcome_of (sq_host q) out sends)"

definition record_spec :: "'w submission_queue option \<Rightarrow> (auctioneer_error, act_outcome) result \<Rightarrow> exec_deed list \<Rightarrow> bool" where
  "record_spec submit r ev \<longleftrightarrow> (\<exists>before sends. ev = before @ map Posted sends \<and> announced is_row before sends \<and> final_accept sends
     \<and> (submit = None \<longrightarrow> sends = [])
     \<and> (\<forall>x. r = Ok x \<longrightarrow> (\<exists>out. x = ActRecorded out \<and> before = [RowWritten (co_creation_id out)] \<and> submitted_as submit (co_submission out) sends)))"

lemma final_accept_Nil [simp]: "final_accept []"
  by (simp add: final_accept_def)

lemma record_spec_failed [simp]: "record_spec submit (Err e) []"
  unfolding record_spec_def by (rule exI [of _ "[]"], rule exI [of _ "[]"]) (simp add: announced_def)

lemma record_spec_sent:
  assumes "final_accept sends" "submit = None \<longrightarrow> sends = []"
    and "\<And>x. r = Ok x \<Longrightarrow> \<exists>out. x = ActRecorded out \<and> co_creation_id out = i \<and> submitted_as submit (co_submission out) sends"
  shows "record_spec submit r (RowWritten i # map Posted sends)"
  unfolding record_spec_def
  by (rule exI [of _ "[RowWritten i]"], rule exI [of _ sends]) (use assms in \<open>fastforce simp: announced_def is_row_def\<close>)

lemma quiet_au_store: "quiet (au_store self q)"
  unfolding au_store_def by (rule logs_map_err [OF quiet_statement])

lemma submit_creation_logs:
  assumes "operation \<noteq> RestoreFootprint"
  shows "logs (submit_creation self queue creation_id rec operation)
     (\<lambda>r ev. \<exists>sends. ev = map Posted sends \<and> final_accept sends \<and> (\<forall>out. r = Ok out \<longrightarrow> outcome_of (sq_host queue) out sends))"
proof -
  have sub: "logs (io_map_err AuctQueue (queue_submit queue submission))
     (\<lambda>r ev. \<exists>sends. ev = map Posted sends \<and> final_accept sends \<and> (\<forall>out. r = Ok out \<longrightarrow> outcome_of (sq_host queue) out sends))"
    if "sb_operation submission \<noteq> RestoreFootprint" for submission
    by (rule logs_map_err [OF queue_submit_logs [OF that]]) auto
  show ?thesis
    unfolding submit_creation_def
  proof (rule logs_seq [OF sub], goal_cases)
    case (2 out ev)
    then show ?case by (intro logs_bind [OF quiet_au_store logs_lift_eq]) auto
  qed (use assms in auto)
qed

lemma logs_submit_some:
  assumes "operation \<noteq> RestoreFootprint"
  shows "logs (io_bind (submit_creation self queue creation_id rec operation) (\<lambda>out. io_lift (Ok (Some out))))
     (\<lambda>r ev. \<exists>sends. ev = map Posted sends \<and> final_accept sends \<and> (\<forall>submission. r = Ok submission \<longrightarrow> submitted_as (Some queue) submission sends))"
  by (rule logs_bind [OF submit_creation_logs [OF assms] logs_lift_eq]) (auto simp: submitted_as_def)

lemma record_draft_logs:
  assumes "cd_operation draft \<noteq> RestoreFootprint"
  shows "logs (record_draft self pool account tick submit draft) (record_spec submit)"
proof -
  show ?thesis
    unfolding record_draft_def Let_def
  proof (rule logs_quiet_bind [OF quiet_au_store], goal_cases)
    case (1 creation_id)
    show ?case
    proof (rule logs_after_note, cases submit, goal_cases)
      case 1
      show ?case unfolding 1 option.case io_bind_lift_Ok
        by (rule logs_lift, rule record_spec_sent [of "[]", unfolded list.map]) (simp_all add: submitted_as_def)
    next
      case (2 queue)
      show ?case unfolding 2 option.case
      proof (rule logs_seq [OF logs_submit_some [OF assms]], goal_cases)
        case (1 submission ev)
        then obtain sends where "ev = map Posted sends" "final_accept sends" "submitted_as (Some queue) submission sends"
          by auto
        then show ?case by (auto intro!: logs_lift record_spec_sent)
      next
        case (2 e ev)
        then show ?case by (auto intro!: record_spec_sent)
      qed
    qed
  qed simp
qed


text \<open>The row a recorded creation leaves, named after its transaction once there is one.\<close>

definition creation_row_of :: "string \<Rightarrow> nat \<Rightarrow> creation_outcome \<Rightarrow> creation_row \<Rightarrow> bool" where
  "creation_row_of pool ledger out row \<longleftrightarrow> nw_id row = co_creation_id out \<and> nw_kind row = creation_kind_as_str (co_kind out)
     \<and> nw_pool row = pool \<and> nw_account row = co_account out \<and> nw_percent row = map_option (\<lambda>p. int (fp_get p)) (co_percent out)
     \<and> nw_ledger row = int ledger \<and> nw_dry_run row = co_dry_run out
     \<and> nw_tx_hash row = map_option to_hex (creation_tx_hash out)"

lemma au_store_passed:
  assumes "au_store self q ((w, db), log) = Some (Ok x, (w', db'), log')"
  shows "q db = (Ok x, db') \<and> log' = log"
  using assms statement_cases [of "au_fault self" q w db log] unfolding au_store_def
  by (auto elim!: io_map_err_cases)

lemma record_creation_row:
  assumes "record_creation rec db = (Ok i, db')"
  shows "\<exists>row \<in> set (tb_creations db'). nw_id row = i \<and> nw_kind row = creation_kind_as_str (cr_kind rec) \<and> nw_pool row = cr_pool rec
     \<and> nw_account row = cr_account rec \<and> nw_percent row = map_option (\<lambda>p. int (fp_get p)) (cr_percent rec)
     \<and> nw_ledger row = int (cr_ledger rec) \<and> nw_dry_run row = cr_dry_run rec \<and> nw_tx_hash row = cr_tx_hash rec"
  using assms by (auto simp: record_creation_def Let_def opt_column_def percent_to_code_def rmap_def split: option.splits if_splits sum.splits)

lemma attach_creation_named:
  assumes "total (attach_creation_tx i h) db = (Ok b, db')" "row \<in> set (tb_creations db)" "nw_id row = i" "nw_tx_hash row = None"
  shows "row\<lparr>nw_tx_hash := Some h\<rparr> \<in> set (tb_creations db')"
proof -
  have "db' = db\<lparr>tb_creations := update_rows (unsent_creation i) (\<lambda>r. r\<lparr>nw_tx_hash := Some h\<rparr>) (tb_creations db)\<rparr>"
    using assms(1) by (auto simp: total_def attach_creation_tx_def)
  with assms(2-4) show ?thesis by (auto simp: update_rows_def unsent_creation_def intro!: image_eqI [of _ _ row])
qed

lemma queue_submit_keeps:
  assumes "queue_submit queue submission ((w, db), log) = Some (r, (w', db'), log')"
  shows "db' = db"
  using assms by (auto simp: queue_submit_def split: prod.splits bool.splits option.splits)

lemma submit_creation_attaches:
  assumes "submit_creation self queue i rec operation ((w, db), log) = Some (Ok out, (w', db'), log')"
  shows "\<exists>b. total (attach_creation_tx i (to_hex (tx_outcome_hash out))) db = (Ok b, db')"
  using assms unfolding submit_creation_def
  by (auto elim!: io_bind_track io_map_err_cases dest!: au_store_passed queue_submit_keeps)

lemma record_draft_row:
  assumes "record_draft self pool account tick submit draft ((w, db), log) = Some (Ok (ActRecorded out), (w', db'), log')"
  shows "co_kind out = cd_kind draft \<and> co_account out = account \<and> co_percent out = cd_percent draft \<and> co_simulated out = cd_simulated draft
     \<and> co_dry_run out = ak_dry_run (au_config self)
     \<and> (\<exists>row \<in> set (tb_creations db'). creation_row_of pool (lt_sequence tick) out row)"
proof -
  let ?rec = "\<lparr>cr_kind = cd_kind draft, cr_pool = pool, cr_account = account, cr_percent = cd_percent draft,
          cr_bid = cd_bid draft, cr_lot = cd_lot draft, cr_ledger = lt_sequence tick,
          cr_dry_run = ak_dry_run (au_config self), cr_tx_hash = None\<rparr>"
  from assms obtain i w1 db1 submission where rec: "record_creation ?rec db = (Ok i, db1)"
    and sub: "(case submit of
                 Some queue \<Rightarrow> io_bind (submit_creation self queue i ?rec (cd_operation draft)) (\<lambda>out. io_lift (Ok (Some out)))
               | None \<Rightarrow> io_lift (Ok None)) ((w1, db1), log @ [RowWritten i]) = Some (Ok submission, (w', db'), log')"
    and out: "out = \<lparr>co_kind = cd_kind draft, co_account = account, co_percent = cd_percent draft,
        co_simulated = cd_simulated draft, co_creation_id = i, co_dry_run = ak_dry_run (au_config self), co_submission = submission\<rparr>"
    by (auto simp: record_draft_def Let_def noting_def elim!: io_bind_track dest!: au_store_passed)
  from record_creation_row [OF rec] obtain row where row: "row \<in> set (tb_creations db1)"
    and fits: "creation_row_of pool (lt_sequence tick) (out\<lparr>co_submission := None\<rparr>) row"
    by (auto simp: creation_row_of_def creation_tx_hash_def out)
  have "\<exists>row \<in> set (tb_creations db'). creation_row_of pool (lt_sequence tick) out row"
  proof (cases submit)
    case None
    with sub row fits show ?thesis by (auto simp: out)
  next
    case (Some queue)
    with sub obtain o' where o: "submission = Some o'"
      and s: "submit_creation self queue i ?rec (cd_operation draft) ((w1, db1), log @ [RowWritten i]) = Some (Ok o', (w', db'), log')"
      by (auto elim!: io_bind_track)
    from submit_creation_attaches [OF s] obtain b where "total (attach_creation_tx i (to_hex (tx_outcome_hash o'))) db1 = (Ok b, db')" ..
    from attach_creation_named [OF this row] fits show ?thesis
      by (intro bexI) (auto simp: out o creation_row_of_def creation_tx_hash_def)
  qed
  then show ?thesis by (simp add: out)
qed


text \<open>Neither drafting nor a refusal leaves anything in the log.\<close>

lemma quiet_au_simulate: "quiet (au_simulate self operation)"
  unfolding au_simulate_def by (rule logs_map_err [OF logs_posting [OF quiet_simulate_only]]) auto

lemma quiet_au_chain: "quiet (au_chain m)"
  by (rule logsI) (auto simp: au_chain_def split: option.splits prod.splits)

lemma quiet_try: "quiet m \<Longrightarrow> (\<And>x. quiet (f x)) \<Longrightarrow> quiet (io_try m f)"
  by (rule logs_try [where P = "\<lambda>r ev. ev = []" and Q = "\<lambda>x r ev. ev = []"]) auto

lemma quiet_adopt: "quiet (adopt self pool account)"
  unfolding adopt_def by (intro quiet_try quiet_au_chain) (auto intro!: quiet_lift quiet_au_store split: sum.split option.split prod.split)

lemma quiet_refuse_percent: "quiet (refuse_percent self pool account code)"
  unfolding refuse_percent_def by (intro quiet_bind) (auto intro: quiet_adopt quiet_lift)

lemma quiet_percent_walk: "quiet (percent_walk self pool account plan n percent)"
proof (induction n arbitrary: percent)
  case (Suc n)
  then show ?case
    unfolding percent_walk.simps
    by (intro quiet_bind quiet_lift quiet_au_simulate)
      (auto intro!: quiet_lift quiet_refuse_percent split: tx_judgment.split option.split)
qed (simp add: quiet_lift)

lemma quiet_draft_creation: "quiet (draft_creation self pool account decision)"
proof (cases decision)
  case (Liquidate plan)
  have "quiet (accept_percent self pool account plan)"
    by (simp add: accept_percent_def quiet_lift quiet_percent_walk split: option.split)
  then show ?thesis unfolding draft_creation_def Liquidate decision.case by (intro quiet_bind quiet_lift)
next
  case DecideBadDebt
  have "quiet (accept_bad_debt self operation)" for operation
    by (auto simp: accept_bad_debt_def intro!: quiet_lift quiet_bind quiet_au_simulate split: option.split)
  then show ?thesis unfolding draft_creation_def DecideBadDebt decision.case by (intro quiet_bind quiet_lift)
qed (simp add: draft_creation_def quiet_lift)

text \<open>A run of \<open>act\<close>: turned away or ended before anything was recorded, or the recording of a draft.\<close>

lemma auctioneer_act_cases:
  assumes "auctioneer_act self pool account decision tick submit ((w, db), log) = Some (r, (w', db'), log')"
    and "1 \<le> percent_of decision" "percent_of decision \<le> 100"
  obtains (early) "log' = log" "\<And>out. r \<noteq> Ok (ActRecorded out)"
  | (recording) draft w1 where "submit = None \<or> au_source self \<noteq> None \<and> \<not> ak_dry_run (au_config self)"
      "drafted self pool account decision draft" "cd_simulated draft = (au_source self \<noteq> None)"
      "cd_simulated draft \<longrightarrow> accepted_at self (cd_operation draft) db log w1"
      "record_draft self pool account tick submit draft ((w1, db), log) = Some (r, (w', db'), log')"
proof (cases "submit \<noteq> None \<and> (au_source self = None \<or> ak_dry_run (au_config self))")
  case True
  then show thesis using assms(1) early by (auto simp: auctioneer_act_def split: if_splits)
next
  case False
  with assms(1) have "io_bind (draft_creation self pool account decision) (\<lambda>drafted.
        case drafted of
          Inl out \<Rightarrow> io_lift (Ok out)
        | Inr draft \<Rightarrow> record_draft self pool account tick submit draft) ((w, db), log) = Some (r, (w', db'), log')"
    by (auto simp: auctioneer_act_def split: if_splits)
  then show thesis
  proof (cases rule: io_bind_track)
    case (failed e)
    then show thesis using early logsD [OF quiet_draft_creation failed(1)] by auto
  next
    case (passed x w1 db1 log1)
    have log1: "log1 = log" using logsD [OF quiet_draft_creation passed(1)] by auto
    show thesis
    proof (cases x)
      case (Inl out)
      moreover have "out \<noteq> ActRecorded o'" for o'
        using passed(1) Inl
        by (auto simp: draft_creation_def elim!: io_bind_track split: decision.splits option.splits prod.splits)
      ultimately show thesis using passed(2) log1 early by auto
    next
      case (Inr draft)
      with draft_creation_drafted [OF _ assms(2,3)] passed recording False show thesis by fastforce
    qed
  qed
qed

text \<open>
  C22. A creation is on the books before it is on the wire. Whatever fails: nothing is posted before the
  creation's row is written, a dry run, an auctioneer without a key and a call without a queue post nothing, an envelope
  of the creation that may have been taken is the last one posted, and a skipped or
  refused decision records nothing. When \<open>act\<close> answers that it
  recorded a creation, the table holds its row, with the percent, the
  configured mode and the hash of the transaction if one was submitted; what it recorded is what the
  decision called for, at a percent in 1..100 that is the plan's own or fewer than \<open>plan_iterations\<close> points from
  it; with a key, the very operation was accepted by the contract's simulation immediately before the
  row was written; and the submission answered is the outcome of the one envelope that may have been taken.
\<close>

theorem creation_recorded_then_posted:
  assumes "auctioneer_act self pool account decision tick submit ((w, db), log) = Some (r, (w', db'), log')"
    and "1 \<le> percent_of decision" "percent_of decision \<le> 100"
  shows "\<exists>before sends. log' = log @ before @ map Posted sends
     \<and> (sends \<noteq> [] \<longrightarrow> (\<exists>i. before = [RowWritten i]))
     \<and> (ak_dry_run (au_config self) \<or> au_source self = None \<or> submit = None \<longrightarrow> sends = [])
     \<and> (\<forall>ys x zs. sends = ys @ x # zs \<and> own_send x \<and> \<not> refused_answer (snd x) \<longrightarrow> zs = [])
     \<and> (\<forall>out. r = Ok out \<and> act_recorded out = None \<longrightarrow> before = [])
     \<and> (\<forall>out. r = Ok (ActRecorded out) \<longrightarrow> before = [RowWritten (co_creation_id out)]
          \<and> (\<exists>row \<in> set (tb_creations db'). creation_row_of pool (lt_sequence tick) out row)
          \<and> submitted_as submit (co_submission out) sends
          \<and> (\<exists>draft w1. drafted self pool account decision draft
               \<and> co_kind out = cd_kind draft \<and> co_percent out = cd_percent draft \<and> co_simulated out = (au_source self \<noteq> None)
               \<and> (au_source self \<noteq> None \<longrightarrow> accepted_at self (cd_operation draft) db log w1)
               \<and> record_draft self pool account tick submit draft ((w1, db), log) = Some (r, (w', db'), log')))"
  using assms
proof (cases rule: auctioneer_act_cases)
  case early
  then show ?thesis by (intro exI [of _ "[]"]) auto
next
  case (recording draft w1)
  from logsD [OF record_draft_logs [OF drafted_no_restore [OF recording(2)]] recording(5)]
  obtain before sends where log: "log' = log @ before @ map Posted sends" and a: "announced is_row before sends"
    and f: "final_accept sends" and idle: "submit = None \<longrightarrow> sends = []"
    and ok: "\<And>x. r = Ok x \<Longrightarrow> \<exists>out. x = ActRecorded out \<and> before = [RowWritten (co_creation_id out)] \<and> submitted_as submit (co_submission out) sends"
    unfolding record_spec_def by auto
  have rec: "before = [RowWritten (co_creation_id out)] \<and> submitted_as submit (co_submission out) sends" if "r = Ok (ActRecorded out)" for out
    using ok [OF that] by auto
  have none: "before = []" if "r = Ok out" "act_recorded out = None" for out
    using ok [OF that(1)] that(2) by auto
  have row: "sends \<noteq> [] \<longrightarrow> (\<exists>i. before = [RowWritten i])" using a by (auto simp: announced_def is_row_def)
  have draft: "(\<exists>row \<in> set (tb_creations db'). creation_row_of pool (lt_sequence tick) out row)
     \<and> co_kind out = cd_kind draft \<and> co_percent out = cd_percent draft \<and> co_simulated out = (au_source self \<noteq> None)"
    if "r = Ok (ActRecorded out)" for out
    using record_draft_row [OF recording(5) [unfolded that]] recording(3) by auto
  show ?thesis
  proof (rule exI [of _ before], rule exI [of _ sends], intro conjI allI impI exI [of _ draft] exI [of _ w1], goal_cases)
    case 1 show ?case using log .
  next
    case 2 then show ?case using row by simp
  next
    case 3 then show ?case using idle recording(1) by auto
  next
    case (4 ys x zs) then show ?case using f unfolding final_accept_def by blast
  next
    case (5 out) then show ?case using none by blast
  next
    case (6 out) then show ?case using rec by simp
  next
    case (7 out) then show ?case using draft by simp
  next
    case (8 out) then show ?case using rec by simp
  next
    case (9 out) show ?case using recording(2) .
  next
    case (10 out) then show ?case using draft by simp
  next
    case (11 out) then show ?case using draft by simp
  next
    case (12 out) then show ?case using draft by simp
  next
    case (13 out) then show ?case using recording(3,4) by simp
  next
    case (14 out) show ?case using recording(5) .
  qed
qed


text \<open>A creation whose transaction is taken and whose outcome is not learnt.\<close>

definition offline_reads :: "'w reads" where
  "offline_reads = \<lparr>re_lib = \<lparr>xl_address = Ok, xl_sorted = Ok\<rparr>, re_key_text = (\<lambda>_. Err []), re_entry = (\<lambda>_. Err []), re_scval = (\<lambda>_. Err []),
     re_account_id = Some, re_get_entries = (\<lambda>_ w. (Err (Http 500), w)), re_get_fee_stats = (\<lambda>w. (Err (Http 500), w)),
     re_get_events = (\<lambda>_ w. (Err (Http 500), w)), re_simulate = (\<lambda>_ w. (Err (Http 500), w))\<rparr>"

definition sample_auctioneer_config :: auctioneer_config where
  "sample_auctioneer_config = \<lparr>ak_liquidation_health_factor = 9950000, ak_target_health_factor = 11000000, ak_plan_iterations = 3,
     ak_dry_run = False, ak_own_addresses = {''G''}\<rparr>"

definition sample_auctioneer :: "'w reads \<Rightarrow> 'w host \<Rightarrow> 'w auctioneer" where
  "sample_auctioneer reads host = \<lparr>au_reads = reads, au_fault = (\<lambda>w. (None, w)), au_config = sample_auctioneer_config, au_host = host,
     au_tx = sample_tx_config, au_source = Some ''G'', au_lib = \<lparr>xl_address = Ok, xl_sorted = Ok\<rparr>, au_invoke = (\<lambda>_. ''f'')\<rparr>"

definition sample_tick :: ledger_tick where
  "sample_tick = \<lparr>lt_sequence = 10, lt_close_time = 50\<rparr>"

definition sample_liquidation :: liquidation_plan where
  "sample_liquidation = \<lparr>lp_bid = [''XLM''], lp_lot = [''USDC''], lp_percent = FillPercent 50\<rparr>"

lemma sample_build: "build_auction (sample_auctioneer reads host) ''P'' ''U'' sample_liquidation p = Ok (InvokeHostFunction ''f'' [])"
  by (simp add: build_auction_def build_op_def sample_auctioneer_def sample_liquidation_def new_auction_op_def invoke_contract_op_def symbol_def
      address_def addresses_def sc_address_def xdr_lib_result_def sc_vec_def u32_max_def)

lemma sample_draft:
  "draft_creation (sample_auctioneer reads sample_host) ''P'' ''U'' (Liquidate sample_liquidation) (((0, [[]]), db), log)
     = Some (Ok (Inr \<lparr>cd_kind = CreateAuction, cd_percent = Some (FillPercent 50), cd_bid = [''XLM''], cd_lot = [''USDC''],
         cd_operation = InvokeHostFunction ''f'' [], cd_simulated = True\<rparr>), ((0, []), db), log)"
proof -
  have "au_simulate (sample_auctioneer reads sample_host) (InvokeHostFunction ''f'' []) (((0, [[]]), db), log) = Some (Ok Accepted, ((0, []), db), log)"
    by (simp add: au_simulate_def sample_auctioneer_def io_map_err_def io_try_def posting_def sample_judged io_lift_def)
  then have "percent_walk (sample_auctioneer reads sample_host) ''P'' ''U'' sample_liquidation 3 p (((0, [[]]), db), log)
      = Some (Ok (Some (p, InvokeHostFunction ''f'' [], True)), ((0, []), db), log)" for p
    by (simp add: numeral_3_eq_3 io_run sample_build)
  then show ?thesis
    by (simp add: draft_creation_def accept_percent_def io_run)
      (simp add: sample_liquidation_def sample_auctioneer_def sample_auctioneer_config_def io_run)
qed

lemma sample_act:
  "\<exists>out db'. auctioneer_act (sample_auctioneer reads sample_host) ''P'' ''U'' (Liquidate sample_liquidation) sample_tick (Some sample_queue)
       (((0, [[]]), empty_tables), [])
     = Some (Ok (ActRecorded out), ((1000999, []), db'), [RowWritten 1, Posted (hd sample_log)])
     \<and> co_percent out = Some (FillPercent 50) \<and> co_submission out = Some (Unknown sample_hash 8 sample_window)"
proof -
  have "auctioneer_act (sample_auctioneer reads sample_host) ''P'' ''U'' (Liquidate sample_liquidation) sample_tick (Some sample_queue)
       (((0, [[]]), empty_tables), []) =
     record_draft (sample_auctioneer reads sample_host) ''P'' ''U'' sample_tick (Some sample_queue)
       \<lparr>cd_kind = CreateAuction, cd_percent = Some (FillPercent 50), cd_bid = [''XLM''], cd_lot = [''USDC''],
         cd_operation = InvokeHostFunction ''f'' [], cd_simulated = True\<rparr> (((0, []), empty_tables), [])"
    by (simp add: auctioneer_act_def io_bind_def sample_draft) (simp add: sample_auctioneer_def sample_auctioneer_config_def)
  then show ?thesis
    by (simp add: record_draft_def Let_def io_run io_bind_def io_map_err_def io_try_def au_store_def statement_def record_creation_def noting_def
        opt_column_def percent_to_code_def creation_allowed_def rmap_def empty_tables_def submit_creation_def sample_submitted total_def
        sample_auctioneer_def)
qed

theorem creation_recorded_then_posted_witness:
  "\<exists>out db' before sends. auctioneer_act (sample_auctioneer offline_reads sample_host) ''P'' ''U'' (Liquidate sample_liquidation) sample_tick
       (Some sample_queue) (((0, [[]]), empty_tables), [])
     = Some (Ok (ActRecorded out), ((1000999, []), db'), before @ map Posted sends)
     \<and> before = [RowWritten 1] \<and> outcome_of sample_host (Unknown sample_hash 8 sample_window) sends
     \<and> (\<exists>row \<in> set (tb_creations db'). nw_percent row = Some 50 \<and> nw_tx_hash row = Some (to_hex sample_hash))"
proof -
  obtain out db' where run: "auctioneer_act (sample_auctioneer offline_reads sample_host) ''P'' ''U'' (Liquidate sample_liquidation) sample_tick
       (Some sample_queue) (((0, [[]]), empty_tables), [])
     = Some (Ok (ActRecorded out), ((1000999, []), db'), [RowWritten 1, Posted (hd sample_log)])"
    and out: "co_percent out = Some (FillPercent 50)" "co_submission out = Some (Unknown sample_hash 8 sample_window)"
    using sample_act by blast
  have "1 \<le> percent_of (Liquidate sample_liquidation)" "percent_of (Liquidate sample_liquidation) \<le> 100"
    by (simp_all add: percent_of_def sample_liquidation_def)
  from creation_recorded_then_posted [OF run this] obtain before sends
    where log: "[RowWritten 1, Posted (hd sample_log)] = before @ map Posted sends" and b: "before = [RowWritten (co_creation_id out)]"
      and row: "\<exists>row \<in> set (tb_creations db'). creation_row_of ''P'' (lt_sequence sample_tick) out row"
      and sub: "submitted_as (Some sample_queue) (co_submission out) sends"
    by (elim exE conjE) (drule spec [of _ out], simp)
  have "\<exists>row \<in> set (tb_creations db'). nw_percent row = Some 50 \<and> nw_tx_hash row = Some (to_hex sample_hash)"
    using row out by (auto simp: creation_row_of_def creation_tx_hash_def)
  moreover have "outcome_of sample_host (Unknown sample_hash 8 sample_window) sends"
    using sub out by (auto simp: submitted_as_def sample_queue_def)
  moreover have "before = [RowWritten 1]" using log b by simp
  ultimately show ?thesis using run log by metis
qed


section \<open>What the price watch reports\<close>

text \<open>
  A price has moved when its distance from the reference is at least \<open>delta_bps\<close> ten-thousandths
  of the reference (in exact integers; a distance that leaves an i128 cannot be judged).
\<close>

definition judgeable :: "int \<Rightarrow> int \<Rightarrow> bool" where
  "judgeable price reference \<longleftrightarrow> in_i128 (\<bar>price - reference\<bar>) \<and> in_i128 (\<bar>price - reference\<bar> * 10000 div reference)"

definition has_moved :: "nat \<Rightarrow> int \<Rightarrow> int \<Rightarrow> bool" where
  "has_moved delta_bps price reference \<longleftrightarrow> judgeable price reference \<and> int delta_bps * reference \<le> \<bar>price - reference\<bar> * 10000"

lemma moved_direction_exact:
  assumes "0 < reference"
  shows "moved_direction price reference delta_bps = Ok (Some d)
      \<longleftrightarrow> has_moved delta_bps price reference \<and> d = (if reference < price then PriceUp else PriceDown)" (is ?some)
    and "moved_direction price reference delta_bps = Ok None
      \<longleftrightarrow> judgeable price reference \<and> \<not> has_moved delta_bps price reference" (is ?none)
proof -
  let ?diff = "\<bar>price - reference\<bar>"
  have diff: "(if reference \<le> price then checked_sub price reference else checked_sub reference price) = checked_i128 ?diff"
    by (auto simp: checked_sub_def checked_i128_def abs_if)
  have m: "moved_direction price reference delta_bps =
     (if judgeable price reference then
        Ok (if ?diff * 10000 div reference < int delta_bps then None else Some (if reference < price then PriceUp else PriceDown))
      else Err Overflow)"
    unfolding moved_direction_def diff judgeable_def
    using assms by (auto simp: checked_i128_def ok_or_def fixed_evals)
  have "int delta_bps \<le> ?diff * 10000 div reference \<longleftrightarrow> int delta_bps * reference \<le> ?diff * 10000"
    using assms by (simp add: le_fdiv_iff)
  then have "?diff * 10000 div reference < int delta_bps \<longleftrightarrow> \<not> int delta_bps * reference \<le> ?diff * 10000"
    by linarith
  then show ?some ?none by (auto simp: m has_moved_def)
qed

text \<open>The reference an asset has after a call: the price just read, unless nothing notable happened to it.\<close>

definition anchor :: "price_watch \<Rightarrow> nat \<Rightarrow> int \<Rightarrow> reference option \<Rightarrow> reference" where
  "anchor self now price old =
     (case old of
        None \<Rightarrow> \<lparr>rf_price = price, rf_set_at = now\<rparr>
      | Some ref \<Rightarrow>
          if has_moved (pw_delta_bps self) price (rf_price ref)
             \<or> judgeable price (rf_price ref) \<and> rf_set_at ref \<le> now \<and> pw_stale_after self \<le> now - rf_set_at ref
          then \<lparr>rf_price = price, rf_set_at = now\<rparr> else ref)"

definition moves_from :: "price_watch \<Rightarrow> (string \<Rightarrow> reference option) \<Rightarrow> string \<Rightarrow> int \<Rightarrow> direction \<Rightarrow> bool" where
  "moves_from self refs asset price d \<longleftrightarrow>
     (\<exists>ref. refs asset = Some ref \<and> has_moved (pw_delta_bps self) price (rf_price ref)
        \<and> d = (if rf_price ref < price then PriceUp else PriceDown))"

definition references_ok :: "(string, reference) btree \<Rightarrow> bool" where
  "references_ok references \<longleftrightarrow> (\<forall>asset ref. bt_get references asset = Some ref \<longrightarrow> 0 < rf_price ref)"

lemma watch_price_step:
  assumes "references_ok references" "watch_price self now (asset, price) (references, moves) = (references', moves')"
  shows "bt_get references' a = (if a = asset then Some (anchor self now price (bt_get references asset)) else bt_get references a)"
    and "set moves' = set moves \<union> {\<lparr>pm_asset = asset, pm_direction = d\<rparr> | d. moves_from self (bt_get references) asset price d}"
proof -
  have "bt_get references' a = (if a = asset then Some (anchor self now price (bt_get references asset)) else bt_get references a)
    \<and> set moves' = set moves \<union> {\<lparr>pm_asset = asset, pm_direction = d\<rparr> | d. moves_from self (bt_get references) asset price d}"
  proof (cases "bt_get references asset")
    case None
    then show ?thesis using assms(2) by (auto simp: watch_price_def Let_def anchor_def moves_from_def)
  next
    case (Some ref)
    then have pos: "0 < rf_price ref" using assms(1) by (simp add: references_ok_def)
    note exact = moved_direction_exact [OF pos, of price "pw_delta_bps self"]
    show ?thesis
    proof (cases "moved_direction price (rf_price ref) (pw_delta_bps self)")
      case (Inl e)
      then have "\<not> has_moved (pw_delta_bps self) price (rf_price ref)" "\<not> judgeable price (rf_price ref)"
        using exact by (auto simp: has_moved_def)
      then show ?thesis using Inl Some assms(2) by (auto simp: watch_price_def Let_def anchor_def moves_from_def)
    next
      case found: (Inr found)
      show ?thesis
      proof (cases found)
        case None
        with exact(2) found have "judgeable price (rf_price ref)" "\<not> has_moved (pw_delta_bps self) price (rf_price ref)" by simp_all
        then show ?thesis
          using Some assms(2) found None by (auto simp: watch_price_def Let_def anchor_def moves_from_def checked_sub_unsigned_def split: if_splits)
      next
        case (Some d)
        with exact(1) [of d] found have "has_moved (pw_delta_bps self) price (rf_price ref)" "d = (if rf_price ref < price then PriceUp else PriceDown)"
          by simp_all
        then show ?thesis
          using \<open>bt_get references asset = Some ref\<close> assms(2) found Some by (auto simp: watch_price_def Let_def anchor_def moves_from_def)
      qed
    qed
  qed
  then show "bt_get references' a = (if a = asset then Some (anchor self now price (bt_get references asset)) else bt_get references a)"
    and "set moves' = set moves \<union> {\<lparr>pm_asset = asset, pm_direction = d\<rparr> | d. moves_from self (bt_get references) asset price d}"
    by blast+
qed

lemma anchor_positive: "0 < price \<Longrightarrow> (\<And>ref. old = Some ref \<Longrightarrow> 0 < rf_price ref) \<Longrightarrow> 0 < rf_price (anchor self now price old)"
  by (auto simp: anchor_def split: option.splits)

lemma watch_fold:
  assumes "distinct (map fst ps)" "references_ok references" "\<forall>(a, p) \<in> set ps. 0 < p"
    and "fold (watch_price self now) ps (references, moves) = (references', moves')"
  shows "references_ok references'
    \<and> (\<forall>a. bt_get references' a = (case map_of ps a of None \<Rightarrow> bt_get references a | Some p \<Rightarrow> Some (anchor self now p (bt_get references a))))
    \<and> set moves' = set moves \<union> {\<lparr>pm_asset = a, pm_direction = d\<rparr> | a p d. (a, p) \<in> set ps \<and> moves_from self (bt_get references) a p d}"
  using assms
proof (induction ps arbitrary: references moves)
  case (Cons x ps)
  obtain asset price where x: "x = (asset, price)" by fastforce
  obtain refs1 moves1 where one: "watch_price self now (asset, price) (references, moves) = (refs1, moves1)" by fastforce
  note step = watch_price_step [OF Cons.prems(2) one]
  have ok1: "references_ok refs1"
    using Cons.prems(2,3) by (auto simp: references_ok_def step(1) x intro!: anchor_positive)
  have fresh: "asset \<notin> fst ` set ps" using Cons.prems(1) by (simp add: x)
  have same: "moves_from self (bt_get refs1) a p d \<longleftrightarrow> moves_from self (bt_get references) a p d" if "(a, p) \<in> set ps" for a p d
  proof -
    have "a \<noteq> asset" using that fresh by force
    then show ?thesis by (simp add: moves_from_def step(1))
  qed
  have rest: "references_ok references'
    \<and> (\<forall>a. bt_get references' a = (case map_of ps a of None \<Rightarrow> bt_get refs1 a | Some p \<Rightarrow> Some (anchor self now p (bt_get refs1 a))))
    \<and> set moves' = set moves1 \<union> {\<lparr>pm_asset = a, pm_direction = d\<rparr> | a p d. (a, p) \<in> set ps \<and> moves_from self (bt_get refs1) a p d}"
    using Cons.IH [OF _ ok1] Cons.prems one by (simp add: x)
  have unmapped: "map_of ps asset = None" using fresh by (simp add: map_of_eq_None_iff)
  have "bt_get references' a = (case map_of (x # ps) a of None \<Rightarrow> bt_get references a | Some p \<Rightarrow> Some (anchor self now p (bt_get references a)))" for a
    using rest unmapped by (cases "a = asset"; cases "map_of ps a") (simp_all add: step(1) x)
  moreover have "set moves' = set moves \<union> {\<lparr>pm_asset = a, pm_direction = d\<rparr> | a p d. (a, p) \<in> set (x # ps) \<and> moves_from self (bt_get references) a p d}"
    using rest same by (auto simp: step(2) x)
  ultimately show ?case using rest by blast
qed simp


text \<open>The flags a scan raises: those of every borrower exposed, on the side it hurts, to an asset that moved.\<close>

definition hurt_by :: "string \<Rightarrow> (string, nat) btree \<Rightarrow> price_move set \<Rightarrow> user_row \<Rightarrow> bool" where
  "hurt_by pool index moves row \<longleftrightarrow>
     (\<exists>m \<in> moves. \<exists>i. bt_get index (pm_asset m) = Some i \<and> exposed pool i (hurt_side (pm_direction m)) row)"

lemma raise_flag_simps [simp]:
  "raise_flag l (raise_flag l r) = raise_flag l r" "exposed pool i side (raise_flag l r) = exposed pool i side r"
  by (auto simp: raise_flag_def greatest_def exposed_def split: option.splits side.splits)

lemma hurt_by_raise [simp]: "hurt_by pool index moves (raise_flag l r) = hurt_by pool index moves r"
  by (simp add: hurt_by_def)

lemma flag_moves_flags:
  assumes "flag_moves self pool snap tick moves flagged ((w, db), log) = Some (Ok n, (w', db'), log')"
  shows "log' = log \<and> db' = db\<lparr>tb_users := update_rows (hurt_by pool (sn_asset_index snap) (set moves)) (raise_flag (lt_sequence tick)) (tb_users db)\<rparr>"
  using assms
proof (induction moves arbitrary: flagged w db log)
  case Nil
  then show ?case by (simp add: hurt_by_def update_rows_def)
next
  case (Cons m moves)
  let ?raise = "raise_flag (lt_sequence tick)" and ?hurt = "hurt_by pool (sn_asset_index snap)"
  show ?case
  proof (cases "bt_get (sn_asset_index snap) (pm_asset m)")
    case None
    then have "?hurt (set (m # moves)) = ?hurt (set moves)" by (auto simp: hurt_by_def fun_eq_iff)
    with Cons None show ?thesis by simp
  next
    case (Some i)
    let ?e = "exposed pool i (hurt_side (pm_direction m))"
    from Cons.prems Some obtain count w1 db1 log1
      where q: "au_store self (total (flag_exposed_to pool i (hurt_side (pm_direction m)) (lt_sequence tick))) ((w, db), log) = Some (Ok count, (w1, db1), log1)"
        and rest: "flag_moves self pool snap tick moves (min (flagged + count) u64_max) ((w1, db1), log1) = Some (Ok n, (w', db'), log')"
      by (auto elim!: io_bind_track)
    from au_store_passed [OF q] have db1: "log1 = log" "db1 = db\<lparr>tb_users := update_rows ?e ?raise (tb_users db)\<rparr>"
      by (simp_all add: total_def flag_exposed_to_def)
    have "?hurt (set (m # moves)) r \<longleftrightarrow> ?e r \<or> ?hurt (set moves) r" for r using Some by (auto simp: hurt_by_def)
    then have "update_rows (?hurt (set moves)) ?raise (update_rows ?e ?raise (tb_users db)) = update_rows (?hurt (set (m # moves))) ?raise (tb_users db)"
      by (simp add: update_rows_def o_def)
    with Cons.IH [OF rest] db1 show ?thesis by simp
  qed
qed

lemma au_chain_passed:
  assumes "au_chain m ((w, db), log) = Some (r, (w', db'), log')"
  shows "db' = db \<and> log' = log \<and> (\<exists>ev. m (w, []) = Some (r, w', ev))"
  using assms by (auto simp: au_chain_def split: option.splits prod.splits)

lemma snapshot_answers_ok:
  assumes "snapshot reads pool users (w, log) = Some (Ok s, w', log')"
  shows "snapshot_ok pool users s"
  using logsD [OF snapshot_loop_logs assms [unfolded snapshot_def]] by (auto simp: one_ledger_def)

definition watch_ok :: "price_watch \<Rightarrow> bool" where
  "watch_ok watch \<longleftrightarrow> (\<forall>pool. references_ok (pool_references watch pool))"

definition price_moves :: "price_watch \<Rightarrow> string \<Rightarrow> oracle_prices \<Rightarrow> price_move set" where
  "price_moves watch pool prices = {\<lparr>pm_asset = a, pm_direction = d\<rparr> | a p d.
     bt_get (op_prices prices) a = Some p \<and> moves_from watch (bt_get (pool_references watch pool)) a p d}"

lemma in_price_moves:
  "m \<in> price_moves watch pool prices \<longleftrightarrow>
     (\<exists>p. bt_get (op_prices prices) (pm_asset m) = Some p \<and> moves_from watch (bt_get (pool_references watch pool)) (pm_asset m) p (pm_direction m))"
  unfolding price_moves_def by (cases m) auto

lemma hurt_by_moves:
  "hurt_by pool index (price_moves watch pool prices) row \<longleftrightarrow>
     (\<exists>asset price ref i. bt_get (op_prices prices) asset = Some price \<and> bt_get (pool_references watch pool) asset = Some ref
        \<and> has_moved (pw_delta_bps watch) price (rf_price ref) \<and> bt_get index asset = Some i
        \<and> exposed pool i (hurt_side (if rf_price ref < price then PriceUp else PriceDown)) row)"
  (is "_ \<longleftrightarrow> (\<exists>asset price ref i. ?moved asset price ref i)")
proof
  assume "hurt_by pool index (price_moves watch pool prices) row"
  then obtain m i where m: "m \<in> price_moves watch pool prices" "bt_get index (pm_asset m) = Some i"
    "exposed pool i (hurt_side (pm_direction m)) row" unfolding hurt_by_def by blast
  then obtain price ref where "?moved (pm_asset m) price ref i"
    unfolding in_price_moves moves_from_def by auto
  then show "\<exists>asset price ref i. ?moved asset price ref i" by blast
next
  assume "\<exists>asset price ref i. ?moved asset price ref i"
  then obtain asset price ref i where m: "?moved asset price ref i" by blast
  let ?m = "\<lparr>pm_asset = asset, pm_direction = if rf_price ref < price then PriceUp else PriceDown\<rparr>"
  have "?m \<in> price_moves watch pool prices" using m unfolding in_price_moves moves_from_def price_move.select_convs by blast
  with m show "hurt_by pool index (price_moves watch pool prices) row" unfolding hurt_by_def by (intro bexI [of _ ?m]) simp_all
qed

lemma watch_moved_exact:
  assumes "watch_ok watch" "prices_ok prices" "bt_wf (op_prices prices)" "watch_moved watch pool prices now = (moves, watch')"
  shows "set moves = price_moves watch pool prices" "watch_ok watch'"
    and "pool' \<noteq> pool \<Longrightarrow> pool_references watch' pool' = pool_references watch pool'"
    and "bt_get (pool_references watch' pool) a = (case bt_get (op_prices prices) a of
       None \<Rightarrow> bt_get (pool_references watch pool) a | Some p \<Rightarrow> Some (anchor watch now p (bt_get (pool_references watch pool) a)))"
proof -
  obtain refs where run: "fold (watch_price watch now) (op_prices prices) (pool_references watch pool, []) = (refs, moves)"
    and w': "watch' = watch\<lparr>pw_references := bt_insert pool refs (pw_references watch)\<rparr>"
    using assms(4) by (auto simp: watch_moved_def split: prod.splits)
  have "distinct (map fst (op_prices prices))" using bt_wf_distinct [OF assms(3)] by (simp add: bt_keys_def)
  moreover have "references_ok (pool_references watch pool)" using assms(1) by (simp add: watch_ok_def)
  moreover have "\<forall>(a, p) \<in> set (op_prices prices). 0 < p" using assms(2) by (force simp: prices_ok_def bt_values_def)
  ultimately have f: "references_ok refs
    \<and> (\<forall>a. bt_get refs a = (case map_of (op_prices prices) a of None \<Rightarrow> bt_get (pool_references watch pool) a
          | Some p \<Rightarrow> Some (anchor watch now p (bt_get (pool_references watch pool) a))))
    \<and> set moves = {\<lparr>pm_asset = a, pm_direction = d\<rparr> | a p d. (a, p) \<in> set (op_prices prices) \<and> moves_from watch (bt_get (pool_references watch pool)) a p d}"
    using watch_fold [OF _ _ _ run] by simp
  have refs: "pool_references watch' p = (if p = pool then refs else pool_references watch p)" for p
    by (simp add: pool_references_def w')
  show "set moves = price_moves watch pool prices"
    using f by (auto simp: price_moves_def bt_in_set_get [OF assms(3)])
  show "watch_ok watch'" using f assms(1) by (simp add: watch_ok_def refs)
  show "pool_references watch' pool' = pool_references watch pool'" if "pool' \<noteq> pool" using that by (simp add: refs)
  show "bt_get (pool_references watch' pool) a = (case bt_get (op_prices prices) a of
       None \<Rightarrow> bt_get (pool_references watch pool) a | Some p \<Rightarrow> Some (anchor watch now p (bt_get (pool_references watch pool) a)))"
    using f by (simp add: refs bt_get_def)
qed

text \<open>
  C27. The oracle scan flags exactly whom a move hurt. When it succeeds there is one consistent snapshot whose prices
  it compared: with the references kept positive, an asset has moved iff its distance from the reference is at
  least \<open>delta_bps\<close> ten-thousandths of the reference in exact integers (no rounding decides it). Exactly the rows of the pool that
  borrow an asset that rose or hold as collateral one that fell have their recheck flag raised to the tick's
  ledger, never lowered; every other row and table is untouched. Afterwards a moved, a stale
  and a new asset is anchored at the price read, every other keeps its reference, and so do all other pools.
\<close>

theorem oracle_scan_flags_exactly_the_hurt:
  assumes "scan_oracle self pool watch tick ((w, db), log) = Some (Ok (Ok flagged, watch'), (w', db'), log')" "watch_ok watch"
  shows "\<exists>snap w1 ev. snapshot (au_reads self) pool [] (w, []) = Some (Ok snap, w1, ev) \<and> snapshot_ok pool [] snap
     \<and> db' = db\<lparr>tb_users := map (\<lambda>row.
          if \<exists>asset price ref i. bt_get (op_prices (sn_prices snap)) asset = Some price
               \<and> bt_get (pool_references watch pool) asset = Some ref \<and> judgeable price (rf_price ref)
               \<and> int (pw_delta_bps watch) * rf_price ref \<le> \<bar>price - rf_price ref\<bar> * 10000
               \<and> bt_get (sn_asset_index snap) asset = Some i
               \<and> exposed pool i (if rf_price ref < price then LiabilitySide else CollateralSide) row
          then raise_flag (lt_sequence tick) row else row) (tb_users db)\<rparr>
     \<and> log' = log \<and> watch_ok watch'
     \<and> (\<forall>asset. bt_get (pool_references watch' pool) asset = (case bt_get (op_prices (sn_prices snap)) asset of
           None \<Rightarrow> bt_get (pool_references watch pool) asset
         | Some price \<Rightarrow> Some (anchor watch (lt_close_time tick) price (bt_get (pool_references watch pool) asset))))
     \<and> (\<forall>other. other \<noteq> pool \<longrightarrow> pool_references watch' other = pool_references watch other)"
proof -
  from assms(1) obtain snap w1 moves where chain: "au_chain (snapshot (au_reads self) pool []) ((w, db), log) = Some (Ok snap, (w1, db), log)"
    and moved: "watch_moved watch pool (sn_prices snap) (lt_close_time tick) = (moves, watch')"
    and flags: "flag_moves self pool snap tick moves 0 ((w1, db), log) = Some (Ok flagged, (w', db'), log')"
    by (auto simp: scan_oracle_def io_try_def split: option.splits sum.splits prod.splits dest: au_chain_passed)
  from au_chain_passed [OF chain] obtain ev where read: "snapshot (au_reads self) pool [] (w, []) = Some (Ok snap, w1, ev)" by blast
  note ok = snapshot_answers_ok [OF read]
  then have "prices_ok (sn_prices snap)" "bt_wf (op_prices (sn_prices snap))" by (simp_all add: snapshot_ok_def)
  note exact = watch_moved_exact [OF assms(2) this moved]
  have hurt: "hurt_by pool (sn_asset_index snap) (set moves) row \<longleftrightarrow> (\<exists>asset price ref i. bt_get (op_prices (sn_prices snap)) asset = Some price
               \<and> bt_get (pool_references watch pool) asset = Some ref \<and> judgeable price (rf_price ref)
               \<and> int (pw_delta_bps watch) * rf_price ref \<le> \<bar>price - rf_price ref\<bar> * 10000
               \<and> bt_get (sn_asset_index snap) asset = Some i
               \<and> exposed pool i (if rf_price ref < price then LiabilitySide else CollateralSide) row)" for row
    unfolding exact(1) hurt_by_moves hurt_side_def has_moved_def by (simp add: if_distrib cong: if_cong conj_cong)
  have db': "log' = log" "db' = db\<lparr>tb_users := map (\<lambda>row. if hurt_by pool (sn_asset_index snap) (set moves) row
       then raise_flag (lt_sequence tick) row else row) (tb_users db)\<rparr>"
    using flag_moves_flags [OF flags] by (simp_all add: update_rows_def)
  show ?thesis
    by (rule exI [of _ snap], rule exI [of _ w1], rule exI [of _ ev], intro conjI allI impI,
        fact read, fact ok, fact db'(2) [unfolded hurt], fact db'(1), fact exact(2), fact exact(4), rule exact(3))
qed


text \<open>A scan in which XLM, borrowed by account B, has tripled.\<close>

definition idle_host :: "'w host" where
  "idle_host = \<lparr>ho_post = (\<lambda>_ w. (Response 500 (Ok []), w)), ho_account = (\<lambda>w. (Err (Http 500), w)), ho_fee_stats = (\<lambda>w. (Err (Http 500), w)),
     ho_unix_now = (\<lambda>w. (Some 0, w)), ho_now = (\<lambda>w. (0, w)), ho_sleep = (\<lambda>_ w. w), ho_pause = (\<lambda>_ w. w), ho_shutdown = (\<lambda>_. True),
     ho_codec = sample_codec, ho_encode = (\<lambda>_. Ok []), ho_read_send = (\<lambda>_. Err []), ho_read_transaction = (\<lambda>_. Err []),
     ho_read_simulation = (\<lambda>_. Err []), ho_tx_hash = (\<lambda>_. Ok sample_hash), ho_envelope_hash = (\<lambda>_. Ok sample_hash),
     ho_signature = to_hex, ho_address = ''G''\<rparr>"

definition sample_watch :: price_watch where
  "sample_watch = \<lparr>pw_delta_bps = 250, pw_stale_after = 86400, pw_references = [(''P'', [(''XLM'', \<lparr>rf_price = 1, rf_set_at = 40\<rparr>)])]\<rparr>"

definition sample_borrower :: user_row where
  "sample_borrower = \<lparr>uw_pool = ''P'', uw_account = ''B'', uw_health_factor = 12000000, uw_collateral = JObject [], uw_liabilities = JObject [(''7'', JString ''5'')],
     uw_updated_ledger = 7, uw_recheck_ledger = None\<rparr>"

definition sample_lender :: user_row where
  "sample_lender = sample_borrower\<lparr>uw_account := ''C'', uw_collateral := JObject [(''7'', JString ''5'')], uw_liabilities := JObject []\<rparr>"

definition sample_tables :: tables where
  "sample_tables = empty_tables\<lparr>tb_users := [sample_borrower, sample_lender]\<rparr>"

lemma sample_scan_snapshot: "\<exists>s. snapshot sample_reads ''P'' [] ((), []) = Some (Ok s, (), [10, 10, 10, 10])
     \<and> op_prices (sn_prices s) = [(''XLM'', 3)] \<and> sn_asset_index s = [(''XLM'', 7)]"
proof -
  obtain inst where shape: "pool_shape sample_reads ''P'' ((), []) = Some (Ok (10, inst, [''XLM'']), (), [10])"
    using sample_shape [of "[]"] by auto
  let ?keys = "map (\<lambda>n. ContractDataKey ''P'' (Some (ScVec (Some [ScSymbol (fst n), ScAddress (snd n)]))) Persistent)
    [(''ResConfig'', ''XLM''), (''ResData'', ''XLM'')]"
  obtain r where r: "read_reserve sample_reads ''P'' (sample_entries ?keys) ''XLM'' ([], [])
      = Ok ([(7, r)], [(''XLM'', 7)])"
    using sample_reserve_index [of ?keys] by auto
  have e: "read_ledger_entries sample_reads ?keys ((), l) = Some (Ok (sample_entries ?keys), (), l @ [10])" for l
    by (rule sample_read) simp_all
  have l: "ls_latest_ledger (sample_entries ?keys) = 10" by (simp add: sample_entries_def)
  have "\<exists>s. snapshot_body sample_reads ''P'' [] (10, inst, [''XLM'']) ((), [10]) = Some (Ok s, (), [10, 10, 10, 10])
      \<and> op_prices (sn_prices s) = [(''XLM'', 3)] \<and> sn_asset_index s = [(''XLM'', 7)]"
    using r e l sample_prices_read [of _ "[10, 10]"]
    by (simp add: snapshot_body_def io_run asset_keys_def sample_keys same_ledger_def del: rbind_eq_Ok)
  then show ?thesis
    using shape by (auto simp: snapshot_def SNAPSHOT_ATTEMPTS_def numeral_2_eq_2 io_try_def snapshot_once_def io_run)
qed

lemma sample_watch_moves:
  "\<exists>watch'. watch_moved sample_watch ''P'' \<lparr>op_decimals = d, op_scalar = s, op_prices = [(''XLM'', 3)]\<rparr> 50
     = ([\<lparr>pm_asset = ''XLM'', pm_direction = PriceUp\<rparr>], watch')"
  by (simp add: watch_moved_def watch_price_def pool_references_def sample_watch_def Let_def moved_direction_def eval_simps)

lemma nat_text_7: "nat_text 7 = ''7''"
  by code_simp

theorem oracle_scan_flags_exactly_the_hurt_witness:
  "\<exists>flagged watch' db'. scan_oracle (sample_auctioneer sample_reads idle_host) ''P'' sample_watch sample_tick (((), sample_tables), [])
     = Some (Ok (Ok flagged, watch'), ((), db'), [])
     \<and> tb_users db' = [raise_flag 10 sample_borrower, sample_lender] \<and> watch_ok watch'"
proof -
  obtain s where snap: "snapshot sample_reads ''P'' [] ((), []) = Some (Ok s, (), [10, 10, 10, 10])"
    and s: "op_prices (sn_prices s) = [(''XLM'', 3)]" "sn_asset_index s = [(''XLM'', 7)]"
    using sample_scan_snapshot by blast
  obtain watch' where moved: "watch_moved sample_watch ''P'' (sn_prices s) 50 = ([\<lparr>pm_asset = ''XLM'', pm_direction = PriceUp\<rparr>], watch')"
    using s(1) sample_watch_moves [of "op_decimals (sn_prices s)" "op_scalar (sn_prices s)"] by (metis (full_types) oracle_prices.surjective unit.exhaust)
  have "\<exists>flagged db'. scan_oracle (sample_auctioneer sample_reads idle_host) ''P'' sample_watch sample_tick (((), sample_tables), [])
     = Some (Ok (Ok flagged, watch'), ((), db'), [])"
    by (simp add: scan_oracle_def io_try_def au_chain_def sample_auctioneer_def snap sample_tick_def moved s(2) au_store_def io_map_err_def statement_def
        io_bind_def io_lift_def total_def)
  then obtain flagged db' where run: "scan_oracle (sample_auctioneer sample_reads idle_host) ''P'' sample_watch sample_tick (((), sample_tables), [])
     = Some (Ok (Ok flagged, watch'), ((), db'), [])" by blast
  have "watch_ok sample_watch" by (simp add: watch_ok_def references_ok_def pool_references_def sample_watch_def)
  from oracle_scan_flags_exactly_the_hurt [OF run this] snap
  have db': "tb_users db' = map (\<lambda>row.
          if \<exists>asset price ref i. bt_get (op_prices (sn_prices s)) asset = Some price
               \<and> bt_get (pool_references sample_watch ''P'') asset = Some ref \<and> judgeable price (rf_price ref)
               \<and> int (pw_delta_bps sample_watch) * rf_price ref \<le> \<bar>price - rf_price ref\<bar> * 10000
               \<and> bt_get (sn_asset_index s) asset = Some i
               \<and> exposed ''P'' i (if rf_price ref < price then LiabilitySide else CollateralSide) row
          then raise_flag (lt_sequence sample_tick) row else row) (tb_users sample_tables)" and ok: "watch_ok watch'"
    by (auto simp: sample_auctioneer_def)
  have "exposed ''P'' 7 LiabilitySide sample_borrower" "\<not> exposed ''P'' 7 LiabilitySide sample_lender"
    by (simp_all add: exposed_def sample_lender_def sample_borrower_def nat_text_7 jsonb_exists_def)
  then have "tb_users db' = [raise_flag 10 sample_borrower, sample_lender]"
    unfolding db' by (simp add: s pool_references_def sample_watch_def judgeable_def i128_defs hurt_side_def sample_tables_def sample_tick_def)
  with run ok show ?thesis by blast
qed


section \<open>Decisions and the tracker\<close>

text \<open>A valuation keeps the oracle's scale, and one without liabilities owes nothing.\<close>

lemma valued_data:
  assumes "calculate_position_data reserves prices positions = Ok data"
  shows "pd_scalar data = op_scalar prices" "ps_liabilities positions = [] \<Longrightarrow> pd_liability_base data = 0"
proof -
  obtain d1 where c: "rfold (value_collateral reserves prices) (ps_collateral positions)
      \<lparr>pd_collateral_base = 0, pd_collateral_raw = 0, pd_liability_base = 0, pd_liability_raw = 0, pd_scalar = op_scalar prices\<rparr> = Ok d1"
    and l: "rfold (value_liability reserves prices) (ps_liabilities positions) d1 = Ok data"
    using assms by (auto simp: calculate_position_data_def Let_def)
  have d1: "pd_scalar d1 = op_scalar prices \<and> pd_liability_base d1 = 0"
    by (rule rfold_invariant [OF c]) (auto simp: value_collateral_def split: if_splits)
  show "pd_scalar data = op_scalar prices"
    by (rule rfold_invariant [OF l, where I = "\<lambda>d. pd_scalar d = op_scalar prices"]) (use d1 in \<open>auto simp: value_liability_def split: if_splits\<close>)
  show "pd_liability_base data = 0" if "ps_liabilities positions = []"
    using l d1 that by simp
qed

lemma snapshot_data_some:
  assumes "snapshot_position_data snap account at = Ok (Some data)"
  shows "\<exists>positions. bt_get (sn_positions snap) account = Some positions \<and> pd_scalar data = op_scalar (sn_prices snap)
     \<and> (pd_liability_base data \<noteq> 0 \<longrightarrow> ps_liabilities positions \<noteq> [])"
  using assms valued_data
  by (auto simp: snapshot_position_data_def chain_math_def split: option.splits if_splits sum.splits)

lemma standing_some:
  assumes "snapshot_position_data snap account at = Ok (Some data)" "health_factor data = Ok (Some health)"
    and "mul_floor health SCALAR_7 (pd_scalar data) = Ok hf"
  shows "\<exists>positions. bt_get (sn_positions snap) account = Some positions \<and> standing snap at account = Some (positions, hf)"
proof -
  from snapshot_data_some [OF assms(1)] obtain positions where p: "bt_get (sn_positions snap) account = Some positions"
    "pd_scalar data = op_scalar (sn_prices snap)" "pd_liability_base data \<noteq> 0 \<longrightarrow> ps_liabilities positions \<noteq> []" by blast
  have "pd_liability_base data \<noteq> 0" using assms(2) by (auto simp: health_factor_def)
  then show ?thesis using p assms by (simp add: standing_def owed_health_def normalised_def)
qed

lemma standing_none:
  assumes "snapshot_position_data snap account at = Ok None
     \<or> (\<exists>data. snapshot_position_data snap account at = Ok (Some data) \<and> health_factor data = Ok None)"
  shows "standing snap at account = None"
  using assms by (auto simp: standing_def owed_health_def split: option.splits if_splits)

text \<open>
  What a decision says of the account's standing: the health factor it is judged by is the
  one the tracker stores.
\<close>

definition judged_by :: "auctioneer_config \<Rightarrow> pool_snapshot \<Rightarrow> (nat, reserve) btree \<Rightarrow> nat \<Rightarrow> string \<Rightarrow> decision \<Rightarrow> bool" where
  "judged_by config snap reserves at account d \<longleftrightarrow>
     (case d of
        DecideBadDebt \<Rightarrow> \<exists>data. snapshot_position_data snap account at = Ok (Some data) \<and> 0 < pd_liability_base data \<and> pd_collateral_raw data = 0
      | Liquidate plan \<Rightarrow> \<exists>positions hf data collateral liabilities. standing snap at account = Some (positions, hf) \<and> hf \<le> ak_liquidation_health_factor config
          \<and> snapshot_position_data snap account at = Ok (Some data) \<and> \<not> (0 < pd_liability_base data \<and> pd_collateral_raw data = 0)
          \<and> position_values reserves (sn_prices snap) positions = Ok (collateral, liabilities)
          \<and> plan_liquidation data collateral liabilities (ak_target_health_factor config) (po_max_positions (pi_config (sn_instance snap))) = Ok (Some plan)
          \<and> 1 \<le> fp_get (lp_percent plan) \<and> fp_get (lp_percent plan) \<le> 100
      | Skip Healthy \<Rightarrow> \<exists>positions hf. standing snap at account = Some (positions, hf) \<and> ak_liquidation_health_factor config < hf
      | Skip NoPlan \<Rightarrow> \<exists>positions hf. standing snap at account = Some (positions, hf) \<and> hf \<le> ak_liquidation_health_factor config
      | Skip NoLiabilities \<Rightarrow> standing snap at account = None
      | Skip AuctionOpen \<Rightarrow> False
      | Skip OwnAccount \<Rightarrow> False)"

lemma plan_percent_range:
  "plan_liquidation data c l target mp = Ok (Some pl) \<Longrightarrow> Suc 0 \<le> fp_get (lp_percent pl)"
  "plan_liquidation data c l target mp = Ok (Some pl) \<Longrightarrow> fp_get (lp_percent pl) \<le> 100"
  by (auto simp: plan_from_def dest!: plan_liquidation_Some [OF _ refl])

lemma as_math_Ok [simp]: "as_math r = Ok x \<longleftrightarrow> r = Ok x"
  by (simp add: as_math_def split: sum.split)

lemma as_chain_Ok [simp]: "as_chain r = Ok x \<longleftrightarrow> r = Ok x"
  by (simp add: as_chain_def split: sum.split)

lemma decide_position_judged:
  assumes "decide_position config account snap reserves at = Ok d"
  shows "judged_by config snap reserves at account d"
proof -
  from assms obtain found where data: "snapshot_position_data snap account at = Ok found"
    and rest: "(case found of
       None \<Rightarrow> Ok (Skip NoLiabilities)
     | Some data \<Rightarrow>
         if 0 < pd_liability_base data \<and> pd_collateral_raw data = 0 then Ok DecideBadDebt
         else
           rbind (as_math (health_factor data)) (\<lambda>health.
           case health of
             None \<Rightarrow> Ok (Skip NoLiabilities)
           | Some health \<Rightarrow>
               rbind (as_math (mul_floor health SCALAR_7 (pd_scalar data))) (\<lambda>hf.
               if ak_liquidation_health_factor config < hf then Ok (Skip Healthy)
               else
                 (case bt_get (sn_positions snap) account of
                    None \<Rightarrow> Ok (Skip NoLiabilities)
                  | Some positions \<Rightarrow>
                      rbind (as_math (position_values reserves (sn_prices snap) positions)) (\<lambda>(collateral, liabilities).
                      rbind (as_math (plan_liquidation data collateral liabilities (ak_target_health_factor config)
                        (po_max_positions (pi_config (sn_instance snap))))) (\<lambda>plan.
                      Ok (case plan of Some plan \<Rightarrow> Liquidate plan | None \<Rightarrow> Skip NoPlan))))))) = Ok d"
    by (auto simp: decide_position_def)
  show ?thesis
  proof (cases found)
    case None
    then show ?thesis using rest data standing_none [of snap account at] by (auto simp: judged_by_def)
  next
    case (Some dat)
    show ?thesis
    proof (cases "0 < pd_liability_base dat \<and> pd_collateral_raw dat = 0")
      case True
      then show ?thesis using rest data Some by (auto simp: judged_by_def)
    next
      case solvent: False
      with rest Some obtain health where h: "health_factor dat = Ok health" by auto
      show ?thesis
      proof (cases health)
        case None
        then show ?thesis using rest data Some solvent h standing_none [of snap account at] by (auto simp: judged_by_def)
      next
        case (Some health')
        with rest \<open>found = Some dat\<close> solvent h obtain hf where hf: "mul_floor health' SCALAR_7 (pd_scalar dat) = Ok hf" by auto
        from standing_some [OF data [unfolded \<open>found = Some dat\<close>] h [unfolded Some] hf]
        obtain positions where p: "bt_get (sn_positions snap) account = Some positions" "standing snap at account = Some (positions, hf)" by blast
        show ?thesis
        proof (cases "ak_liquidation_health_factor config < hf")
          case True
          then show ?thesis using rest \<open>found = Some dat\<close> solvent h Some hf p(2) by (auto simp: judged_by_def)
        next
          case False
          with rest \<open>found = Some dat\<close> solvent h Some hf p(1) obtain collateral liabilities plan
            where v: "position_values reserves (sn_prices snap) positions = Ok (collateral, liabilities)"
              "plan_liquidation dat collateral liabilities (ak_target_health_factor config) (po_max_positions (pi_config (sn_instance snap))) = Ok plan"
              "d = (case plan of Some plan \<Rightarrow> Liquidate plan | None \<Rightarrow> Skip NoPlan)"
            by auto
          show ?thesis
          proof (cases plan)
            case None
            then show ?thesis using v(3) p(2) False by (simp add: judged_by_def)
          next
            case (Some pl)
            note range = plan_percent_range [OF v(2) [unfolded Some]]
            show ?thesis unfolding v(3) Some judged_by_def option.case decision.case
              by (rule exI [of _ positions], rule exI [of _ hf], rule exI [of _ dat], rule exI [of _ collateral], rule exI [of _ liabilities])
                (use data \<open>found = Some dat\<close> solvent p(2) False v(1) v(2) [unfolded Some] range in simp)
          qed
        qed
      qed
    qed
  qed
qed


definition decided ::
  "'w auctioneer \<Rightarrow> string \<Rightarrow> pool_snapshot \<Rightarrow> (nat, reserve) btree \<Rightarrow> nat \<Rightarrow> tables \<Rightarrow> string \<Rightarrow> decision option \<Rightarrow> bool" where
  "decided self pool snap reserves at db account d \<longleftrightarrow>
     (if is_own_account self pool account then d = Some (Skip OwnAccount)
      else \<exists>found. store_auction pool account UserLiquidation db = Ok found
        \<and> (if found \<noteq> None then d = Some (Skip AuctionOpen)
           else d = (case decide_position (au_config self) account snap reserves at of Inl _ \<Rightarrow> None | Inr d \<Rightarrow> Some d)))"

lemma decide_one_cases:
  assumes "decide_one self pool account snap reserves at ((w, db), log) = Some (r, (w', db'), log')" "\<not> is_own_account self pool account"
  obtains (failed) e where "r = Err (AuctStore e)"
  | (answered) "db' = db" "log' = log" "\<And>e. r \<noteq> Err (AuctStore e)"
      "decided self pool snap reserves at db account (case r of Inl _ \<Rightarrow> None | Inr d \<Rightarrow> Some d)"
proof -
  have no_store: "decide_position (au_config self) account snap reserves at \<noteq> Err (AuctStore e)" for e
    by (auto simp: decide_position_def as_math_def as_chain_def rbind_def split: sum.splits option.splits if_splits prod.splits)
  from assms have "io_bind (au_store self (select_only (store_auction pool account UserLiquidation))) (\<lambda>found.
        if found \<noteq> None then io_lift (Ok (Skip AuctionOpen))
        else io_lift (decide_position (au_config self) account snap reserves at)) ((w, db), log) = Some (r, (w', db'), log')"
    by (simp add: decide_one_def)
  then show thesis
  proof (cases rule: io_bind_track)
    case (failed e)
    then show thesis using that(1) by (auto simp: au_store_def elim!: io_map_err_cases)
  next
    case (passed found w1 db1 log1)
    from au_store_passed [OF passed(1)] have q: "store_auction pool account UserLiquidation db = Ok found" "db1 = db" "log1 = log"
      by (auto simp: select_only_def)
    show thesis
      using passed(2) q assms(2) no_store that(2) by (auto simp: decided_def split: if_splits)
  qed
qed

text \<open>The batch: one decision for each account that has one, in the order asked.\<close>

definition batch_of :: "(string \<Rightarrow> decision option) \<Rightarrow> string list \<Rightarrow> (string \<times> decision) list" where
  "batch_of d accounts = List.map_filter (\<lambda>a. map_option (Pair a) (d a)) accounts"

lemma decide_each_decides:
  assumes "decide_each self pool snap reserves at accounts ((w, db), log) = Some (Ok ds, (w', db'), log')"
  shows "db' = db \<and> log' = log \<and> (\<exists>d. (\<forall>a \<in> set accounts. decided self pool snap reserves at db a (d a)) \<and> ds = batch_of d accounts)"
  using assms
proof (induction accounts arbitrary: w log ds)
  case Nil
  then show ?case by (simp add: batch_of_def map_filter_simps)
next
  case (Cons account accounts)
  have extend: "db' = db \<and> log' = log \<and> (\<exists>d. (\<forall>a \<in> set (account # accounts). decided self pool snap reserves at db a (d a)) \<and> ds = batch_of d (account # accounts))"
    if rest: "decide_each self pool snap reserves at accounts ((w1, db), log) = Some (Ok ds1, (w', db'), log')"
      and here: "decided self pool snap reserves at db account x" and ds: "ds = (case x of None \<Rightarrow> ds1 | Some y \<Rightarrow> (account, y) # ds1)" for w1 ds1 x
  proof -
    from Cons.IH [OF rest] obtain d where *: "db' = db" "log' = log" "\<forall>a \<in> set accounts. decided self pool snap reserves at db a (d a)" "ds1 = batch_of d accounts" by blast
    have det: "d a = x" if "a = account" "a \<in> set accounts" for a
    proof -
      have "decided self pool snap reserves at db account (d account)" using *(3) that by simp
      with here that show ?thesis by (auto simp: decided_def split: if_splits)
    qed
    have "batch_of (d(account := x)) accounts = batch_of d accounts"
      unfolding batch_of_def List.map_filter_def using det by (intro map_cong filter_cong) auto
    then show ?thesis
      using * here ds by (intro conjI exI [of _ "d(account := x)"]) (auto simp: batch_of_def map_filter_simps split: option.splits)
  qed
  show ?case
  proof (cases "is_own_account self pool account")
    case True
    with Cons.prems obtain w1 ds1 where "decide_each self pool snap reserves at accounts ((w, db), log) = Some (Ok ds1, (w', db'), log')"
      "ds = (account, Skip OwnAccount) # ds1" by (auto elim!: io_bind_track)
    then show ?thesis using extend [of w ds1 "Some (Skip OwnAccount)"] True by (simp add: decided_def)
  next
    case False
    with Cons.prems obtain r w1 db1 log1 where one: "decide_one self pool account snap reserves at ((w, db), log) = Some (r, (w1, db1), log1)"
      and rest: "(case r of
          Inr decision \<Rightarrow>
            io_bind (decide_each self pool snap reserves at accounts) (\<lambda>rest. io_lift (Ok ((account, decision) # rest)))
        | Inl (AuctStore error) \<Rightarrow> io_lift (Err (AuctStore error))
        | Inl _ \<Rightarrow> decide_each self pool snap reserves at accounts) ((w1, db1), log1) = Some (Ok ds, (w', db'), log')"
      by (auto simp: io_try_def split: option.splits)
    from one False show ?thesis
    proof (cases rule: decide_one_cases)
      case (failed e)
      then show ?thesis using rest by simp
    next
      case answered
      show ?thesis
      proof (cases r)
        case (Inl e)
        then have "decide_each self pool snap reserves at accounts ((w1, db), log) = Some (Ok ds, (w', db'), log')"
          using rest answered(1-3) by (cases e) auto
        then show ?thesis using extend [of w1 ds None] answered(4) Inl by simp
      next
        case (Inr y)
        then obtain ds1 where "decide_each self pool snap reserves at accounts ((w1, db), log) = Some (Ok ds1, (w', db'), log')" "ds = (account, y) # ds1"
          using rest answered(1,2) by (auto elim!: io_bind_track)
        then show ?thesis using extend [of w1 ds1 "Some y"] answered(4) Inr by simp
      qed
    qed
  qed
qed


text \<open>
  C31. The auctioneer judges by what the tracker stores. A batch of decisions changes no row and posts nothing; it has at most one
  decision per user, in the order asked; an account of the bot's own is skipped, and when all are, the
  chain is not read. For the others there is one consistent snapshot such that: a user with an open liquidation row is skipped for it; otherwise a decision to
  liquidate, a skip for health and a skip for want of a plan compare with the threshold exactly the normalised health
  factor the tracker writes for that snapshot and instant, a plan is the planner's for that position with a percent in
  1..100, bad debt means liabilities and no raw collateral, a skip for owing nothing means the tracker keeps no
  row; and a user is missing from the batch only because its own position could not be valued.
\<close>

theorem decisions_follow_the_tracker:
  assumes "decide self pool users tick ((w, db), log) = Some (Ok decisions, (w', db'), log')"
  shows "db' = db \<and> log' = log \<and> (\<exists>d. decisions = batch_of d (map tu_account users)
     \<and> (\<forall>a \<in> tu_account ` set users. is_own_account self pool a \<longrightarrow> d a = Some (Skip OwnAccount))
     \<and> (let others = filter (\<lambda>a. \<not> is_own_account self pool a) (map tu_account users) in
        if others = [] then w' = w
        else \<exists>snap reserves w1 ev. let at = valued_at snap (lt_close_time tick) in
          snapshot (au_reads self) pool others (w, []) = Some (Ok snap, w1, ev) \<and> snapshot_ok pool others snap
          \<and> accrued_reserves snap at = Ok reserves
          \<and> (\<forall>a \<in> set others. \<exists>found. store_auction pool a UserLiquidation db = Ok found
               \<and> (found \<noteq> None \<longrightarrow> d a = Some (Skip AuctionOpen))
               \<and> (found = None \<longrightarrow> (case d a of
                    None \<Rightarrow> \<exists>e. decide_position (au_config self) a snap reserves at = Err e
                  | Some v \<Rightarrow> judged_by (au_config self) snap reserves at a v)))))"
proof -
  let ?accounts = "map tu_account users"
  let ?others = "filter (\<lambda>a. \<not> is_own_account self pool a) ?accounts"
  show ?thesis
  proof (cases "?others = []")
    case True
    then have own: "\<forall>a \<in> set ?accounts. is_own_account self pool a" by (simp add: filter_empty_conv)
    have "decisions = map (\<lambda>a. (a, Skip OwnAccount)) ?accounts \<and> (w', db') = (w, db) \<and> log' = log"
      using assms True by (auto simp: decide_def Let_def split: if_splits)
    moreover have "map (\<lambda>a. (a, Skip OwnAccount)) ?accounts = batch_of (\<lambda>_. Some (Skip OwnAccount)) ?accounts"
      by (simp add: batch_of_def List.map_filter_def)
    ultimately show ?thesis using True by (intro conjI exI [of _ "\<lambda>_. Some (Skip OwnAccount)"]) (simp_all add: Let_def)
  next
    case False
    then have ne: "?accounts \<noteq> []" by auto
    from assms False ne obtain snap reserves w1 db1 log1
      where chain: "au_chain (snapshot (au_reads self) pool ?others) ((w, db), log) = Some (Ok snap, (w1, db1), log1)"
        and res: "accrued_reserves snap (valued_at snap (lt_close_time tick)) = Ok reserves"
        and each: "decide_each self pool snap reserves (valued_at snap (lt_close_time tick)) ?accounts ((w1, db1), log1) = Some (Ok decisions, (w', db'), log')"
      by (auto simp: decide_def Let_def elim!: io_bind_track io_map_err_cases split: if_splits)
    from au_chain_passed [OF chain] obtain ev where same: "db1 = db" "log1 = log"
      and read: "snapshot (au_reads self) pool ?others (w, []) = Some (Ok snap, w1, ev)" by blast
    from decide_each_decides [OF each [unfolded same]] obtain d where kept: "db' = db" "log' = log"
      and d: "\<forall>a \<in> set ?accounts. decided self pool snap reserves (valued_at snap (lt_close_time tick)) db a (d a)" "decisions = batch_of d ?accounts" by blast
    have own: "\<forall>a \<in> tu_account ` set users. is_own_account self pool a \<longrightarrow> d a = Some (Skip OwnAccount)" using d(1) by (auto simp: decided_def)
    have verdict: "\<forall>a \<in> set ?others. \<exists>found. store_auction pool a UserLiquidation db = Ok found
               \<and> (found \<noteq> None \<longrightarrow> d a = Some (Skip AuctionOpen))
               \<and> (found = None \<longrightarrow> (case d a of
                    None \<Rightarrow> \<exists>e. decide_position (au_config self) a snap reserves (valued_at snap (lt_close_time tick)) = Err e
                  | Some v \<Rightarrow> judged_by (au_config self) snap reserves (valued_at snap (lt_close_time tick)) a v))"
    proof
      fix a
      assume a: "a \<in> set ?others"
      then have "\<not> is_own_account self pool a" "decided self pool snap reserves (valued_at snap (lt_close_time tick)) db a (d a)"
        using d(1) by auto
      then obtain found where found: "store_auction pool a UserLiquidation db = Ok found"
        "if found \<noteq> None then d a = Some (Skip AuctionOpen)
         else d a = (case decide_position (au_config self) a snap reserves (valued_at snap (lt_close_time tick)) of Inl _ \<Rightarrow> None | Inr d \<Rightarrow> Some d)"
        by (auto simp: decided_def)
      show "\<exists>found. store_auction pool a UserLiquidation db = Ok found
               \<and> (found \<noteq> None \<longrightarrow> d a = Some (Skip AuctionOpen))
               \<and> (found = None \<longrightarrow> (case d a of
                    None \<Rightarrow> \<exists>e. decide_position (au_config self) a snap reserves (valued_at snap (lt_close_time tick)) = Err e
                  | Some v \<Rightarrow> judged_by (au_config self) snap reserves (valued_at snap (lt_close_time tick)) a v))"
        by (rule exI [of _ found], cases "decide_position (au_config self) a snap reserves (valued_at snap (lt_close_time tick))")
          (use found decide_position_judged in auto)
    qed
    show ?thesis
      unfolding Let_def if_not_P [OF False]
      using kept d(2) own read snapshot_answers_ok [OF read] res verdict by blast
  qed
qed

text \<open>A batch of the bot's own account and one that owes nothing.\<close>

abbreviation asked_user :: "string \<Rightarrow> tracked_user" where
  "asked_user account \<equiv> \<lparr>tu_pool = ''P'', tu_account = account, tu_health_factor = 0, tu_collateral = [], tu_liabilities = [], tu_updated_ledger = 0,
     tu_recheck_ledger = Some 9\<rparr>"

theorem decisions_follow_the_tracker_witness:
  "\<exists>decisions. decide (sample_auctioneer sample_reads idle_host) ''P'' [asked_user ''G'', asked_user ''U''] sample_tick (((), empty_tables), [])
     = Some (Ok decisions, ((), empty_tables), [])
     \<and> (\<exists>d. decisions = batch_of d [''G'', ''U''] \<and> d ''G'' = Some (Skip OwnAccount))"
proof -
  obtain s r where snap: "snapshot sample_reads ''P'' [''U''] ((), []) = Some (Ok s, (), [10, 10, 10, 10])"
    and s: "sn_positions s = [(''U'', positions_default)]" "sn_reserves s = [(7, r)]" "rd_last_time (rs_data r) = 50"
    using sample_snapshot by blast
  have own: "is_own_account (sample_auctioneer sample_reads idle_host) ''P'' ''G''" "\<not> is_own_account (sample_auctioneer sample_reads idle_host) ''P'' ''U''"
    by (simp_all add: is_own_account_def sample_auctioneer_def sample_auctioneer_config_def)
  have reads: "au_reads (sample_auctioneer sample_reads idle_host) = sample_reads" by (simp add: sample_auctioneer_def)
  have chain: "au_chain (snapshot sample_reads ''P'' [''U'']) (((), empty_tables), []) = Some (Ok s, ((), empty_tables), [])"
    by (simp add: au_chain_def snap)
  have "valued_at s 50 = 50" by (simp add: valued_at_def s)
  then have res: "accrued_reserves s 50 = Ok [(7, r)]" by (simp add: accrued_reserves_def s accrue_entry_def accrue_def)
  have pos: "decide_position config ''U'' s reserves at = Ok (Skip NoLiabilities)" for config reserves at
    by (simp add: decide_position_def snapshot_position_data_def s positions_is_empty_def positions_default_def as_chain_def)
  have one: "decide_one (sample_auctioneer sample_reads idle_host) ''P'' ''U'' s reserves at (((), empty_tables), []) = Some (Ok (Skip NoLiabilities), ((), empty_tables), [])"
    for reserves at
    by (simp add: decide_one_def own pos) (simp add: sample_auctioneer_def au_store_def io_map_err_def io_try_def statement_def select_only_def
        store_auction_def empty_tables_def opt_column_def io_bind_def io_lift_def pos)
  have "\<exists>decisions. decide (sample_auctioneer sample_reads idle_host) ''P'' [asked_user ''G'', asked_user ''U''] sample_tick (((), empty_tables), [])
     = Some (Ok decisions, ((), empty_tables), [])"
    by (simp add: decide_def own Let_def reads sample_tick_def io_run io_map_err_def io_try_def chain as_math_def \<open>valued_at s 50 = 50\<close> res one)
  then obtain decisions where run: "decide (sample_auctioneer sample_reads idle_host) ''P'' [asked_user ''G'', asked_user ''U''] sample_tick (((), empty_tables), [])
     = Some (Ok decisions, ((), empty_tables), [])" by blast
  from decisions_follow_the_tracker [OF run] own
  have "\<exists>d. decisions = batch_of d [''G'', ''U''] \<and> d ''G'' = Some (Skip OwnAccount)" by auto
  with run show ?thesis by blast
qed


end
