(* ===== verification/Spec2Isabelle.thy ===== *)
theory Spec2Isabelle
  imports Liquidation Tracker Executor Auctioneer
begin

text \<open>
  A verification development for blend-liquidator, the liquidation bot for Blend v2
  lending pools on Stellar.

  The planned layout: the shared vocabulary (\<open>Prelude\<close>, \<open>BTree\<close>), the arithmetic the
  decisions rest on (\<open>Fixed\<close>, \<open>Reserve\<close>, \<open>Position\<close>, \<open>Auction\<close>, \<open>Liquidation\<close>,
  \<open>Setoff\<close>, \<open>Fill\<close>, \<open>Unwind\<close>), and the stateful parts around it (\<open>Inventory\<close>,
  \<open>Queue\<close>, \<open>Ledger_Poller\<close>, \<open>Tracker\<close>).
\<close>

end
